(* ===== verification/Prelude.thy ===== *)
theory Prelude
  imports Main "HOL-Library.Word" "HOL-Library.Multiset" "HOL-Library.State_Monad"
begin

unbundle bit_operations_syntax

text \<open>
  Prelude: what every component theory shares.

  \<^item> names for the C types (\<open>byte\<close>, \<open>u64\<close>, \<open>bytes\<close>) and the conversions
    between mathematical integers and the 32- and 64-bit C types;
  \<^item> byte buffers as lists, with the \<open>patch\<close> operation (a \<open>memcpy\<close> into a buffer)
    and its lemmas;
  \<^item> little-endian grouping of bytes;
  \<^item> the trace monad: a program that calls the outside world (system calls, kernel
    services) is a state-monad computation whose state is the list of the calls made so
    far with their results, and whose outside world is an arbitrary function of that
    history (\<open>'c, 'r\<close>) \<open>os\<close>.  A property proved for every \<open>os\<close> holds whatever the
    outside world answers.
\<close>

named_theorems prog_simps "equations that run a trace-monad program"
named_theorems bounds "width and range facts of the machine integers"
named_theorems inv_rules "preservation of a component's invariant by its operations"

section \<open>Machine integers\<close>

type_synonym byte = "8 word"
type_synonym bytes = "8 word list"
type_synonym u32 = "32 word"
type_synonym u64 = "64 word"

text \<open>Conversion of an out-of-range integer to \<open>int\<close> or \<open>long\<close>: two's complement.\<close>

definition c_int :: "int \<Rightarrow> int" where
  "c_int i = signed_take_bit 31 i"

definition c_long :: "int \<Rightarrow> int" where
  "c_long i = signed_take_bit 63 i"

text \<open>Conversion to \<open>unsigned long\<close>, \<open>unsigned long long\<close> or \<open>size_t\<close>.\<close>

definition c_ulong :: "int \<Rightarrow> nat" where
  "c_ulong i = nat (i mod 2 ^ 64)"

definition c_uint :: "int \<Rightarrow> nat" where
  "c_uint i = nat (i mod 2 ^ 32)"

lemma c_int_range [bounds]: "- (2 ^ 31) \<le> c_int i" "c_int i < 2 ^ 31"
  using signed_take_bit_int_greater_eq_minus_exp [of 31 i] signed_take_bit_int_less_exp [of 31 i]
  by (simp_all add: c_int_def)

lemma c_long_range [bounds]: "- (2 ^ 63) \<le> c_long i" "c_long i < 2 ^ 63"
  using signed_take_bit_int_greater_eq_minus_exp [of 63 i] signed_take_bit_int_less_exp [of 63 i]
  by (simp_all add: c_long_def)

lemma c_int_id [simp]: "- (2 ^ 31) \<le> i \<Longrightarrow> i < 2 ^ 31 \<Longrightarrow> c_int i = i"
  by (simp add: c_int_def signed_take_bit_int_eq_self)

lemma c_long_id [simp]: "- (2 ^ 63) \<le> i \<Longrightarrow> i < 2 ^ 63 \<Longrightarrow> c_long i = i"
  by (simp add: c_long_def signed_take_bit_int_eq_self)

lemma c_int_eq_mod: "c_int i = (i + 2 ^ 31) mod 2 ^ 32 - 2 ^ 31"
  by (simp add: c_int_def signed_take_bit_eq_take_bit_shift take_bit_eq_mod)

lemma c_int_wrap_down: "2 ^ 31 \<le> i \<Longrightarrow> i < 2 ^ 32 \<Longrightarrow> c_int i = i - 2 ^ 32"
proof -
  assume i: "2 ^ 31 \<le> i" "i < 2 ^ 32"
  have "(i + 2 ^ 31) mod 2 ^ 32 = i + 2 ^ 31 - 2 ^ 32"
    by (rule int_mod_pos_eq [of _ _ 1]) (use i in simp_all)
  then show ?thesis unfolding c_int_eq_mod by simp
qed

lemma c_int_period: "c_int (2 ^ 32 + i) = c_int i"
proof -
  have "2 ^ 32 + i + 2 ^ 31 = (i + 2 ^ 31) + 2 ^ 32" by simp
  then show ?thesis unfolding c_int_eq_mod by (simp only: mod_add_self2)
qed

lemma c_ulong_less [bounds]: "c_ulong i < 2 ^ 64"
  by (simp add: c_ulong_def nat_less_iff)

lemma c_uint_less [bounds]: "c_uint i < 2 ^ 32"
  by (simp add: c_uint_def nat_less_iff)

lemma c_ulong_id [simp]: "0 \<le> i \<Longrightarrow> i < 2 ^ 64 \<Longrightarrow> c_ulong i = nat i"
  by (simp add: c_ulong_def)

lemma c_uint_id [simp]: "0 \<le> i \<Longrightarrow> i < 2 ^ 32 \<Longrightarrow> c_uint i = nat i"
  by (simp add: c_uint_def)

text \<open>Clearing the low four bits, as \<open>x & ~0xF\<close> does on a signed value.\<close>

definition align16 :: "int \<Rightarrow> int" where
  "align16 i = i AND NOT 15"

lemma align16_eq: "align16 i = i - i mod 16"
proof -
  have "i - take_bit 4 i = i AND NOT (take_bit 4 i)"
    by (rule disjunctive_diff) (simp add: bit_take_bit_iff)
  also have "\<dots> = i AND NOT (mask 4)"
    by (rule bit_eqI) (auto simp: bit_simps)
  finally show ?thesis
    by (simp add: align16_def mask_eq_exp_minus_1 take_bit_eq_mod)
qed

lemma align16_mod [simp]: "align16 i mod 16 = 0"
  by (simp add: align16_eq)

lemma align16_le [bounds]: "align16 i \<le> i"
  by (simp add: align16_eq)

lemma align16_gt [bounds]: "i - 16 < align16 i"
  by (simp add: align16_eq)

lemma align16_id [simp]: "i mod 16 = 0 \<Longrightarrow> align16 i = i"
  by (simp add: align16_eq)

lemma align16_nonneg: "0 \<le> i \<Longrightarrow> 0 \<le> align16 i"
  by (simp add: align16_eq zmod_le_nonneg_dividend)

lemma u64_less [bounds]: "unat (w :: u64) < 2 ^ 64"
  using unsigned_less [of w] by simp

section \<open>Byte buffers\<close>

text \<open>
  \<open>patch buf off bs\<close> stores \<open>bs\<close> into \<open>buf\<close> from index \<open>off\<close> on.  The length is kept
  when the bytes fit; the components prove that they do, or show where the code does not
  make sure of it.
\<close>

definition patch :: "'a list \<Rightarrow> nat \<Rightarrow> 'a list \<Rightarrow> 'a list" where
  "patch buf off bs = take off buf @ bs @ drop (off + length bs) buf"

lemma patch_Nil [simp]: "patch buf off [] = buf"
  by (simp add: patch_def)

lemma length_patch [simp]: "off + length bs \<le> length buf \<Longrightarrow> length (patch buf off bs) = length buf"
  by (simp add: patch_def)

lemma take_patch [simp]:
  "off + length bs \<le> length buf \<Longrightarrow> take (off + length bs) (patch buf off bs) = take off buf @ bs"
  by (simp add: patch_def)

lemma drop_patch [simp]:
  "off + length bs \<le> n \<Longrightarrow> n \<le> length buf \<Longrightarrow> drop n (patch buf off bs) = drop n buf"
  by (simp add: patch_def)

lemma nth_patch:
  "off + length bs \<le> length buf \<Longrightarrow> i < length buf \<Longrightarrow>
   patch buf off bs ! i = (if i < off then buf ! i
     else if i < off + length bs then bs ! (i - off) else buf ! i)"
  by (auto simp: patch_def nth_append min_def)

lemma patch_patch_adjacent:
  "off + length xs + length ys \<le> length buf \<Longrightarrow>
   patch (patch buf off xs) (off + length xs) ys = patch buf off (xs @ ys)"
  by (rule nth_equalityI) (auto simp: nth_patch nth_append)

lemma map_upt_append:
  "a \<le> b \<Longrightarrow> b \<le> c \<Longrightarrow> map f [a..<b] @ map f [b..<c] = map f [a..<c]"
  by (metis le_Suc_ex map_append upt_add_eq_append)

text \<open>The bytes of a buffer read as one little-endian number.\<close>

fun le_nat :: "bytes \<Rightarrow> nat" where
  "le_nat [] = 0"
| "le_nat (b # bs) = unat b + 256 * le_nat bs"

lemma le_nat_append: "le_nat (xs @ ys) = le_nat xs + 256 ^ length xs * le_nat ys"
  by (induction xs) (simp_all add: algebra_simps)

lemma byte_less [bounds]: "unat (b :: byte) < 256"
  using unsigned_less [of b] by simp

lemma le_nat_less [bounds]: "le_nat bs < 256 ^ length bs"
proof (induction bs)
  case (Cons b bs)
  have "unat b + 256 * le_nat bs < 256 * (le_nat bs + 1)"
    using byte_less [of b] by simp
  also have "\<dots> \<le> 256 * 256 ^ length bs"
    using Cons.IH by (intro mult_le_mono) simp_all
  finally show ?case by simp
qed simp

text \<open>A number as \<open>w\<close> little-endian bytes.\<close>

definition le_bytes :: "nat \<Rightarrow> nat \<Rightarrow> bytes" where
  "le_bytes w n = map (\<lambda>i. of_nat (n div 256 ^ i)) [0..<w]"

lemma length_le_bytes [simp]: "length (le_bytes w n) = w"
  by (simp add: le_bytes_def)

lemma le_nat_le_bytes: "le_nat (le_bytes w n) = n mod 256 ^ w"
proof (induction w)
  case (Suc w)
  have "le_bytes (Suc w) n = le_bytes w n @ [of_nat (n div 256 ^ w)]" by (simp add: le_bytes_def)
  then show ?case
    by (simp add: Suc.IH le_nat_append unat_of_nat mod_mult2_eq power_Suc2 del: power_Suc)
qed (simp add: le_bytes_def)

section \<open>Programs and the outside world\<close>

text \<open>
  The history of a run is the list of calls made with the result of each.  The outside
  world answers a call as an arbitrary function of the history, so quantifying over it
  covers every behaviour of the kernel, the peer or the user, error returns included.
\<close>

type_synonym ('c, 'r) trace = "('c \<times> 'r) list"
type_synonym ('c, 'r) os = "('c, 'r) trace \<Rightarrow> 'c \<Rightarrow> 'r"
type_synonym ('c, 'r, 'a) prog = "(('c, 'r) trace, 'a) state"

definition call :: "('c, 'r) os \<Rightarrow> 'c \<Rightarrow> ('c, 'r, 'r) prog" where
  "call os c = State (\<lambda>h. (os h c, h @ [(c, os h c)]))"

lemma run_call [simp, prog_simps]: "run_state (call os c) h = (os h c, h @ [(c, os h c)])"
  by (simp add: call_def)

text \<open>
  A program only ever appends to the history: \<open>appends m\<close> holds for single calls and is kept
  by sequencing and case distinction, so it holds for every program built from them.
\<close>

definition appends :: "('c, 'r, 'a) prog \<Rightarrow> bool" where
  "appends m \<longleftrightarrow> (\<forall>h. \<exists>t. snd (run_state m h) = h @ t)"

lemma appends_call [intro, simp]: "appends (call os c)"
  by (simp add: appends_def)

lemma appends_return [intro, simp]: "appends (State_Monad.return a)"
  by (simp add: appends_def)

lemma appends_bind [intro]:
  assumes "appends m" "\<And>a. appends (f a)"
  shows "appends (m \<bind> f)"
  unfolding appends_def
proof
  fix h
  obtain a h1 where m: "run_state m h = (a, h1)" by fastforce
  from assms(1) m obtain t1 where t1: "h1 = h @ t1" by (metis appends_def snd_conv)
  from assms(2) obtain t2 where "snd (run_state (f a) h1) = h1 @ t2" by (metis appends_def)
  with m t1 have "snd (run_state (m \<bind> f) h) = h @ t1 @ t2" by simp
  then show "\<exists>t. snd (run_state (m \<bind> f) h) = h @ t" ..
qed

lemma appends_if [intro]: "appends m \<Longrightarrow> appends n \<Longrightarrow> appends (if b then m else n)"
  by simp

end
