(* ===== verification/CLib.thy ===== *)
theory CLib
  imports Prelude
begin

text \<open>
  The C library's text conversions, as far as the programs use them: the integer
  conversions of the \<open>printf\<close> family (\<open>%d\<close>, \<open>%u\<close>, \<open>%x\<close>, \<open>%X\<close>, with zero and space
  padding) and of \<open>strtol\<close>, \<open>strtoull\<close> and \<open>atoi\<close>, and the C string stored in a byte
  buffer.  The main lemmas: the widths that the conversions print, and that parsing what
  was printed gives the number back.
\<close>

section \<open>Printing\<close>

fun to_base :: "nat \<Rightarrow> nat \<Rightarrow> nat list" where
  "to_base b n = (if b < 2 \<or> n < b then [n] else to_base b (n div b) @ [n mod b])"

declare to_base.simps [simp del]

definition digit_char :: "bool \<Rightarrow> nat \<Rightarrow> char" where
  "digit_char upper d =
     (if d < 10 then char_of (48 + d) else if upper then char_of (55 + d) else char_of (87 + d))"

definition fmt_u :: "nat \<Rightarrow> string" where
  "fmt_u n = map (digit_char False) (to_base 10 n)"

definition fmt_d :: "int \<Rightarrow> string" where
  "fmt_d i = (if i < 0 then CHR ''-'' # fmt_u (nat (- i)) else fmt_u (nat i))"

definition fmt_x :: "nat \<Rightarrow> string" where
  "fmt_x n = map (digit_char False) (to_base 16 n)"

definition fmt_X :: "nat \<Rightarrow> string" where
  "fmt_X n = map (digit_char True) (to_base 16 n)"

definition zpad :: "nat \<Rightarrow> string \<Rightarrow> string" where
  "zpad w s = replicate (w - length s) (CHR ''0'') @ s"

definition spad :: "nat \<Rightarrow> string \<Rightarrow> string" where
  "spad w s = replicate (w - length s) (CHR '' '') @ s"

definition nl :: string where
  "nl = [CHR 0x0A]"

lemma to_base_small: "n < b \<Longrightarrow> to_base b n = [n]"
  by (simp add: to_base.simps)

lemma to_base_step: "2 \<le> b \<Longrightarrow> b \<le> n \<Longrightarrow> to_base b n = to_base b (n div b) @ [n mod b]"
  by (subst to_base.simps) simp

lemma to_base_nonempty [simp]: "to_base b n \<noteq> []"
  by (subst to_base.simps) simp

lemma to_base_digits: "2 \<le> b \<Longrightarrow> d \<in> set (to_base b n) \<Longrightarrow> d < b"
proof (induction b n rule: to_base.induct)
  case (1 b n)
  then show ?case
    by (cases "n < b") (auto simp: to_base_small to_base_step)
qed

text \<open>Horner's rule reads the digits back.\<close>

definition horner :: "nat \<Rightarrow> nat list \<Rightarrow> nat" where
  "horner b ds = foldl (\<lambda>a d. a * b + d) 0 ds"

lemma horner_append [simp]: "horner b (ds @ [d]) = horner b ds * b + d"
  by (simp add: horner_def)

lemma horner_Nil [simp]: "horner b [] = 0"
  by (simp add: horner_def)

lemma horner_to_base: "2 \<le> b \<Longrightarrow> horner b (to_base b n) = n"
proof (induction b n rule: to_base.induct)
  case (1 b n)
  then show ?case
    by (cases "n < b") (simp_all add: to_base_small to_base_step, simp add: horner_def)
qed

lemma horner_zeros [simp]: "horner b (replicate k 0 @ ds) = horner b ds"
  by (induction k) (simp_all add: horner_def)

lemma to_base_length:
  "2 \<le> b \<Longrightarrow> n < b ^ k \<Longrightarrow> 0 < k \<Longrightarrow> length (to_base b n) \<le> k"
proof (induction k arbitrary: n)
  case (Suc k)
  show ?case
  proof (cases "n < b")
    case False
    with Suc.prems have "n div b < b ^ k"
      by (simp add: less_mult_imp_div_less mult.commute)
    moreover from False Suc.prems have "0 < k"
      by (cases k) auto
    ultimately have "length (to_base b (n div b)) \<le> k"
      using Suc.IH Suc.prems by blast
    with False Suc.prems show ?thesis by (simp add: to_base_step)
  qed (simp add: to_base_small)
qed simp

lemma length_zpad: "length (zpad w s) = max w (length s)"
  by (simp add: zpad_def)

lemma length_spad: "length (spad w s) = max w (length s)"
  by (simp add: spad_def)

lemma length_fmt_X: "n < 16 ^ k \<Longrightarrow> 0 < k \<Longrightarrow> length (fmt_X n) \<le> k"
  by (simp add: fmt_X_def to_base_length)

lemma length_fmt_x: "n < 16 ^ k \<Longrightarrow> 0 < k \<Longrightarrow> length (fmt_x n) \<le> k"
  by (simp add: fmt_x_def to_base_length)

lemma length_fmt_u: "n < 10 ^ k \<Longrightarrow> 0 < k \<Longrightarrow> length (fmt_u n) \<le> k"
  by (simp add: fmt_u_def to_base_length)

lemma zpad_X_width: "n < 16 ^ w \<Longrightarrow> 0 < w \<Longrightarrow> length (zpad w (fmt_X n)) = w"
  using length_fmt_X [of n w] by (simp add: length_zpad)


text \<open>
  Digits at a fixed width: what zero padding prints when the number fits.
\<close>

fun fixed_digits :: "nat \<Rightarrow> nat \<Rightarrow> nat \<Rightarrow> nat list" where
  "fixed_digits b 0 n = []"
| "fixed_digits b (Suc w) n = fixed_digits b w (n div b) @ [n mod b]"

lemma length_fixed_digits [simp]: "length (fixed_digits b w n) = w"
  by (induction w arbitrary: n) simp_all

lemma fixed_digits_zero [simp]: "fixed_digits b w 0 = replicate w 0"
  by (induction w) (simp_all add: replicate_append_same)

lemma fixed_digits_pad:
  "2 \<le> b \<Longrightarrow> n < b ^ w \<Longrightarrow> 0 < w \<Longrightarrow>
   replicate (w - length (to_base b n)) 0 @ to_base b n = fixed_digits b w n"
proof (induction w arbitrary: n)
  case (Suc w)
  show ?case
  proof (cases "n < b")
    case True
    then show ?thesis by (simp add: to_base_small)
  next
    case False
    with Suc.prems have lt: "n div b < b ^ w"
      by (simp add: less_mult_imp_div_less mult.commute)
    from False Suc.prems have "0 < w" by (cases w) auto
    with Suc.IH [of "n div b"] Suc.prems lt False show ?thesis
      by (simp add: to_base_step flip: append_assoc)
  qed
qed simp

lemma digit_char_zero [simp]: "digit_char up 0 = CHR ''0''"
  by (simp add: digit_char_def char_of_def bit_0)

lemma zpad_fmt_X:
  "n < 16 ^ w \<Longrightarrow> 0 < w \<Longrightarrow> zpad w (fmt_X n) = map (digit_char True) (fixed_digits 16 w n)"
  by (simp add: zpad_def fmt_X_def flip: fixed_digits_pad)

lemma fixed_digits_add:
  "fixed_digits b (v + w) n = fixed_digits b v (n div b ^ w) @ fixed_digits b w n"
  by (induction w arbitrary: n) (simp_all add: div_mult2_eq)

lemma fixed_digits_2: "fixed_digits 16 2 (a + 256 * k) = fixed_digits 16 2 a"
proof -
  have eq: "a + 256 * k = a + (16 * k) * 16" by simp
  have d: "(a + 256 * k) div 16 = a div 16 + 16 * k" unfolding eq by simp
  have m: "(a + 256 * k) mod 16 = a mod 16" unfolding eq by (rule mod_mult_self1)
  have m2: "(a div 16 + 16 * k) mod 16 = a div 16 mod 16" by simp
  show ?thesis
    by (simp only: numeral_2_eq_2 fixed_digits.simps append.simps d m m2)
qed

text \<open>Little-endian bytes print, as one number, in the reverse order of the bytes.\<close>

lemma fixed_digits_le_nat:
  "fixed_digits 16 (2 * length bs) (le_nat bs) = concat (map (\<lambda>b. fixed_digits 16 2 (unat b)) (rev bs))"
proof (induction bs)
  case (Cons b bs)
  have two: "fixed_digits 16 (2 * length bs + 2) (unat b + 256 * le_nat bs) =
      fixed_digits 16 (2 * length bs) ((unat b + 256 * le_nat bs) div 16 ^ 2) @
      fixed_digits 16 2 (unat b + 256 * le_nat bs)"
    by (rule fixed_digits_add)
  have hi: "(unat b + 256 * le_nat bs) div 16 ^ 2 = le_nat bs"
    using byte_less [of b] by simp
  from two hi Cons.IH show ?case by (simp add: add.commute fixed_digits_2)
qed simp

section \<open>Parsing\<close>

definition is_space :: "char \<Rightarrow> bool" where
  "is_space c \<longleftrightarrow> (let n = (of_char c :: nat) in n = 32 \<or> 9 \<le> n \<and> n \<le> 13)"

definition digit_val :: "char \<Rightarrow> nat" where
  "digit_val c = (let n = of_char c in
     if 48 \<le> n \<and> n \<le> 57 then n - 48
     else if 65 \<le> n \<and> n \<le> 90 then n - 55
     else if 97 \<le> n \<and> n \<le> 122 then n - 87 else 36)"

definition strip_sign :: "string \<Rightarrow> bool \<times> string" where
  "strip_sign s = (case s of [] \<Rightarrow> (False, [])
     | c # r \<Rightarrow> if c = CHR ''-'' then (True, r) else if c = CHR ''+'' then (False, r) else (False, s))"

definition strip_0x :: "string \<Rightarrow> string" where
  "strip_0x s = (case s of z # x # d # r \<Rightarrow>
       (if z = CHR ''0'' \<and> (x = CHR ''x'' \<or> x = CHR ''X'') \<and> digit_val d < 16 then d # r else s)
     | _ \<Rightarrow> s)"

text \<open>
  The common part of the \<open>strto*\<close> functions: \<open>None\<close> when no digit is there, otherwise the
  sign, the magnitude and the text after the number.
\<close>

definition strto :: "nat \<Rightarrow> string \<Rightarrow> (bool \<times> nat \<times> string) option" where
  "strto b s = (let (neg, s1) = strip_sign (dropWhile is_space s);
                    s2 = (if b = 16 then strip_0x s1 else s1);
                    ds = takeWhile (\<lambda>c. digit_val c < b) s2
                in if ds = [] then None
                   else Some (neg, horner b (map digit_val ds), drop (length ds) s2))"

definition strtol :: "nat \<Rightarrow> string \<Rightarrow> int \<times> string" where
  "strtol b s = (case strto b s of None \<Rightarrow> (0, s)
     | Some (neg, m, r) \<Rightarrow>
         (max (- (2 ^ 63)) (min (2 ^ 63 - 1) (if neg then - int m else int m)), r))"

definition strtoull :: "nat \<Rightarrow> string \<Rightarrow> nat" where
  "strtoull b s = (case strto b s of None \<Rightarrow> 0
     | Some (neg, m, r) \<Rightarrow>
         if 2 ^ 64 \<le> m then 2 ^ 64 - 1 else if neg then c_ulong (- int m) else m)"

definition atoi :: "string \<Rightarrow> int" where
  "atoi s = c_int (fst (strtol 10 s))"

text \<open>The C string held by a byte buffer: its bytes up to the first zero.\<close>

definition cstr :: "bytes \<Rightarrow> string" where
  "cstr bs = map (\<lambda>b. char_of (unat b)) (takeWhile (\<lambda>b. b \<noteq> 0) bs)"

definition of_cstr :: "string \<Rightarrow> bytes" where
  "of_cstr s = map (\<lambda>c. of_nat (of_char c)) s"

lemma of_char_digit_char:
  "d < 36 \<Longrightarrow> of_char (digit_char up d) =
     (if d < 10 then 48 + d else if up then 55 + d else 87 + d :: nat)"
  by (simp add: digit_char_def)

lemma digit_val_digit_char [simp]: "d < 36 \<Longrightarrow> digit_val (digit_char up d) = d"
  by (auto simp: digit_val_def of_char_digit_char Let_def)

lemma digit_not_space: "digit_val c < 36 \<Longrightarrow> \<not> is_space c"
  by (auto simp: digit_val_def is_space_def Let_def split: if_splits)

lemma digit_not_sign: "digit_val c < 36 \<Longrightarrow> c \<noteq> CHR ''-'' \<and> c \<noteq> CHR ''+''"
  by (auto simp: digit_val_def)

lemma strip_0x_digits: "\<forall>c\<in>set s. digit_val c < 16 \<Longrightarrow> strip_0x s = s"
proof -
  assume *: "\<forall>c\<in>set s. digit_val c < 16"
  have "digit_val (CHR ''x'') = 33" "digit_val (CHR ''X'') = 33"
    by (simp_all add: digit_val_def)
  with * show ?thesis
    by (auto simp: strip_0x_def split: list.splits)
qed

text \<open>Digits alone parse to their value.\<close>

lemma strto_digits:
  assumes "\<forall>d\<in>set ds. d < b" "ds \<noteq> []" "b \<le> 16"
  shows "strto b (map (digit_char up) ds) = Some (False, horner b ds, [])"
proof -
  let ?s = "map (digit_char up) ds"
  have vals: "\<forall>c\<in>set ?s. digit_val c < b"
    using assms by auto
  then have small: "\<forall>c\<in>set ?s. digit_val c < 36" "\<forall>c\<in>set ?s. digit_val c < 16"
    using assms(3) by fastforce+
  obtain c r where cr: "?s = c # r" using assms(2) by (cases ?s) auto
  with small have "\<not> is_space c" "c \<noteq> CHR ''-''" "c \<noteq> CHR ''+''"
    using digit_not_space digit_not_sign by auto
  then have "strip_sign (dropWhile is_space ?s) = (False, ?s)"
    by (simp add: cr strip_sign_def)
  moreover have "strip_0x ?s = ?s" using small by (intro strip_0x_digits)
  moreover have "takeWhile (\<lambda>c. digit_val c < b) ?s = ?s"
    using vals by (simp add: takeWhile_eq_all_conv)
  moreover have "map digit_val ?s = ds"
    using assms by (auto intro!: map_idI)
  ultimately show ?thesis
    using assms(2) by (cases "b = 16") (simp_all add: strto_def Let_def del: map_map takeWhile_eq_all_conv)
qed

lemma fixed_digits_less: "0 < b \<Longrightarrow> d \<in> set (fixed_digits b w n) \<Longrightarrow> d < b"
  by (induction w arbitrary: n) auto

lemma horner_fixed_digits: "2 \<le> b \<Longrightarrow> n < b ^ w \<Longrightarrow> horner b (fixed_digits b w n) = n"
  by (induction w arbitrary: n) (simp_all add: less_mult_imp_div_less mult.commute)

lemma strtoull_zpad_X:
  assumes "n < 16 ^ w" "0 < w" "n < 2 ^ 64"
  shows "strtoull 16 (zpad w (fmt_X n)) = n"
proof -
  have "strto 16 (zpad w (fmt_X n)) = Some (False, horner 16 (fixed_digits 16 w n), [])"
    unfolding zpad_fmt_X [OF assms(1,2)]
    by (rule strto_digits) (use assms(2) fixed_digits_less in \<open>auto simp flip: length_0_conv\<close>)
  then show ?thesis
    using assms by (simp add: strtoull_def horner_fixed_digits)
qed

lemma strtoull_less [bounds]: "strtoull b s < 2 ^ 64"
  using c_ulong_less by (auto simp: strtoull_def split: option.splits)

lemma strtol_range [bounds]: "- (2 ^ 63) \<le> fst (strtol b s)" "fst (strtol b s) < 2 ^ 63"
  by (auto simp: strtol_def split: option.splits)

lemma atoi_range [bounds]: "- (2 ^ 31) \<le> atoi s" "atoi s < 2 ^ 31"
  using c_int_range [of "fst (strtol 10 s)"] by (simp_all add: atoi_def)

lemma strtol_fmt_u:
  assumes "n < 2 ^ 63"
  shows "strtol 10 (fmt_u n) = (int n, [])"
proof -
  have "strto 10 (fmt_u n) = Some (False, n, [])"
    unfolding fmt_u_def
    by (subst strto_digits) (auto intro: to_base_digits simp: horner_to_base)
  with assms show ?thesis by (simp add: strtol_def)
qed

section \<open>Text without zeros\<close>

lemma nul_digit_val: "digit_val (CHR 0x00) = 36"
  by (simp add: digit_val_def)

lemma digit_char_not_nul:
  assumes "d < 36"
  shows "CHR 0x00 \<noteq> digit_char up d"
proof
  assume "CHR 0x00 = digit_char up d"
  then have "digit_val (digit_char up d) = 36" using nul_digit_val by simp
  with assms show False by simp
qed

lemma map_digit_char_no_nul: "\<forall>d\<in>set ds. d < 36 \<Longrightarrow> CHR 0x00 \<notin> set (map (digit_char up) ds)"
  using digit_char_not_nul by (induction ds) auto

lemma fmt_u_no_nul [simp]: "CHR 0x00 \<notin> set (fmt_u n)"
  unfolding fmt_u_def by (rule map_digit_char_no_nul) (use to_base_digits [of 10 _ n] in fastforce)

lemma fmt_x_no_nul [simp]: "CHR 0x00 \<notin> set (fmt_x n)"
  unfolding fmt_x_def by (rule map_digit_char_no_nul) (use to_base_digits [of 16 _ n] in fastforce)

lemma fmt_d_no_nul [simp]: "CHR 0x00 \<notin> set (fmt_d i)"
  by (simp add: fmt_d_def)

lemma cstr_short:
  "\<forall>b\<in>set bs. b \<noteq> 0 \<Longrightarrow> 0 < k \<Longrightarrow> cstr (bs @ replicate k 0 @ rest) = map (\<lambda>b. char_of (unat b)) bs"
  by (cases k) (simp_all add: cstr_def takeWhile_append2)

lemma char_of_of_cstr: "map (\<lambda>b. char_of (unat b)) (of_cstr s) = s"
  by (simp add: of_cstr_def comp_def unat_of_nat)

lemma of_cstr_nonzero: "CHR 0x00 \<notin> set s \<Longrightarrow> b \<in> set (of_cstr s) \<Longrightarrow> b \<noteq> 0"
proof -
  assume *: "CHR 0x00 \<notin> set s" "b \<in> set (of_cstr s)"
  then obtain c where c: "c \<in> set s" "b = of_nat (of_char c)" by (auto simp: of_cstr_def)
  have u: "unat b = of_char c" using c(2) by (simp add: unat_of_nat)
  show "b \<noteq> 0"
  proof
    assume "b = 0"
    with u have "(of_char c :: nat) = of_char (CHR 0x00)" by simp
    then have "c = CHR 0x00" by (simp only: of_char_eq_iff)
    with c(1) *(1) show False by simp
  qed
qed

lemma cstr_of_cstr_nul: "CHR 0x00 \<notin> set s \<Longrightarrow> cstr (of_cstr s @ 0 # rest) = s"
  using of_cstr_nonzero [of s] by (simp add: cstr_def takeWhile_append2 char_of_of_cstr)

end
