(* ===== verification/FileIface.thy ===== *)
theory FileIface
  imports Prelude
begin

text \<open>
  The interface between a device that is read by position and the programs that read it: a
  state with a position, and a \<open>read\<close> that may deliver fewer bytes than asked for.  The
  laws are what a reader may rely on; \<open>Dram\<close> proves them of the \<open>/dev/phy_mem\<close> driver, and
  the buffer-filling loop of \<open>Fileview\<close> is verified against them.
\<close>

type_synonym 's reader = "'s \<Rightarrow> nat \<Rightarrow> int \<times> bytes \<times> 's"

locale positioned_reader =
  fixes dev_read :: "'s reader"
    and dev_ok :: "'s \<Rightarrow> bool"
    and dev_pos :: "'s \<Rightarrow> nat"
    and dev_size :: "'s \<Rightarrow> nat"
    and dev_byte :: "'s \<Rightarrow> nat \<Rightarrow> byte"
    and max_count :: nat
  assumes read_eof: "dev_ok s \<Longrightarrow> dev_size s \<le> dev_pos s \<Longrightarrow> dev_read s n = (0, [], s)"
    and read_some: "dev_ok s \<Longrightarrow> dev_pos s < dev_size s \<Longrightarrow> 0 < n \<Longrightarrow> n \<le> max_count \<Longrightarrow>
      \<exists>k s'. dev_read s n = (int k, map (dev_byte s) [dev_pos s..<dev_pos s + k], s') \<and>
        0 < k \<and> k \<le> n \<and> dev_ok s' \<and> dev_pos s' = dev_pos s + k \<and> dev_pos s' \<le> dev_size s \<and>
        dev_size s' = dev_size s \<and> dev_byte s' = dev_byte s"

text \<open>
  A reader that asks again for what is still missing (\<open>fill_loop\<close>, the inner loop of
  \<open>fileview.c\<close>): stop at end of file or on an error, store each piece after the one before.
  Every round that goes on makes \<open>to_read\<close> smaller, so the loop stops for every device,
  the ill-behaved ones included.
\<close>

function fill_loop :: "'s reader \<Rightarrow> 's \<Rightarrow> int \<Rightarrow> nat \<Rightarrow> bytes \<Rightarrow> int \<times> bytes \<times> 's" where
  "fill_loop rd s to_read pos buf =
     (if 0 < to_read then
        (case rd s (nat to_read) of (nbytes, bs, s') \<Rightarrow>
           if nbytes \<le> 0 then (to_read, patch buf pos bs, s')
           else fill_loop rd s' (to_read - nbytes) (pos + nat nbytes) (patch buf pos bs))
      else (to_read, buf, s))"
  by pat_completeness auto
termination
  by (relation "measure (\<lambda>(rd, s, to_read, pos, buf). nat to_read)") auto

declare fill_loop.simps [simp del]

context positioned_reader
begin

lemma fill_loop_exact:
  assumes "dev_ok s" "n \<le> max_count" "pos + n \<le> length buf"
    and "m = min n (dev_size s - dev_pos s)"
  shows "\<exists>s'. fill_loop dev_read s (int n) pos buf =
      (int (n - m), patch buf pos (map (dev_byte s) [dev_pos s..<dev_pos s + m]), s') \<and> dev_ok s' \<and>
      dev_size s' = dev_size s \<and> dev_byte s' = dev_byte s"
  using assms
proof (induction n arbitrary: s pos buf m rule: less_induct)
  case (less n)
  consider "n = 0" | "0 < n" "dev_size s \<le> dev_pos s" | "0 < n" "dev_pos s < dev_size s"
    by linarith
  then show ?case
  proof cases
    case 1
    with less.prems show ?thesis by (simp add: fill_loop.simps)
  next
    case 2
    with less.prems read_eof [of s n] show ?thesis by (simp add: fill_loop.simps)
  next
    case 3
    with less.prems read_some [of s n] obtain k s1 where
      r: "dev_read s n = (int k, map (dev_byte s) [dev_pos s..<dev_pos s + k], s1)"
      and k: "0 < k" "k \<le> n" and s1: "dev_ok s1" "dev_pos s1 = dev_pos s + k"
        "dev_pos s1 \<le> dev_size s" "dev_size s1 = dev_size s" "dev_byte s1 = dev_byte s"
      by blast
    define buf1 where "buf1 = patch buf pos (map (dev_byte s) [dev_pos s..<dev_pos s + k])"
    define m1 where "m1 = min (n - k) (dev_size s1 - dev_pos s1)"
    have len: "length buf1 = length buf" using less.prems k by (simp add: buf1_def)
    have step: "fill_loop dev_read s (int n) pos buf =
        fill_loop dev_read s1 (int (n - k)) (pos + k) buf1"
      using 3 k r by (subst fill_loop.simps) (simp add: buf1_def of_nat_diff)
    have nk: "n - k \<le> max_count" using less.prems(2) by linarith
    obtain s' where s': "fill_loop dev_read s1 (int (n - k)) (pos + k) buf1 =
        (int (n - k - m1), patch buf1 (pos + k) (map (dev_byte s1) [dev_pos s1..<dev_pos s1 + m1]), s')"
      "dev_ok s'" "dev_size s' = dev_size s1" "dev_byte s' = dev_byte s1"
      using less.IH [of "n - k" s1 "pos + k" buf1 m1] k s1 less.prems len m1_def nk by auto
    have m: "m = k + m1" using s1 k 3 less.prems(4) by (simp add: m1_def min_def split: if_splits)
    have fits: "pos + k + m1 \<le> length buf"
      using k less.prems(3) by (simp add: m1_def)
    have "patch buf1 (pos + k) (map (dev_byte s1) [dev_pos s1..<dev_pos s1 + m1]) =
        patch buf pos (map (dev_byte s) [dev_pos s..<dev_pos s + m])"
      using patch_patch_adjacent [of pos "map (dev_byte s) [dev_pos s..<dev_pos s + k]"
          "map (dev_byte s) [dev_pos s + k..<dev_pos s + k + m1]" buf] fits s1
      by (simp add: buf1_def m map_upt_append add.assoc)
    with step s' s1 m show ?thesis by simp
  qed
qed

end

end
