(* ===== verification/ModuleIface.thy ===== *)
theory ModuleIface
  imports Prelude
begin

text \<open>
  Loadable modules and the resources they register with the kernel.

  The character-device drivers under \<open>src/\<close> set themselves up through the same kernel
  services; a service call is a value of \<open>kcall\<close>, its result an integer (a status, or a
  pointer: \<open>0\<close> is \<open>NULL\<close>).  What a module holds after a history of calls is computed by
  \<open>held\<close>.  The interface \<open>module_lifecycle\<close> states what loading and unloading owe each other;
  the lemma on repeated load/unload cycles is proved from it once and for all modules.
\<close>

datatype kcall =
    AllocChrdevRegion string nat
  | UnregisterChrdevRegion nat
  | CdevAlloc
  | CdevInit
  | CdevAdd nat
  | CdevDel
  | ClassCreate string
  | ClassDestroy
  | DeviceCreate string
  | DeviceDestroy
  | MiscRegister string
  | MiscDeregister
  | Kzalloc nat
  | Kfree
  | ProcMkdir string
  | ProcCreate string nat
  | ProcRemove string
  | CreateWorkqueue string
  | InitWork
  | QueueWork
  | DestroyWorkqueue
  | RegisterChrdev nat string
  | UnregisterChrdev nat string
  | Printk string

type_synonym ktrace = "(kcall, int) trace"
type_synonym kernel = "(kcall, int) os"
type_synonym 'a kprog = "(kcall, int, 'a) prog"

datatype resource = Region | Cdev | Class | Device | Misc | Memory | ProcEntry string | Workqueue | Chrdev

text \<open>
  The effect of one call, by the documented meaning of the services: a registration that
  succeeds adds its resource, its counterpart takes it away.  Statuses are \<open>0\<close> or negative,
  pointers are not \<open>NULL\<close> on success.
\<close>

fun acquired :: "kcall \<Rightarrow> int \<Rightarrow> resource multiset" where
  "acquired (AllocChrdevRegion name n) r = (if r = 0 then {#Region#} else {#})"
| "acquired (CdevAdd n) r = (if r = 0 then {#Cdev#} else {#})"
| "acquired (ClassCreate name) r = (if r \<noteq> 0 then {#Class#} else {#})"
| "acquired (DeviceCreate name) r = (if r \<noteq> 0 then {#Device#} else {#})"
| "acquired (MiscRegister name) r = (if r = 0 then {#Misc#} else {#})"
| "acquired (Kzalloc n) r = (if r \<noteq> 0 then {#Memory#} else {#})"
| "acquired (ProcMkdir name) r = (if r \<noteq> 0 then {#ProcEntry name#} else {#})"
| "acquired (ProcCreate name mode) r = (if r \<noteq> 0 then {#ProcEntry name#} else {#})"
| "acquired (CreateWorkqueue name) r = (if r \<noteq> 0 then {#Workqueue#} else {#})"
| "acquired (RegisterChrdev maj name) r = (if r = 0 then {#Chrdev#} else {#})"
| "acquired _ r = {#}"

fun released :: "kcall \<Rightarrow> resource multiset" where
  "released (UnregisterChrdevRegion n) = {#Region#}"
| "released CdevDel = {#Cdev#}"
| "released ClassDestroy = {#Class#}"
| "released DeviceDestroy = {#Device#}"
| "released MiscDeregister = {#Misc#}"
| "released Kfree = {#Memory#}"
| "released (ProcRemove name) = {#ProcEntry name#}"
| "released DestroyWorkqueue = {#Workqueue#}"
| "released (UnregisterChrdev maj name) = {#Chrdev#}"
| "released _ = {#}"

definition step_held :: "resource multiset \<Rightarrow> kcall \<times> int \<Rightarrow> resource multiset" where
  "step_held R e = R + acquired (fst e) (snd e) - released (fst e)"

definition held :: "ktrace \<Rightarrow> resource multiset" where
  "held h = foldl step_held {#} h"

lemma held_Nil [simp]: "held [] = {#}"
  by (simp add: held_def)

lemma held_append [simp]: "held (h @ es) = foldl step_held (held h) es"
  by (simp add: held_def)

lemma step_held_pair [simp]: "step_held R (c, r) = R + acquired c r - released c"
  by (simp add: step_held_def)

text \<open>
  A module that loads and unloads.  \<open>uses\<close> is what a loaded module holds.  The laws: a load
  that reports success has acquired exactly that; unloading gives exactly that back.
\<close>

locale module_lifecycle =
  fixes init :: "kernel \<Rightarrow> int kprog"
    and exitm :: "kernel \<Rightarrow> unit kprog"
    and uses :: "resource multiset"
    and kernel_ok :: "kernel \<Rightarrow> bool"
  assumes load: "kernel_ok os \<Longrightarrow> run_state (init os) h = (0, h') \<Longrightarrow> held h' = held h + uses"
    and unload: "held h = R + uses \<Longrightarrow> held (snd (run_state (exitm os) h)) = R"

text \<open>The module loader: a module whose \<open>init\<close> fails is not loaded, and its \<open>exit\<close> never runs.\<close>

definition load_unload :: "(kernel \<Rightarrow> int kprog) \<Rightarrow> (kernel \<Rightarrow> unit kprog) \<Rightarrow> kernel \<Rightarrow> bool kprog" where
  "load_unload init exitm os =
     do {
       r \<leftarrow> init os;
       if r = 0 then do { _ \<leftarrow> exitm os; State_Monad.return True } else State_Monad.return False
     }"

fun cycles :: "nat \<Rightarrow> bool kprog \<Rightarrow> bool kprog" where
  "cycles 0 m = State_Monad.return True"
| "cycles (Suc n) m = do { ok \<leftarrow> m; if ok then cycles n m else State_Monad.return False }"

context module_lifecycle
begin

lemma load_unload_balanced:
  assumes "kernel_ok os" "run_state (load_unload init exitm os) h = (True, h')"
  shows "held h' = held h"
proof -
  obtain r h1 where r: "run_state (init os) h = (r, h1)" by fastforce
  with assms(2) have "r = 0" and h': "h' = snd (run_state (exitm os) h1)"
    by (auto simp: load_unload_def split: if_splits prod.splits)
  with r load [OF assms(1)] have "held h1 = held h + uses" by simp
  from unload [OF this] h' show ?thesis by simp
qed

lemma cycles_balanced:
  assumes "kernel_ok os"
  shows "run_state (cycles n (load_unload init exitm os)) h = (True, h') \<Longrightarrow> held h' = held h"
proof (induction n arbitrary: h)
  case (Suc n)
  obtain ok h1 where r: "run_state (load_unload init exitm os) h = (ok, h1)" by fastforce
  with Suc.prems have "ok" and rest: "run_state (cycles n (load_unload init exitm os)) h1 = (True, h')"
    by (auto split: if_splits)
  with r load_unload_balanced [OF assms] have "held h1 = held h" by simp
  with Suc.IH [OF rest] show ?case by simp
qed simp

end

end
