(* ===== verification/Dram.thy ===== *)
theory Dram
  imports FileIface ModuleIface CLib
begin

text \<open>
  The character driver for physical memory, \<open>src/kernel/linux_memory/mm_addr/dram.c\<close>.

  State: the global \<open>dram_size\<close> and the machine's page frames; \<open>page_mem d pfn i\<close> is the
  byte at distance \<open>i\<close> from the start of the mapping that \<open>kmap(pfn_to_page(pfn))\<close> returns
  (for \<open>i \<ge> 4096\<close>: whatever lies behind the mapped page).  \<open>copy_to_user\<close> is an argument:
  the number of bytes it could not deliver.  An operation returns the system call's result,
  the bytes that reached the user and the new file position.
\<close>

definition PAGE_SIZE :: nat where "PAGE_SIZE = 4096"
definition EFAULT :: int where "EFAULT = 14"
definition EINVAL :: int where "EINVAL = 22"

record dram_dev =
  dram_size :: int
  page_mem :: "int \<Rightarrow> nat \<Rightarrow> byte"

text \<open>\<open>dram_init\<close>: the number of pages decides the size; the result is \<open>register_chrdev\<close>'s.\<close>

definition dram_init :: "nat \<Rightarrow> (int \<Rightarrow> nat \<Rightarrow> byte) \<Rightarrow> int \<Rightarrow> int \<times> dram_dev" where
  "dram_init num_physpages mem register_chrdev =
     (register_chrdev,
      \<lparr>dram_size = c_long (push_bit 12 (c_long (int num_physpages))), page_mem = mem\<rparr>)"

definition dram_my_read ::
  "dram_dev \<Rightarrow> (bytes \<Rightarrow> nat) \<Rightarrow> nat \<Rightarrow> int \<Rightarrow> int \<times> bytes \<times> int" where
  "dram_my_read d copy_to_user count0 pos =
     (if dram_size d \<le> pos then (0, [], pos)
      else
        let page_number = c_int (int (c_ulong pos div PAGE_SIZE));
            page_indent = c_ulong pos mod PAGE_SIZE;
            count = (if PAGE_SIZE < c_ulong (int (page_indent + count0))
                     then PAGE_SIZE - page_indent else count0);
            from = map (\<lambda>i. page_mem d page_number (page_indent + i)) [0..<count];
            more = copy_to_user from
        in if c_int (int more) \<noteq> 0 then (- EFAULT, take (count - more) from, pos)
           else (c_long (int count), take (count - more) from, c_long (pos + int count)))"

definition dram_my_llseek :: "dram_dev \<Rightarrow> int \<Rightarrow> int \<Rightarrow> int \<Rightarrow> int \<times> int" where
  "dram_my_llseek d f_pos offset whence =
     (let newpos = (if whence = 0 then offset
                    else if whence = 1 then c_long (f_pos + offset)
                    else if whence = 2 then c_long (dram_size d + offset)
                    else -1)
      in if newpos < 0 \<or> dram_size d < newpos then (- EINVAL, f_pos)
         else (newpos, newpos))"

section \<open>What the driver promises\<close>

text \<open>
  The physical memory seen as one array of bytes, and the well-formedness of a device: its
  size is a whole number of pages, and small enough for the driver's \<open>int\<close> page numbers.
\<close>

definition phys_byte :: "dram_dev \<Rightarrow> nat \<Rightarrow> byte" where
  "phys_byte d p = page_mem d (int (p div PAGE_SIZE)) (p mod PAGE_SIZE)"

definition dram_ok :: "dram_dev \<Rightarrow> bool" where
  "dram_ok d \<longleftrightarrow> 0 \<le> dram_size d \<and> dram_size d \<le> 2 ^ 43 \<and> 4096 dvd dram_size d"

lemma dram_init_ok:
  assumes "n \<le> 2 ^ 31"
  shows "dram_ok (snd (dram_init n mem r))" "dram_size (snd (dram_init n mem r)) = 4096 * int n"
  using assms by (simp_all add: dram_init_def dram_ok_def push_bit_eq_mult)

lemma page_arith:
  "k \<le> 4096 - m \<Longrightarrow> m < 4096 \<Longrightarrow> q * 4096 + m = p \<Longrightarrow> p + k \<le> 4096 * (q + 1)" for p k m q :: nat
  by arith

lemma page_split:
  assumes "i < PAGE_SIZE - p mod PAGE_SIZE"
  shows "(p + i) div PAGE_SIZE = p div PAGE_SIZE" "(p + i) mod PAGE_SIZE = p mod PAGE_SIZE + i"
proof -
  have e: "p + i = (p mod PAGE_SIZE + i) + (p div PAGE_SIZE) * PAGE_SIZE"
    using div_mult_mod_eq [of p PAGE_SIZE] by linarith
  have l: "p mod PAGE_SIZE + i < PAGE_SIZE" using assms by linarith
  have "(p + i) div PAGE_SIZE = ((p mod PAGE_SIZE + i) + (p div PAGE_SIZE) * PAGE_SIZE) div PAGE_SIZE"
    by (rule arg_cong [OF e])
  also have "\<dots> = p div PAGE_SIZE"
    using l by (simp only: div_mult_self1) (simp add: PAGE_SIZE_def)
  finally show "(p + i) div PAGE_SIZE = p div PAGE_SIZE" .
  have "(p + i) mod PAGE_SIZE = ((p mod PAGE_SIZE + i) + (p div PAGE_SIZE) * PAGE_SIZE) mod PAGE_SIZE"
    by (rule arg_cong [OF e])
  also have "\<dots> = p mod PAGE_SIZE + i"
    using l by (simp only: mod_mult_self1 mod_less)
  finally show "(p + i) mod PAGE_SIZE = p mod PAGE_SIZE + i" .
qed

text \<open>
  One read: the piece from the position to the end of its page at most, delivered in full or
  cut short by a fault.
\<close>

lemma dram_my_read_piece:
  assumes ok: "dram_ok d" and pos: "int p < dram_size d" and n: "0 < n" "n \<le> 2 ^ 62"
    and copy: "copy (map (phys_byte d) [p..<p + k]) \<le> k"
    and k: "k = min n (PAGE_SIZE - p mod PAGE_SIZE)"
  shows "dram_my_read d copy n (int p) =
      (let piece = map (phys_byte d) [p..<p + k] in
       if copy piece = 0 then (int k, piece, int (p + k))
       else (- EFAULT, take (k - copy piece) piece, int p))"
    and "0 < k" "k \<le> n" "int (p + k) \<le> dram_size d"
proof -
  have p43: "p < 2 ^ 43" using ok pos by (simp add: dram_ok_def)
  have ind: "p mod PAGE_SIZE < 4096" by (simp add: PAGE_SIZE_def)
  have kk: "0 < k" "k \<le> n" "k \<le> 4096" using k n ind by (auto simp: PAGE_SIZE_def)
  then show "0 < k" "k \<le> n" by simp_all
  have "p div PAGE_SIZE < 2 ^ 31"
    using p43 by (simp add: PAGE_SIZE_def less_mult_imp_div_less)
  then have pn: "c_int (int (p div PAGE_SIZE)) = int (p div PAGE_SIZE)"
    by (intro c_int_id) (simp_all flip: of_nat_less_iff)
  have up: "c_ulong (int p) = p" using p43 by simp
  have ui: "c_ulong (int (p mod PAGE_SIZE + n)) = p mod PAGE_SIZE + n"
    using ind n by (subst c_ulong_id) (simp_all add: nat_add_distrib)
  have cnt: "(if PAGE_SIZE < p mod PAGE_SIZE + n then PAGE_SIZE - p mod PAGE_SIZE else n) = k"
    using k by auto
  have pg: "map (\<lambda>i. page_mem d (int (p div PAGE_SIZE)) (p mod PAGE_SIZE + i)) [0..<k] =
      map (phys_byte d) [p..<p + k]"
    by (rule nth_equalityI) (use k in \<open>simp_all add: phys_byte_def page_split\<close>)
  have more: "c_int (int (copy (map (phys_byte d) [p..<p + k]))) \<noteq> 0 \<longleftrightarrow>
      copy (map (phys_byte d) [p..<p + k]) \<noteq> 0"
    using copy kk(3) by simp
  have cl: "c_long (int k) = int k" "c_long (int p + int k) = int (p + k)"
    using kk p43 by simp_all
  have np: "\<not> dram_size d \<le> int p" using pos by simp
  show "dram_my_read d copy n (int p) =
      (let piece = map (phys_byte d) [p..<p + k] in
       if copy piece = 0 then (int k, piece, int (p + k))
       else (- EFAULT, take (k - copy piece) piece, int p))"
    unfolding dram_my_read_def Let_def
    by (simp only: up ui cnt pn pg more cl np if_False) simp
  have "k \<le> 4096 - p mod 4096" using k by (simp add: PAGE_SIZE_def)
  then have in_page: "p + k \<le> 4096 * (p div 4096 + 1)"
    using ind [unfolded PAGE_SIZE_def] div_mult_mod_eq [of p 4096] by (rule page_arith)
  obtain q where q: "dram_size d = 4096 * q" using ok by (auto simp: dram_ok_def)
  have "int p div 4096 < q" using pos q by simp
  then have "4096 * (int p div 4096 + 1) \<le> dram_size d" using q by simp
  moreover have "int (p + k) \<le> 4096 * (int p div 4096 + 1)"
    using of_nat_mono [where 'a = int, OF in_page] by (simp add: zdiv_int)
  ultimately show "int (p + k) \<le> dram_size d" by linarith
qed

section \<open>The driver behind the file interface\<close>

text \<open>
  An open file on the device.  The kernel passes the file position to the driver and stores
  the one it gets back.
\<close>

record dram_file =
  fdev :: dram_dev
  f_pos :: int

definition dram_vfs_read :: "(bytes \<Rightarrow> nat) \<Rightarrow> dram_file reader" where
  "dram_vfs_read copy f n =
     (case dram_my_read (fdev f) copy n (f_pos f) of (r, bs, p) \<Rightarrow> (r, bs, f\<lparr>f_pos := p\<rparr>))"

definition dram_file_ok :: "dram_file \<Rightarrow> bool" where
  "dram_file_ok f \<longleftrightarrow> dram_ok (fdev f) \<and> 0 \<le> f_pos f"

interpretation dram: positioned_reader "dram_vfs_read (\<lambda>_. 0)" dram_file_ok "\<lambda>f. nat (f_pos f)"
  "\<lambda>f. nat (dram_size (fdev f))" "\<lambda>f. phys_byte (fdev f)" "2 ^ 62"
proof
  fix f :: dram_file and n :: nat
  assume "dram_file_ok f" "nat (dram_size (fdev f)) \<le> nat (f_pos f)"
  then show "dram_vfs_read (\<lambda>_. 0) f n = (0, [], f)"
    by (simp add: dram_vfs_read_def dram_my_read_def dram_file_ok_def dram_ok_def nat_le_eq_zle)
next
  fix f :: dram_file and n :: nat
  assume ok: "dram_file_ok f" and lt: "nat (f_pos f) < nat (dram_size (fdev f))"
    and n: "0 < n" "n \<le> 2 ^ 62"
  define p where "p = nat (f_pos f)"
  define k where "k = min n (PAGE_SIZE - p mod PAGE_SIZE)"
  have f: "f_pos f = int p" using ok by (simp add: p_def dram_file_ok_def)
  have d: "dram_ok (fdev f)" "int p < dram_size (fdev f)"
    using ok lt by (simp_all add: dram_file_ok_def p_def)
  note piece = dram_my_read_piece [OF d n _ k_def, of "\<lambda>_. 0"]
  show "\<exists>k s'. dram_vfs_read (\<lambda>_. 0) f n =
      (int k, map (phys_byte (fdev f)) [nat (f_pos f)..<nat (f_pos f) + k], s') \<and>
      0 < k \<and> k \<le> n \<and> dram_file_ok s' \<and> nat (f_pos s') = nat (f_pos f) + k \<and>
      nat (f_pos s') \<le> nat (dram_size (fdev f)) \<and>
      nat (dram_size (fdev s')) = nat (dram_size (fdev f)) \<and>
      phys_byte (fdev s') = phys_byte (fdev f)"
  proof (intro exI conjI)
    show "dram_vfs_read (\<lambda>_. 0) f n =
        (int k, map (phys_byte (fdev f)) [nat (f_pos f)..<nat (f_pos f) + k], f\<lparr>f_pos := int (p + k)\<rparr>)"
      using piece(1) by (simp add: dram_vfs_read_def f Let_def)
  qed (use piece(2-4) d in \<open>simp_all add: f dram_file_ok_def\<close>)
qed

definition dram_vfs_lseek :: "dram_file \<Rightarrow> int \<Rightarrow> int \<Rightarrow> int \<times> dram_file" where
  "dram_vfs_lseek f offset whence =
     (case dram_my_llseek (fdev f) (f_pos f) offset whence of (r, p) \<Rightarrow>
        (if r < 0 then -1 else r, f\<lparr>f_pos := p\<rparr>))"

text \<open>A client's calls on an open file, and the file after them.\<close>

datatype dram_op = Read nat | Seek int int

fun dram_op_ok :: "dram_op \<Rightarrow> bool" where
  "dram_op_ok (Read n) = (n \<le> 2 ^ 62)"
| "dram_op_ok (Seek off whence) = True"

fun dram_apply :: "(bytes \<Rightarrow> nat) \<Rightarrow> dram_file \<Rightarrow> dram_op \<Rightarrow> dram_file" where
  "dram_apply copy f (Read n) = snd (snd (dram_vfs_read copy f n))"
| "dram_apply copy f (Seek off whence) = snd (dram_vfs_lseek f off whence)"

definition dram_pos_ok :: "dram_file \<Rightarrow> bool" where
  "dram_pos_ok f \<longleftrightarrow> dram_ok (fdev f) \<and> 0 \<le> f_pos f \<and> f_pos f \<le> dram_size (fdev f)"

lemma dram_my_read_zero: "fst (snd (dram_my_read d copy 0 pos)) = []"
  "snd (snd (dram_my_read d copy 0 pos)) \<in> {pos, c_long pos}"
  using c_ulong_less [of "int (c_ulong pos mod PAGE_SIZE)"]
  by (auto simp: dram_my_read_def Let_def c_ulong_id PAGE_SIZE_def)

lemma dram_apply_fdev [simp]: "fdev (dram_apply copy f op) = fdev f"
  by (cases op) (auto simp: dram_vfs_read_def dram_vfs_lseek_def split: prod.splits)

lemma dram_apply_ok [inv_rules]:
  assumes "dram_pos_ok f" "dram_op_ok op" "\<And>bs. copy bs \<le> length bs"
  shows "dram_pos_ok (dram_apply copy f op)"
proof -
  have ok: "dram_ok (fdev f)" "0 \<le> f_pos f" "f_pos f \<le> dram_size (fdev f)"
    "f_pos f \<le> 2 ^ 43"
    using assms(1) by (auto simp: dram_pos_ok_def dram_ok_def)
  show "dram_pos_ok (dram_apply copy f op)"
  proof (cases op)
    case (Seek off whence)
    with ok show ?thesis
      by (auto simp: dram_vfs_lseek_def dram_my_llseek_def Let_def dram_pos_ok_def split: if_splits)
  next
    case (Read n)
    consider "dram_size (fdev f) \<le> f_pos f" | "n = 0" "f_pos f < dram_size (fdev f)"
      | "0 < n" "f_pos f < dram_size (fdev f)" by linarith
    then show ?thesis
    proof cases
      case 1
      with Read ok show ?thesis by (simp add: dram_vfs_read_def dram_my_read_def dram_pos_ok_def)
    next
      case 2
      have "c_long (f_pos f) = f_pos f" using ok by simp
      with 2 Read ok dram_my_read_zero(2) [of "fdev f" copy "f_pos f"] show ?thesis
        by (auto simp: dram_vfs_read_def dram_pos_ok_def split: prod.splits)
    next
      case 3
      define p where "p = nat (f_pos f)"
      have f: "f_pos f = int p" using ok by (simp add: p_def)
      define k where "k = min n (PAGE_SIZE - p mod PAGE_SIZE)"
      have n: "n \<le> 2 ^ 62" using assms(2) Read by simp
      have cp: "copy (map (phys_byte (fdev f)) [p..<p + k]) \<le> k"
        using assms(3) [of "map (phys_byte (fdev f)) [p..<p + k]"] by simp
      note piece = dram_my_read_piece [where copy = copy, OF ok(1) _ 3(1) n cp k_def]
      from piece(1,4) 3 f show ?thesis
        using Read ok by (simp add: dram_vfs_read_def dram_pos_ok_def Let_def split: if_splits)
    qed
  qed
qed

lemma dram_run_ok [inv_rules]:
  assumes "dram_pos_ok f" "\<forall>op\<in>set ops. dram_op_ok op" "\<And>bs. copy bs \<le> length bs"
  shows "dram_pos_ok (foldl (dram_apply copy) f ops)"
  using assms by (induction ops arbitrary: f) (simp_all add: dram_apply_ok)

section \<open>Properties\<close>

text \<open>
  C17: A read at a position inside the device returns the physical bytes from that position on,
  up to the end of the page (and of the device) or the requested count, and moves the position
  behind them; if the copy to the user faults, it returns \<open>-EFAULT\<close> and the position stays.
\<close>

theorem dram_read_correct:
  assumes "dram_ok d" "0 \<le> pos" "pos < dram_size d" "0 < n" "n \<le> 2 ^ 62"
    and "\<And>bs. copy bs \<le> length bs"
    and "k = min n (4096 - nat pos mod 4096)"
    and "piece = map (phys_byte d) [nat pos..<nat pos + k]"
  shows "dram_my_read d copy n pos =
      (if copy piece = 0 then (int k, piece, pos + int k) else (- 14, take (k - copy piece) piece, pos))
    \<and> 0 < k \<and> pos + int k \<le> dram_size d"
proof -
  obtain p where p: "pos = int p" using assms(2) nonneg_int_cases by blast
  have "copy (map (phys_byte d) [p..<p + k]) \<le> k"
    using assms(6) [of "map (phys_byte d) [p..<p + k]"] by simp
  from dram_my_read_piece [where copy = copy, OF assms(1) _ assms(4,5) this] assms(3,7,8) show ?thesis
    by (simp add: p PAGE_SIZE_def EFAULT_def Let_def)
qed

theorem dram_read_correct_witness:
  "dram_my_read \<lparr>dram_size = 8192, page_mem = \<lambda>pn i. of_int pn + of_nat i\<rparr> (\<lambda>_. 0) 4 4094 =
     (2, [254, 255], 4096)"
proof -
  let ?d = "\<lparr>dram_size = 8192, page_mem = \<lambda>pn i. of_int pn + of_nat i\<rparr>"
  have ok: "dram_ok ?d" by (simp add: dram_ok_def)
  have k: "(2::nat) = min 4 (4096 - nat 4094 mod 4096)" by simp
  have piece: "[254, 255] = map (phys_byte ?d) [nat 4094..<nat 4094 + 2]"
    by (simp add: phys_byte_def PAGE_SIZE_def upt_rec_numeral)
  show ?thesis
    using dram_read_correct [OF ok _ _ _ _ _ k piece, of "\<lambda>_. 0"] by simp
qed

text \<open>
  C18: Whatever a client does with an open file (reads of any size, faulting copies, seeks with
  any offset and any \<open>whence\<close>), the file position stays between 0 and the size of the memory.
\<close>

theorem dram_position_in_range:
  assumes "dram_ok d" "\<forall>op\<in>set ops. dram_op_ok op" "\<And>bs. copy bs \<le> length bs"
  shows "0 \<le> f_pos (foldl (dram_apply copy) \<lparr>fdev = d, f_pos = 0\<rparr> ops) \<and>
     f_pos (foldl (dram_apply copy) \<lparr>fdev = d, f_pos = 0\<rparr> ops) \<le> dram_size d"
proof -
  have "dram_pos_ok \<lparr>fdev = d, f_pos = 0\<rparr>"
    using assms(1) by (simp add: dram_pos_ok_def dram_ok_def)
  from dram_run_ok [OF this assms(2,3)]
  have "dram_pos_ok (foldl (dram_apply copy) \<lparr>fdev = d, f_pos = 0\<rparr> ops)" .
  moreover have "fdev (foldl (dram_apply copy) f ops) = fdev f" for f
    by (induction ops arbitrary: f) simp_all
  ultimately show ?thesis by (simp add: dram_pos_ok_def)
qed

theorem dram_position_in_range_witness:
  "0 \<le> f_pos (foldl (dram_apply (\<lambda>_. 0)) \<lparr>fdev = \<lparr>dram_size = 8192, page_mem = \<lambda>_ _. 7\<rparr>, f_pos = 0\<rparr>
      [Seek 10000 0, Seek 0 2, Seek (- 3) 1, Read 100])"
  using dram_position_in_range [of "\<lparr>dram_size = 8192, page_mem = \<lambda>_ _. 7\<rparr>"
      "[Seek 10000 0, Seek 0 2, Seek (- 3) 1, Read 100]" "\<lambda>_. 0"]
  by (simp add: dram_ok_def)

text \<open>
  On a machine with more than 8 TiB the page number does not fit the driver's \<open>int\<close>: a read
  in the next 8 TiB maps the page frame with the number \<open>pos / 4096 - 2^32\<close>, a negative one,
  instead of the frame that holds the position.
\<close>

theorem dram_read_page_number_wraps:
  assumes "2 ^ 43 \<le> pos" "pos < 2 ^ 44" "pos < dram_size d" "n \<le> 4096 - nat pos mod 4096"
  shows "dram_my_read d (\<lambda>_. 0) n pos =
    (int n, map (\<lambda>i. page_mem d (pos div 4096 - 2 ^ 32) (nat pos mod 4096 + i)) [0..<n], pos + int n)"
proof -
  obtain p where p: "pos = int p" using assms(1) nonneg_int_cases [of pos] by auto
  have up: "c_ulong pos = p" using assms(2) by (simp add: p)
  have "pos div 4096 < 2 ^ 32" "2 ^ 31 \<le> pos div 4096" using assms(1,2) by simp_all
  then have "c_int (int (p div PAGE_SIZE)) = pos div 4096 - 2 ^ 32"
    using signed_take_bit_int_eq_self [of 31 "pos div 4096 - 2 ^ 32"]
      signed_take_bit_add [of 31 "pos div 4096 - 2 ^ 32" "2 ^ 32"]
    by (simp add: p PAGE_SIZE_def zdiv_int c_int_def)
  moreover have "c_ulong (int (p mod PAGE_SIZE + n)) = p mod PAGE_SIZE + n"
    using assms(4) by (subst c_ulong_id) (simp_all add: p PAGE_SIZE_def nat_add_distrib)
  moreover have "\<not> PAGE_SIZE < p mod PAGE_SIZE + n" "n \<le> 4096" "\<not> dram_size d \<le> pos"
    using assms(3,4) by (simp_all add: p PAGE_SIZE_def)
  moreover from this have "c_long (int n) = int n" "c_long (pos + int n) = pos + int n" "c_int 0 = 0"
    using assms(1,2) by simp_all
  ultimately show ?thesis
    unfolding dram_my_read_def Let_def up by (simp add: p PAGE_SIZE_def)
qed

theorem dram_read_page_number_wraps_witness:
  "dram_my_read \<lparr>dram_size = 2 ^ 44, page_mem = \<lambda>pn i. if pn = - (2 ^ 31) then 1 else 2\<rparr> (\<lambda>_. 0) 1 (2 ^ 43) =
     (1, [1], 2 ^ 43 + 1)"
  using dram_read_page_number_wraps [of "2 ^ 43"
      "\<lparr>dram_size = 2 ^ 44, page_mem = \<lambda>pn i. if pn = - (2 ^ 31) then 1 else 2\<rparr>" 1]
  by simp

section \<open>Registration\<close>

text \<open>
  The calls that \<open>dram_init\<close> and \<open>dram_exit\<close> make; \<open>dram_init\<close> passes the result of
  \<open>register_chrdev\<close> on, so a load that fails holds nothing.  The size in megabytes is printed unsigned.
\<close>

definition my_major :: nat where "my_major = 85"

definition dram_init_calls :: "nat \<Rightarrow> kernel \<Rightarrow> int kprog" where
  "dram_init_calls num_physpages os =
     (let dsz = c_long (push_bit 12 (c_long (int num_physpages))) in
      do {
        _ \<leftarrow> call os (Printk (''<1>'' @ nl @ ''Installing '' @ [CHR 0x27] @ ''dram'' @ [CHR 0x27] @ '' module ''));
        _ \<leftarrow> call os (Printk (''(major='' @ fmt_d (int my_major) @ '')'' @ nl));
        _ \<leftarrow> call os (Printk (''<1>  ramtop=0x'' @ fmt_X (c_ulong dsz) @ '' ('' @ fmt_u (c_ulong (drop_bit 20 dsz)) @ '' MB)'' @ nl));
        call os (RegisterChrdev my_major ''dram'')
      })"

definition dram_exit :: "kernel \<Rightarrow> unit kprog" where
  "dram_exit os =
     do {
       _ \<leftarrow> call os (UnregisterChrdev my_major ''dram'');
       _ \<leftarrow> call os (Printk (''<1>Removing '' @ [CHR 0x27] @ ''dram'' @ [CHR 0x27] @ '' module'' @ nl));
       State_Monad.return ()
     }"

interpretation dram_module: module_lifecycle "dram_init_calls n" dram_exit "{#Chrdev#}" "\<lambda>os. True" for n
  by unfold_locales (auto simp: dram_init_calls_def dram_exit_def Let_def split: if_splits)

text \<open>The driver can be loaded and unloaded any number of times without keeping its major number.\<close>

theorem dram_cycles_balanced:
  assumes "run_state (cycles n (load_unload (dram_init_calls pages) dram_exit os)) h = (True, h')"
  shows "held h' = held h"
  using dram_module.cycles_balanced [OF TrueI assms] .

theorem dram_cycles_balanced_witness:
  "held (snd (run_state (cycles (Suc 0) (load_unload (dram_init_calls 1) dram_exit (\<lambda>h c. 0))) [])) = {#}"
proof -
  let ?m = "cycles (Suc 0) (load_unload (dram_init_calls 1) dram_exit (\<lambda>h c. 0))"
  have "fst (run_state ?m []) = True" by (simp add: load_unload_def dram_init_calls_def dram_exit_def Let_def)
  then have "run_state ?m [] = (True, snd (run_state ?m []))" by (metis prod.collapse)
  from dram_cycles_balanced [OF this] show ?thesis by simp
qed

end
