(* ===== verification/Fileview.thy ===== *)
theory Fileview
  imports Dram CLib
begin

text \<open>
  The hexadecimal file viewer, \<open>src/kernel/linux_memory/mm_addr/fileview.c\<close>.

  State: the record \<open>view\<close> holds the local variables of \<open>main\<close> that survive an iteration
  of its loop.  The file is a parameter (\<open>rd\<close>, \<open>seek\<close>: the \<open>read\<close> and \<open>lseek\<close> system
  calls on it); the keyboard is the list of the byte groups that successive \<open>read\<close>s of the
  terminal return; the screen is the string written to standard output.  When the keyboard
  list is used up the program waits in \<open>read\<close>, which is the result \<open>None\<close>.
\<close>

definition BUFSIZE :: nat where "BUFSIZE = 256"
definition BUFWIDE :: nat where "BUFWIDE = 16"
definition BUFHIGH :: nat where "BUFHIGH = 16"

definition KB_SEEK :: nat where "KB_SEEK = 0x0000000A"
definition KB_QUIT :: nat where "KB_QUIT = 0x0000001B"
definition KB_BACK :: nat where "KB_BACK = 0x0000007F"
definition KB_HOME :: nat where "KB_HOME = 0x00315B1B"
definition KB_LNUP :: nat where "KB_LNUP = 0x00415B1B"
definition KB_PGUP :: nat where "KB_PGUP = 0x00355B1B"
definition KB_LEFT :: nat where "KB_LEFT = 0x00445B1B"
definition KB_RGHT :: nat where "KB_RGHT = 0x00435B1B"
definition KB_LNDN :: nat where "KB_LNDN = 0x00425B1B"
definition KB_PGDN :: nat where "KB_PGDN = 0x00365B1B"
definition KB_END :: nat where "KB_END = 0x00345B1B"
definition KB_DEL :: nat where "KB_DEL = 0x00335B1B"

lemmas kb_defs = KB_SEEK_def KB_QUIT_def KB_BACK_def KB_HOME_def KB_LNUP_def KB_PGUP_def
  KB_LEFT_def KB_RGHT_def KB_LNDN_def KB_PGDN_def KB_END_def KB_DEL_def

section \<open>The display\<close>

text \<open>One row of sixteen bytes in the selected format.\<close>

definition le_group :: "nat \<Rightarrow> bytes \<Rightarrow> nat \<Rightarrow> nat" where
  "le_group w row j = le_nat (take w (drop (w * j) row))"

definition hex_cols :: "int \<Rightarrow> bytes \<Rightarrow> string" where
  "hex_cols format row =
     (if format = 1 then
        concat (map (\<lambda>j. zpad 2 (fmt_X (le_group 1 row j)) @ '' '') [0..<BUFWIDE])
      else if format = 2 then
        concat (map (\<lambda>j. '' '' @ zpad 4 (fmt_X (le_group 2 row j)) @ '' '') [0..<BUFWIDE div 2])
      else if format = 4 then
        concat (map (\<lambda>j. ''  '' @ zpad 8 (fmt_X (le_group 4 row j)) @ ''  '') [0..<BUFWIDE div 4])
      else if format = 8 then
        concat (map (\<lambda>j. ''    '' @ zpad 16 (fmt_X (le_group 8 row j)) @ ''    '') [0..<BUFWIDE div 8])
      else if format = 16 then
        ''     '' @
        (''   '' @ zpad 16 (fmt_X (le_group 8 row 1)) @ zpad 16 (fmt_X (le_group 8 row 0)) @ ''   '') @
        ''     ''
      else '''')"

definition ascii_char :: "byte \<Rightarrow> char" where
  "ascii_char b = (let ch = sint b in if ch < 0x20 \<or> 0x7E < ch then CHR ''.'' else char_of (unat b))"

definition outline :: "int \<Rightarrow> int \<Rightarrow> bytes \<Rightarrow> string" where
  "outline format location row =
     zpad 13 (fmt_X (c_ulong location)) @ '' '' @ hex_cols format row @ map ascii_char row"

definition cursor :: "int \<Rightarrow> int \<Rightarrow> string" where
  "cursor r c = CHR 0x1B # ''['' @ fmt_d r @ '';'' @ fmt_d c @ ''H''"

definition buf_row :: "bytes \<Rightarrow> nat \<Rightarrow> bytes" where
  "buf_row buffer i = take BUFWIDE (drop (i * BUFWIDE) buffer)"

definition frame :: "int \<Rightarrow> int \<Rightarrow> bytes \<Rightarrow> string" where
  "frame format location buffer =
     concat (map (\<lambda>i. cursor (6 + int i) 2 @
        outline format (c_long (location + 16 * int i)) (buf_row buffer i)) [0..<BUFHIGH]) @
     cursor 23 2"

section \<open>The keyboard\<close>

text \<open>The low 24 bits of the group of bytes that one \<open>read\<close> stored into the zeroed \<open>inch\<close>.\<close>

definition inch_of :: "bytes \<Rightarrow> nat" where
  "inch_of bs = le_nat (take 8 bs) mod 2 ^ 24"

text \<open>
  The address prompt: \<open>inbuf\<close> and \<open>i\<close> of the loop, the keyboard, and as the result the
  buffer, the echo and the rest of the keyboard.
\<close>

fun seek_loop :: "bytes \<Rightarrow> nat \<Rightarrow> bytes list \<Rightarrow> (bytes \<times> string \<times> bytes list) option" where
  "seek_loop inbuf i [] = (if i < 15 then None else Some (inbuf, '''', []))"
| "seek_loop inbuf i (r # rs) =
     (if i < 15 then
        let ch = inch_of r in
        if ch = 10 then Some (inbuf, '''', rs)
        else if ch = KB_QUIT then Some (inbuf[0 := 0], '''', rs)
        else
          let ch1 = (if ch = KB_LEFT then KB_BACK else ch);
              ch2 = (if ch1 = KB_DEL then KB_BACK else ch1);
              rub = (ch2 = KB_BACK \<and> 0 < i);
              i1 = (if rub then i - 1 else i);
              inbuf1 = (if rub then inbuf[i1 := 0] else inbuf);
              echo = (if rub then [CHR 0x08, CHR '' '', CHR 0x08] else '''')
          in if ch2 < 0x20 \<or> 0x7E < ch2
             then map_option (\<lambda>(b, out, rest). (b, echo @ out, rest)) (seek_loop inbuf1 i1 rs)
             else map_option (\<lambda>(b, out, rest). (b, echo @ char_of ch2 # out, rest))
                    (seek_loop (inbuf1[i1 := of_nat ch2]) (i1 + 1) rs)
      else Some (inbuf, '''', r # rs))"

section \<open>The navigation state\<close>

record view =
  position :: int
  pageincr :: int
  format :: int
  finished :: bool

definition incmin :: int where "incmin = 2 ^ 8"
definition incmax :: int where "incmax = 2 ^ 36"

definition view_posmax :: "int \<Rightarrow> int" where
  "view_posmax filesize =
     (let p = align16 (c_long (filesize - 241)) in if p < 0 then 0 else p)"

definition init_view :: view where
  "init_view = \<lparr>position = 0, pageincr = incmin, format = 1, finished = False\<rparr>"

definition clamp_incr :: "int \<Rightarrow> int" where
  "clamp_incr p = (if p = 0 then incmax else if p < incmin then incmin
                   else if incmax < p then incmax else p)"

definition clamp_pos :: "int \<Rightarrow> int \<Rightarrow> int" where
  "clamp_pos posmax p = (let q = (if p < 0 then 0 else p) in if posmax < q then posmax else q)"

text \<open>The \<open>switch\<close> on a key other than \<open>KB_SEEK\<close>.\<close>

definition apply_key :: "int \<Rightarrow> nat \<Rightarrow> view \<Rightarrow> view" where
  "apply_key posmax inch v =
     (if inch = 72 \<or> inch = 104 \<or> inch = KB_HOME then v\<lparr>position := 0\<rparr>
      else if inch = 69 \<or> inch = 101 \<or> inch = KB_END then v\<lparr>position := posmax\<rparr>
      else if inch = KB_LNDN then v\<lparr>position := c_long (position v + int BUFWIDE)\<rparr>
      else if inch = KB_LNUP then v\<lparr>position := c_long (position v - int BUFWIDE)\<rparr>
      else if inch = KB_PGDN then v\<lparr>position := c_long (position v + pageincr v)\<rparr>
      else if inch = KB_PGUP then v\<lparr>position := c_long (position v - pageincr v)\<rparr>
      else if inch = KB_RGHT then v\<lparr>pageincr := drop_bit 4 (pageincr v)\<rparr>
      else if inch = KB_LEFT then v\<lparr>pageincr := c_long (push_bit 4 (pageincr v))\<rparr>
      else if inch = 66 \<or> inch = 98 then v\<lparr>format := 1\<rparr>
      else if inch = 87 \<or> inch = 119 then v\<lparr>format := 2\<rparr>
      else if inch = 68 \<or> inch = 100 then v\<lparr>format := 4\<rparr>
      else if inch = 81 \<or> inch = 113 then v\<lparr>format := 8\<rparr>
      else if inch = 79 \<or> inch = 111 then v\<lparr>format := 16\<rparr>
      else if inch = KB_QUIT then v\<lparr>finished := True\<rparr>
      else v)"

definition known_key :: "nat \<Rightarrow> bool" where
  "known_key inch \<longleftrightarrow> inch \<in> {72, 104, KB_HOME, 69, 101, KB_END, KB_LNDN, KB_LNUP, KB_PGDN, KB_PGUP,
     KB_RGHT, KB_LEFT, 66, 98, 87, 119, 68, 100, 81, 113, 79, 111, KB_QUIT}"

text \<open>What the command at the head of the keyboard does: the new view, the text, the rest.\<close>

definition read_command ::
  "int \<Rightarrow> view \<Rightarrow> bytes list \<Rightarrow> (view \<times> string \<times> bytes list) option" where
  "read_command posmax v reads =
     (case reads of [] \<Rightarrow> None
      | r # rs \<Rightarrow>
          let inch = inch_of r; erase = cursor 23 2 @ spad 60 '' '' in
          if inch = KB_SEEK then
            (case seek_loop (replicate 16 0) 0 rs of None \<Rightarrow> None
             | Some (inbuf, echo, rest) \<Rightarrow>
                 Some (v\<lparr>position := align16 (c_long (int (strtoull 16 (cstr inbuf))))\<rparr>,
                       erase @ cursor 23 2 @ ''Address: '' @ echo @ cursor 23 2 @ spad 70 '' '', rest))
          else Some (apply_key posmax inch v,
                     erase @ (if known_key inch then '''' else cursor 23 2 @ ''Hit <ESC> to quit''), rs))"

text \<open>One round of the main loop, from the restored \<open>pageincr\<close> to the bounded \<open>position\<close>.\<close>

type_synonym 's seeker = "'s \<Rightarrow> int \<Rightarrow> int \<Rightarrow> int \<times> 's"

definition show_page ::
  "'s reader \<Rightarrow> 's seeker \<Rightarrow> view \<Rightarrow> 's \<Rightarrow> string \<times> 's" where
  "show_page rd seek v s =
     (case seek s (position v) 0 of (location, s1) \<Rightarrow>
      case fill_loop rd s1 (int BUFSIZE) 0 (replicate BUFSIZE 255) of (to_read, buffer, s2) \<Rightarrow>
        (frame (format v) location buffer, s2))"

definition loop_view :: "view \<Rightarrow> view" where
  "loop_view v = v\<lparr>pageincr := clamp_incr (pageincr v)\<rparr>"

definition bound_view :: "int \<Rightarrow> view \<Rightarrow> view" where
  "bound_view posmax v = v\<lparr>position := clamp_pos posmax (position v)\<rparr>"

definition next_view ::
  "int \<Rightarrow> view \<Rightarrow> bytes list \<Rightarrow> (view \<times> string \<times> bytes list) option" where
  "next_view posmax v reads =
     map_option (\<lambda>(v', out, rest). (bound_view posmax v', out, rest))
       (read_command posmax (loop_view v) reads)"

lemma seek_loop_rest:
  "seek_loop inbuf i reads = Some (b, out, rest) \<Longrightarrow> length rest \<le> length reads"
proof (induction reads arbitrary: inbuf i b out rest)
  case (Cons r rs)
  from Cons.prems show ?case
    by (auto simp: Let_def split: if_splits dest!: Cons.IH)
qed (auto split: if_splits)

lemma next_view_rest: "next_view posmax v reads = Some (v', out, rest) \<Longrightarrow> length rest < length reads"
  by (auto simp: next_view_def read_command_def Let_def less_Suc_eq_le
      split: list.splits if_splits option.splits dest!: seek_loop_rest)

function main_loop ::
  "'s reader \<Rightarrow> 's seeker \<Rightarrow> int \<Rightarrow> view \<Rightarrow> bytes list \<Rightarrow> 's \<Rightarrow> string \<times> view option \<times> 's" where
  "main_loop rd seek posmax v reads s =
     (if finished v then ('''', Some v, s)
      else
        (case show_page rd seek v s of (page, s1) \<Rightarrow>
           case next_view posmax v reads of
             None \<Rightarrow> (page, None, s1)
           | Some (v', out, rest) \<Rightarrow>
               (case main_loop rd seek posmax v' rest s1 of (outs, res, s2) \<Rightarrow>
                  (page @ out @ outs, res, s2))))"
  by pat_completeness auto
termination
  by (relation "measure (\<lambda>(rd, seek, posmax, v, reads, s). length reads)")
    (auto dest: next_view_rest)

declare main_loop.simps [simp del]

section \<open>The program\<close>

definition fv_centre :: "int \<Rightarrow> string \<Rightarrow> int" where
  "fv_centre w s = c_int (int (c_ulong (w - int (length s)) div 2))"

definition fv_infomsg :: "int \<Rightarrow> string" where
  "fv_infomsg filesize = ''filesize: '' @ fmt_u (c_ulong filesize) @ '' (=0x'' @
     zpad 13 (fmt_X (c_ulong filesize)) @ '')''"

definition fv_legend :: "string \<Rightarrow> int \<Rightarrow> string" where
  "fv_legend filename filesize =
     (let esc = CHR 0x1B; info = fv_infomsg filesize in
      [esc, CHR ''['', CHR ''H'', esc, CHR ''['', CHR ''J''] @
      cursor 1 (fv_centre 77 ''FILEVIEW'') @ '' FILEVIEW '' @
      cursor 3 (fv_centre 77 filename) @ [CHR 0x27] @ filename @ [CHR 0x27] @
      cursor 24 (c_int (int (c_ulong (78 - int (length info))))) @ info)"

text \<open>
  \<open>main\<close>: the exit status (\<open>None\<close> while it waits for a key), what it wrote to standard
  output and the error message.  \<open>opened\<close> is \<open>open\<close> on the (truncated) file name.
\<close>

definition fv_main ::
  "'s reader \<Rightarrow> 's seeker \<Rightarrow> string option \<Rightarrow> (string \<Rightarrow> 's option) \<Rightarrow> bytes list \<Rightarrow>
   int option \<times> string \<times> string" where
  "fv_main rd seek arg opened reads =
     (case arg of None \<Rightarrow> (Some 1, '''', ''argument needed'' @ [CHR 0x0A])
      | Some a \<Rightarrow>
          (let filename = take 80 a in
           case opened filename of None \<Rightarrow> (Some 1, '''', filename)
           | Some s \<Rightarrow>
               (case seek s 0 2 of (filesize, s1) \<Rightarrow>
                  if filesize < 0
                  then (Some 1, '''', ''cannot locate '' @ [CHR 0x27] @ ''end-of-file'' @
                          [CHR 0x27, CHR '' '', CHR 0x0A])
                  else
                    (case main_loop rd seek (view_posmax filesize) init_view reads s1 of
                       (out, res, s2) \<Rightarrow>
                         (map_option (\<lambda>_. 0) res,
                          fv_legend filename filesize @ out @
                            (if res = None then ''''
                             else cursor 23 0 @ [CHR 0x1B] @ ''[0J'' @ [CHR 0x0A]), '''')))))"

section \<open>The navigation invariant\<close>

definition view_ok :: "int \<Rightarrow> view \<Rightarrow> bool" where
  "view_ok posmax v \<longleftrightarrow> 0 \<le> position v \<and> position v \<le> posmax \<and> position v mod 16 = 0 \<and>
     (\<exists>k \<in> {1..10}. pageincr v = 16 ^ k) \<and> format v \<in> {1, 2, 4, 8, 16}"

text \<open>The views that \<open>main\<close>'s loop can reach, whatever the user types.\<close>

inductive fv_reach :: "int \<Rightarrow> view \<Rightarrow> bool" for posmax where
  fv_start: "fv_reach posmax init_view"
| fv_step: "fv_reach posmax v \<Longrightarrow> \<not> finished v \<Longrightarrow> next_view posmax v reads = Some (v', out, rest) \<Longrightarrow>
    fv_reach posmax v'"

lemma c_long_mod16 [simp]: "c_long i mod 16 = i mod 16"
  using take_bit_signed_take_bit [of 4 63 i] by (simp add: c_long_def take_bit_eq_mod)

lemma view_posmax_ok: "0 \<le> view_posmax fs" "view_posmax fs mod 16 = 0"
  by (simp_all add: view_posmax_def Let_def)

lemma clamp_pos_ok:
  assumes "0 \<le> posmax" "posmax mod 16 = 0" "p mod 16 = 0"
  shows "0 \<le> clamp_pos posmax p" "clamp_pos posmax p \<le> posmax" "clamp_pos posmax p mod 16 = 0"
  using assms by (simp_all add: clamp_pos_def Let_def)

lemma incr_cases:
  "(\<exists>k \<in> {1..10::nat}. p = 16 ^ k) \<longleftrightarrow> p \<in> {2 ^ 4, 2 ^ 8, 2 ^ 12, 2 ^ 16, 2 ^ 20, 2 ^ 24, 2 ^ 28, 2 ^ 32,
     2 ^ 36, 2 ^ (40::nat) :: int}"
proof -
  have "{1..10::nat} = {1, 2, 3, 4, 5, 6, 7, 8, 9, 10}" by code_simp
  then show ?thesis by auto
qed

text \<open>After the adjustment at the loop's head the page size is \<open>16 ^ 2\<close> up to \<open>16 ^ 9\<close>.\<close>

lemma clamp_incr_ok:
  assumes "\<exists>k \<in> {1..10::nat}. p = 16 ^ k"
  shows "clamp_incr p \<in> {2 ^ 8, 2 ^ 12, 2 ^ 16, 2 ^ 20, 2 ^ 24, 2 ^ 28, 2 ^ 32, 2 ^ (36::nat)}"
  using assms unfolding incr_cases by (auto simp: clamp_incr_def incmin_def incmax_def)

lemma shifted_incr_ok:
  assumes "p \<in> {2 ^ 8, 2 ^ 12, 2 ^ 16, 2 ^ 20, 2 ^ 24, 2 ^ 28, 2 ^ 32, 2 ^ (36::nat)}"
  shows "\<exists>k \<in> {1..10::nat}. p = 16 ^ k" "\<exists>k \<in> {1..10::nat}. drop_bit 4 p = 16 ^ k"
    "\<exists>k \<in> {1..10::nat}. c_long (push_bit 4 p) = 16 ^ k" "p mod 16 = 0"
  using assms unfolding incr_cases by (auto simp: drop_bit_eq_div push_bit_eq_mult)

lemma loop_view_ok:
  "view_ok posmax v \<Longrightarrow> view_ok posmax (loop_view v) \<and>
     pageincr (loop_view v) \<in> {2 ^ 8, 2 ^ 12, 2 ^ 16, 2 ^ 20, 2 ^ 24, 2 ^ 28, 2 ^ 32, 2 ^ (36::nat)}"
  using clamp_incr_ok [of "pageincr v"] shifted_incr_ok(1) [of "clamp_incr (pageincr v)"]
  by (simp add: view_ok_def loop_view_def)

lemma bound_view_ok:
  assumes "0 \<le> posmax" "posmax mod 16 = 0" "position v mod 16 = 0"
    "\<exists>k \<in> {1..10::nat}. pageincr v = 16 ^ k" "format v \<in> {1, 2, 4, 8, 16}"
  shows "view_ok posmax (bound_view posmax v)"
  using assms clamp_pos_ok [of posmax "position v"] by (simp add: view_ok_def bound_view_def)

lemma apply_key_fields:
  "position (apply_key posmax inch v) \<in> {0, posmax, position v, c_long (position v + 16),
     c_long (position v - 16), c_long (position v + pageincr v), c_long (position v - pageincr v)}"
  "pageincr (apply_key posmax inch v) \<in> {pageincr v, drop_bit 4 (pageincr v),
     c_long (push_bit 4 (pageincr v))}"
  "format (apply_key posmax inch v) \<in> {format v, 1, 2, 4, 8, 16}"
  by (simp_all add: apply_key_def BUFWIDE_def)

lemma apply_key_ok [inv_rules]:
  assumes "0 \<le> posmax" "posmax mod 16 = 0" "view_ok posmax v"
    "pageincr v \<in> {2 ^ 8, 2 ^ 12, 2 ^ 16, 2 ^ 20, 2 ^ 24, 2 ^ 28, 2 ^ 32, 2 ^ (36::nat)}"
  shows "view_ok posmax (bound_view posmax (apply_key posmax inch v))"
proof (rule bound_view_ok [OF assms(1,2)])
  have pos: "position v mod 16 = 0" and fmt: "format v \<in> {1, 2, 4, 8, 16}"
    using assms(3) by (simp_all add: view_ok_def)
  note incr = shifted_incr_ok [OF assms(4)]
  have "(position v + pageincr v) mod 16 = 0" "(position v - pageincr v) mod 16 = 0"
    using pos incr(4) by presburger+
  with apply_key_fields(1) [of posmax inch v] pos assms(2)
  show "position (apply_key posmax inch v) mod 16 = 0" by auto
  show "\<exists>k\<in>{1..10::nat}. pageincr (apply_key posmax inch v) = 16 ^ k"
    using apply_key_fields(2) [of posmax inch v] incr(1-3) by auto
  show "format (apply_key posmax inch v) \<in> {1, 2, 4, 8, 16}"
    using apply_key_fields(3) [of posmax inch v] fmt by auto
qed

lemma next_view_ok [inv_rules]:
  assumes "0 \<le> posmax" "posmax mod 16 = 0" "view_ok posmax v"
    "next_view posmax v reads = Some (v', out, rest)"
  shows "view_ok posmax v'"
proof -
  note ok = loop_view_ok [OF assms(3)]
  from assms(4) consider
      (key) inch where "v' = bound_view posmax (apply_key posmax inch (loop_view v))"
    | (seek) a where "v' = bound_view posmax ((loop_view v)\<lparr>position := align16 a\<rparr>)"
    by (auto simp: next_view_def read_command_def Let_def split: list.splits if_splits option.splits)
  then show ?thesis
  proof cases
    case key
    with apply_key_ok [OF assms(1,2)] ok show ?thesis by simp
  next
    case seek
    have "view_ok posmax (bound_view posmax ((loop_view v)\<lparr>position := align16 a\<rparr>))"
      by (rule bound_view_ok) (use assms(1,2) ok in \<open>simp_all add: view_ok_def\<close>)
    with seek show ?thesis by simp
  qed
qed

lemma init_view_ok: "0 \<le> posmax \<Longrightarrow> view_ok posmax init_view"
  by (auto simp: view_ok_def init_view_def incmin_def intro!: bexI [of _ 2])

lemma fv_reach_ok:
  assumes "fv_reach posmax v" "0 \<le> posmax" "posmax mod 16 = 0"
  shows "view_ok posmax v"
  using assms
proof (induction rule: fv_reach.induct)
  case fv_start
  then show ?case by (simp add: init_view_ok)
next
  case (fv_step v reads v' out rest)
  then show ?case using next_view_ok [of posmax v reads v' out rest] by simp
qed

section \<open>The width and the content of a line\<close>

lemma upt_16: "[0..<16] = [0, 1, 2, 3, 4, 5, 6, 7, 8, 9, 10, 11, 12, 13, 14, 15]"
  by code_simp

lemma length_le_group: "length row = 16 \<Longrightarrow> w * j + w \<le> 16 \<Longrightarrow> length (take w (drop (w * j) row)) = w"
  by simp

lemma zpad_group:
  assumes "length row = 16" "w * j + w \<le> 16" "0 < w"
  shows "zpad (2 * w) (fmt_X (le_group w row j)) =
    concat (map (\<lambda>b. map (digit_char True) (fixed_digits 16 2 (unat b))) (rev (take w (drop (w * j) row))))"
proof -
  let ?g = "take w (drop (w * j) row)"
  have len: "length ?g = w" using assms by simp
  have "le_nat ?g < 16 ^ (2 * w)"
    using le_nat_less [of ?g] len by (simp add: power_mult)
  then have "zpad (2 * w) (fmt_X (le_group w row j)) =
      map (digit_char True) (fixed_digits 16 (2 * length ?g) (le_nat ?g))"
    using assms(3) len by (simp add: zpad_fmt_X le_group_def)
  also have "\<dots> = map (digit_char True) (concat (map (\<lambda>b. fixed_digits 16 2 (unat b)) (rev ?g)))"
    by (simp only: fixed_digits_le_nat)
  finally show ?thesis by (simp add: map_concat comp_def)
qed

lemma length_zpad_group:
  assumes "length row = 16" "w * j + w \<le> 16" "0 < w" "v = 2 * w"
  shows "length (zpad v (fmt_X (le_group w row j))) = v"
  using zpad_group [OF assms(1-3)] assms by (simp add: length_concat comp_def sum_list_triv)

lemma length_hex_cols:
  assumes "length row = 16" "f \<in> {1, 2, 4, 8, 16}"
  shows "length (hex_cols f row) = 48"
proof -
  have g1: "length (zpad 2 (fmt_X (le_group 1 row j))) = 2" if "j < 16" for j
    by (rule length_zpad_group [of row 1 j 2]) (use that assms(1) in linarith)+
  have g2: "length (zpad 4 (fmt_X (le_group 2 row j))) = 4" if "j < 8" for j
    by (rule length_zpad_group [of row 2 j 4]) (use that assms(1) in linarith)+
  have g4: "length (zpad 8 (fmt_X (le_group 4 row j))) = 8" if "j < 4" for j
    by (rule length_zpad_group [of row 4 j 8]) (use that assms(1) in linarith)+
  have g8: "length (zpad 16 (fmt_X (le_group 8 row j))) = 16" if "j < 2" for j
    by (rule length_zpad_group [of row 8 j 16]) (use that assms(1) in linarith)+
  have const: "(\<Sum>j\<leftarrow>[0..<n]. g j) = n * c" if "\<And>j. j < n \<Longrightarrow> g j = c" for n c and g :: "nat \<Rightarrow> nat"
  proof -
    have "sum_list (map g [0..<n]) = sum_list (map (\<lambda>_. c) [0..<n])"
      using that by (intro arg_cong [where f = sum_list] map_cong) auto
    then show ?thesis by (simp only: sum_list_triv length_upt) simp
  qed
  from assms(2) consider "f = 1" | "f = 2" | "f = 4" | "f = 8" | "f = 16" by auto
  then show ?thesis
  proof cases
    case 1
    then show ?thesis by (simp add: hex_cols_def length_concat comp_def BUFWIDE_def g1 const [where c = 3] del: One_nat_def)
  next
    case 2
    then show ?thesis by (simp add: hex_cols_def length_concat comp_def BUFWIDE_def g2 const [where c = 6])
  next
    case 3
    then show ?thesis by (simp add: hex_cols_def length_concat comp_def BUFWIDE_def g4 const [where c = 12])
  next
    case 4
    then show ?thesis by (simp add: hex_cols_def length_concat comp_def BUFWIDE_def g8 const [where c = 24])
  next
    case 5
    then show ?thesis by (simp add: hex_cols_def g8)
  qed
qed

lemma length_outline:
  assumes "length row = 16" "f \<in> {1, 2, 4, 8, 16}" "0 \<le> loc" "nat loc < 16 ^ k" "13 \<le> k" "k \<le> 16"
  shows "length (outline f loc row) \<le> k + 65" "nat loc < 16 ^ 13 \<Longrightarrow> length (outline f loc row) = 78"
proof -
  have "(16::nat) ^ k \<le> 16 ^ 16" using assms(6) by (intro power_increasing) simp_all
  with assms(4) have "nat loc < 16 ^ 16" by (rule less_le_trans)
  then have "nat loc < 2 ^ 64" by simp
  with assms(3) have ul: "c_ulong loc = nat loc"
    by (intro c_ulong_id) (simp_all add: nat_less_iff)
  have "length (zpad 13 (fmt_X (nat loc))) \<le> k"
    using length_fmt_X [OF assms(4)] assms(5) by (simp add: length_zpad)
  then show "length (outline f loc row) \<le> k + 65"
    using assms(1) length_hex_cols [OF assms(1,2)] by (simp add: outline_def ul)
  assume "nat loc < 16 ^ 13"
  then have "length (zpad 13 (fmt_X (nat loc))) = 13" by (simp add: zpad_X_width)
  then show "length (outline f loc row) = 78"
    using assms(1) length_hex_cols [OF assms(1,2)] by (simp add: outline_def ul)
qed

text \<open>The digits of a byte, and the blanks between the groups.\<close>

definition hex2 :: "byte \<Rightarrow> string" where
  "hex2 b = zpad 2 (fmt_X (unat b))"

lemma hex2_digits: "hex2 b = map (digit_char True) (fixed_digits 16 2 (unat b))"
  using byte_less [of b] by (simp add: hex2_def zpad_fmt_X)

lemma digit_char_not_blank: "d < 16 \<Longrightarrow> digit_char up d \<noteq> CHR '' ''"
  using digit_not_space [of "digit_char up d"] by (auto simp: is_space_def)

lemma filter_hex2 [simp]: "filter (\<lambda>c. c \<noteq> CHR '' '') (hex2 b) = hex2 b"
  by (auto simp: hex2_digits filter_id_conv intro!: digit_char_not_blank dest: fixed_digits_less [rotated])

lemma group_hex2:
  assumes "length row = 16" "w * j + w \<le> 16" "0 < w" "v = 2 * w"
  shows "zpad v (fmt_X (le_group w row j)) = concat (map hex2 (rev (take w (drop (w * j) row))))"
  using zpad_group [OF assms(1-3)] assms(4)
  by (simp add: hex2_digits [abs_def])

lemma filter_group:
  assumes "length row = 16" "w * j + w \<le> 16" "0 < w" "v = 2 * w"
  shows "filter (\<lambda>c. c \<noteq> CHR '' '') (zpad v (fmt_X (le_group w row j))) =
    concat (map hex2 (rev (take w (drop (w * j) row))))"
  unfolding group_hex2 [OF assms] by (simp add: filter_concat comp_def)

section \<open>The address prompt\<close>

lemma inch_single [simp]: "inch_of [b] = unat b"
  using byte_less [of b] by (simp add: inch_of_def)

lemma patch_Cons: "i < length buf \<Longrightarrow> i + length bs < length buf \<Longrightarrow>
    patch (buf[i := b]) (Suc i) bs = patch buf i (b # bs)"
  by (rule nth_equalityI) (auto simp: nth_patch nth_list_update nth_Cons' )

text \<open>Printable characters typed one by one go into the buffer one behind the other.\<close>

lemma seek_loop_types:
  assumes "\<forall>b\<in>set cs. 32 \<le> unat b \<and> unat b \<le> 126" "i + length cs \<le> 14" "length inbuf = 16"
  shows "seek_loop inbuf i (map (\<lambda>b. [b]) cs @ [10] # rest) =
    Some (patch inbuf i cs, map (\<lambda>b. char_of (unat b)) cs, rest)"
  using assms
proof (induction cs arbitrary: i inbuf)
  case Nil
  then show ?case by simp
next
  case (Cons b cs)
  then have b: "32 \<le> unat b" "unat b \<le> 126" and i: "i < 14" by auto
  have "seek_loop (inbuf[i := b]) (Suc i) (map (\<lambda>b. [b]) cs @ [10] # rest) =
      Some (patch (inbuf[i := b]) (Suc i) cs, map (\<lambda>b. char_of (unat b)) cs, rest)"
    using Cons by simp
  also have "patch (inbuf[i := b]) (Suc i) cs = patch inbuf i (b # cs)"
    using Cons.prems by (intro patch_Cons) simp_all
  finally show ?case using b i by (simp add: kb_defs)
qed

text \<open>Two presses of ESC end the prompt if it is open, and leave at least one of them.\<close>

lemma inch_ESC: "inch_of [27] = KB_QUIT"
  by (simp add: KB_QUIT_def)

lemma seek_loop_ESC_ESC:
  "\<exists>b out rest. seek_loop inbuf i (reads @ [[27], [27]]) = Some (b, out, rest) \<and>
     ((\<exists>rs. rest = rs @ [[27], [27]] \<and> length rs \<le> length reads) \<or> rest = [[27]])"
proof (induction reads arbitrary: inbuf i)
  case Nil
  show ?case by (cases "i < 15") (simp_all add: kb_defs)
next
  case (Cons r reads)
  show ?case
  proof (cases "i < 15 \<and> inch_of r \<noteq> 10 \<and> inch_of r \<noteq> KB_QUIT")
    case True
    define ch where "ch = inch_of r"
    define ch2 where "ch2 = (if (if ch = KB_LEFT then KB_BACK else ch) = KB_DEL then KB_BACK
        else (if ch = KB_LEFT then KB_BACK else ch))"
    define rub where "rub = (ch2 = KB_BACK \<and> 0 < i)"
    define i1 where "i1 = (if rub then i - 1 else i)"
    define buf1 where "buf1 = (if rub then inbuf[i1 := 0] else inbuf)"
    note defs = ch_def ch2_def rub_def i1_def buf1_def
    have step: "seek_loop inbuf i ((r # reads) @ [[27], [27]]) =
        (if ch2 < 32 \<or> 126 < ch2
         then map_option (\<lambda>(b, out, rest). (b, (if rub then [CHR 0x08, CHR '' '', CHR 0x08] else '''') @ out, rest))
                (seek_loop buf1 i1 (reads @ [[27], [27]]))
         else map_option (\<lambda>(b, out, rest).
                 (b, (if rub then [CHR 0x08, CHR '' '', CHR 0x08] else '''') @ char_of ch2 # out, rest))
                (seek_loop (buf1[i1 := of_nat ch2]) (i1 + 1) (reads @ [[27], [27]])))"
      using True by (simp only: append_Cons seek_loop.simps Let_def defs if_True if_False)
    from Cons.IH [of buf1 i1] Cons.IH [of "buf1[i1 := of_nat ch2]" "i1 + 1"]
    show ?thesis unfolding step by (auto 4 3 intro: le_SucI)
  next
    case False
    then consider "\<not> i < 15" | "i < 15" "inch_of r = 10" | "i < 15" "inch_of r = KB_QUIT" by blast
    then show ?thesis
    proof cases
      case 1
      then show ?thesis by (auto intro: exI [of _ "r # reads"])
    qed (auto simp: KB_QUIT_def)
  qed
qed

lemma next_view_ESC_ESC:
  assumes "\<not> finished v"
  shows "\<exists>v' out rest. next_view posmax v (reads @ [[27], [27]]) = Some (v', out, rest) \<and>
     (finished v' \<or> rest = [[27]] \<or> (\<exists>rs. rest = rs @ [[27], [27]] \<and> length rs < length reads))"
proof (cases reads)
  case Nil
  then show ?thesis
    by (auto simp: next_view_def read_command_def inch_ESC apply_key_def bound_view_def kb_defs)
next
  case (Cons r rs)
  show ?thesis
  proof (cases "inch_of r = KB_SEEK")
    case True
    from seek_loop_ESC_ESC [of "replicate 16 0" 0 rs] obtain b out rest where
      "seek_loop (replicate 16 0) 0 (rs @ [[27], [27]]) = Some (b, out, rest)"
      "(\<exists>rs'. rest = rs' @ [[27], [27]] \<and> length rs' \<le> length rs) \<or> rest = [[27]]" by blast
    then show ?thesis
      by (auto simp: next_view_def read_command_def Cons True le_imp_less_Suc)
  next
    case False
    then show ?thesis by (auto simp: next_view_def read_command_def Cons Let_def)
  qed
qed

lemma next_view_ESC: "\<exists>v' out. next_view posmax v [[27]] = Some (v', out, []) \<and> finished v'"
  by (simp add: next_view_def read_command_def Let_def inch_ESC apply_key_def bound_view_def kb_defs)

lemma main_loop_ESC_ESC:
  "\<exists>out v' s'. main_loop rd seek posmax v (reads @ [[27], [27]]) s = (out, Some v', s') \<and> finished v'"
proof (induction "length reads" arbitrary: reads v s rule: less_induct)
  case less
  show ?case
  proof (cases "finished v")
    case True
    then show ?thesis by (simp add: main_loop.simps)
  next
    case False
    obtain page s1 where page: "show_page rd seek v s = (page, s1)" by fastforce
    from next_view_ESC_ESC [OF False, of posmax reads] obtain v1 out rest where
      nv: "next_view posmax v (reads @ [[27], [27]]) = Some (v1, out, rest)" and
      rest: "finished v1 \<or> rest = [[27]] \<or> (\<exists>rs. rest = rs @ [[27], [27]] \<and> length rs < length reads)"
      by blast
    have "\<exists>out v' s'. main_loop rd seek posmax v1 rest s1 = (out, Some v', s') \<and> finished v'"
    proof (cases "finished v1")
      case True
      then show ?thesis by (simp add: main_loop.simps)
    next
      case nf: False
      from rest nf consider "rest = [[27]]" | rs where "rest = rs @ [[27], [27]]" "length rs < length reads"
        by blast
      then show ?thesis
      proof cases
        case 1
        obtain v2 out2 where v2: "next_view posmax v1 [[27]] = Some (v2, out2, [])" "finished v2"
          using next_view_ESC by blast
        obtain p2 s2 where "show_page rd seek v1 s1 = (p2, s2)" by fastforce
        with 1 nf v2 show ?thesis
          by (subst main_loop.simps) (simp add: main_loop.simps [of rd seek posmax v2])
      next
        case 2
        then show ?thesis using less.hyps by simp
      qed
    qed
    then show ?thesis
      using False page nv by (subst main_loop.simps) auto
  qed
qed

section \<open>The viewer on the physical-memory device\<close>

lemma patch_front: "patch (replicate n x) 0 bs = bs @ replicate (n - length bs) x"
  by (simp add: patch_def)

text \<open>
  A page of the device: the physical bytes from the position on, and \<open>0xFF\<close> behind the end.
  The reading loop is verified against the interface; the driver's interpretation supplies it.
\<close>

lemma show_page_dram:
  assumes "dram_ok (fdev f)" "0 \<le> position v" "position v \<le> dram_size (fdev f)"
    and m: "m = min BUFSIZE (nat (dram_size (fdev f)) - nat (position v))"
  shows "fst (show_page (dram_vfs_read (\<lambda>_. 0)) dram_vfs_lseek v f) =
    frame (format v) (position v)
      (map (phys_byte (fdev f)) [nat (position v)..<nat (position v) + m] @ replicate (BUFSIZE - m) 255)"
proof -
  define g where "g = f\<lparr>f_pos := position v\<rparr>"
  have seek: "dram_vfs_lseek f (position v) 0 = (position v, g)"
    using assms(2,3) by (simp add: dram_vfs_lseek_def dram_my_llseek_def g_def Let_def)
  have g: "dram_file_ok g" "f_pos g = position v" "fdev g = fdev f"
    using assms(1,2) by (simp_all add: dram_file_ok_def g_def)
  have "BUFSIZE \<le> 2 ^ 62" "0 + BUFSIZE \<le> length (replicate BUFSIZE (255 :: byte))"
    by (simp_all add: BUFSIZE_def)
  moreover have "m = min BUFSIZE (nat (dram_size (fdev g)) - nat (f_pos g))"
    using m g by simp
  ultimately obtain s' where "fill_loop (dram_vfs_read (\<lambda>_. 0)) g (int BUFSIZE) 0 (replicate BUFSIZE 255) =
      (int (BUFSIZE - m), patch (replicate BUFSIZE 255) 0
        (map (phys_byte (fdev g)) [nat (f_pos g)..<nat (f_pos g) + m]), s')"
    using dram.fill_loop_exact [OF g(1)] by blast
  then show ?thesis
    using g by (simp add: show_page_def seek patch_front)
qed

section \<open>Properties\<close>

text \<open>
  C1: On the physical-memory device, every page that the viewer draws, whatever keys brought it
  there, shows exactly the 256 physical bytes from its position on, all of them inside the
  memory: the partial reads of the driver (at most one page frame each) and the reading loop
  of the viewer compose to one contiguous read.
\<close>

theorem fv_page_shows_physical_memory:
  assumes "dram_ok (fdev f)" "256 \<le> dram_size (fdev f)"
    and "fv_reach (view_posmax (dram_size (fdev f))) v"
  shows "fst (show_page (dram_vfs_read (\<lambda>_. 0)) dram_vfs_lseek v f) =
      frame (format v) (position v)
        (map (phys_byte (fdev f)) [nat (position v)..<nat (position v) + 256])
    \<and> 0 \<le> position v \<and> position v + 256 \<le> dram_size (fdev f)"
proof -
  let ?n = "dram_size (fdev f)"
  obtain q where q: "?n = 4096 * q" using assms(1) by (auto simp: dram_ok_def)
  have "(?n - 241) mod 16 = (15 + 16 * (256 * q - 16)) mod 16" by (simp add: q)
  also have "\<dots> = 15" by (simp only: mod_mult_self2) simp
  finally have "align16 (?n - 241) = ?n - 256" by (simp add: align16_eq)
  moreover have "c_long (?n - 241) = ?n - 241"
    using assms(1,2) by (simp add: dram_ok_def)
  ultimately have pm: "view_posmax ?n = ?n - 256"
    using assms(2) by (simp add: view_posmax_def)
  have "view_ok (view_posmax ?n) v"
    by (rule fv_reach_ok [OF assms(3) view_posmax_ok])
  then have p: "0 \<le> position v" "position v + 256 \<le> ?n" by (simp_all add: view_ok_def pm)
  then have "256 = min BUFSIZE (nat ?n - nat (position v))"
    by (simp add: BUFSIZE_def)
  from show_page_dram [OF assms(1) p(1) _ this] p show ?thesis by (simp add: BUFSIZE_def)
qed

theorem fv_page_shows_physical_memory_witness:
  "position init_view + 256 \<le> dram_size \<lparr>dram_size = 4096, page_mem = \<lambda>_ _. 0\<rparr>"
  using fv_page_shows_physical_memory
    [of "\<lparr>fdev = \<lparr>dram_size = 4096, page_mem = \<lambda>_ _. 0\<rparr>, f_pos = 0\<rparr>" init_view]
  by (simp add: dram_ok_def fv_start)

text \<open>
  C8: Whatever the user types, at every round of the main loop the position is inside the file's
  bounds and a multiple of 16, the page size is a power of 16 (never 0, so the reset of a zero
  page size is never needed), and the format is one of the five.
\<close>

theorem fv_navigation_invariant:
  assumes "fv_reach (view_posmax fs) v"
  shows "0 \<le> position v \<and> position v \<le> view_posmax fs \<and> 16 dvd position v \<and>
    (\<exists>k\<in>{1..10}. pageincr v = 16 ^ k) \<and> format v \<in> {1, 2, 4, 8, 16}"
  using fv_reach_ok [OF assms view_posmax_ok] by (auto simp: view_ok_def)

theorem fv_navigation_invariant_witness:
  "16 dvd position (bound_view (view_posmax 1000) (apply_key (view_posmax 1000) 69 (loop_view init_view)))"
proof -
  have "next_view (view_posmax 1000) init_view [[69]] =
      Some (bound_view (view_posmax 1000) (apply_key (view_posmax 1000) 69 (loop_view init_view)),
        cursor 23 2 @ spad 60 '' '', [])"
    by (simp add: next_view_def read_command_def KB_SEEK_def known_key_def)
  from fv_navigation_invariant [OF fv_step [OF fv_start _ this]] show ?thesis by (simp add: init_view_def)
qed

text \<open>
  The last position the viewer goes to (the End key) is the one where the final byte of the
  file is on the screen: the page of 256 bytes reaches the end, and unless the file is shorter
  than a page, its last line is not empty.
\<close>

theorem fv_end_shows_last_byte:
  assumes "0 < fs" "fs < 2 ^ 63"
  shows "view_posmax fs < fs \<and> fs \<le> view_posmax fs + 256 \<and>
    (241 \<le> fs \<longrightarrow> view_posmax fs + 240 < fs)"
proof -
  have c: "c_long (fs - 241) = fs - 241" using assms by simp
  show ?thesis
    using align16_le [of "fs - 241"] align16_gt [of "fs - 241"] align16_nonneg [of "fs - 241"] assms
    by (simp add: view_posmax_def Let_def c)
qed

theorem fv_end_shows_last_byte_witness: "view_posmax 1000 < 1000 \<and> 1000 \<le> view_posmax 1000 + 256"
  using fv_end_shows_last_byte [of 1000] by simp

text \<open>
  The line buffer \<open>outline[80]\<close> is big enough for every line that can be drawn of a file of
  at most 2^56 bytes: in each format the text and its terminating zero fit.  Below 2^52 every line
  is exactly 78 characters wide.
\<close>

theorem fv_outline_fits:
  assumes "fv_reach (view_posmax fs) v" "0 < fs" "fs \<le> 2 ^ 56" "i < 16" "length row = 16"
  shows "length (outline (format v) (position v + 16 * int i) row) + 1 \<le> 80 \<and>
    (fs \<le> 2 ^ 52 \<longrightarrow> length (outline (format v) (position v + 16 * int i) row) = 78)"
proof -
  let ?loc = "position v + 16 * int i"
  have ok: "view_ok (view_posmax fs) v" by (rule fv_reach_ok [OF assms(1) view_posmax_ok])
  then have fmt: "format v \<in> {1, 2, 4, 8, 16}" and pos: "0 \<le> position v" "position v \<le> view_posmax fs"
    by (simp_all add: view_ok_def)
  have pm: "view_posmax fs \<le> max 0 (fs - 241)"
    using align16_le [of "fs - 241"] assms(2,3) by (simp add: view_posmax_def Let_def)
  have loc: "0 \<le> ?loc" "?loc \<le> max 240 (fs - 1)" using pos pm assms(4) by auto
  then have "nat ?loc < 16 ^ 14" using assms(2,3) by (simp add: nat_less_iff)
  note len = length_outline [OF assms(5) fmt loc(1) this]
  have "fs \<le> 2 ^ 52 \<longrightarrow> nat ?loc < 16 ^ 13"
    using loc assms(2) by (auto simp: nat_less_iff max_def split: if_splits)
  with len show ?thesis by simp
qed

theorem fv_outline_fits_witness:
  "length (outline (format init_view) (position init_view + 16 * int 15) (replicate 16 0)) + 1 \<le> 80"
  using fv_outline_fits [of 300 init_view 15 "replicate 16 0"] by (simp add: fv_start)

text \<open>
  C14: Typing an address as the viewer prints it (thirteen hexadecimal digits) after ENTER, and
  ENTER again, moves the view to exactly that address, for every address the viewer can be at
  (a multiple of 16 within bounds, below 2^52).
\<close>

theorem fv_address_roundtrip:
  assumes "0 \<le> a" "a \<le> posmax" "16 dvd a" "a < 2 ^ 52"
  shows "\<exists>v' out. next_view posmax v
      ([10] # map (\<lambda>c. [of_nat (of_char c)]) (zpad 13 (fmt_X (nat a))) @ [10] # rest) = Some (v', out, rest)
    \<and> position v' = a \<and> format v' = format v \<and> finished v' = finished v"
proof -
  define ds where "ds = fixed_digits 16 13 (nat a)"
  define typed where "typed = zpad 13 (fmt_X (nat a))"
  define cs where "cs = map (\<lambda>c. of_nat (of_char c) :: byte) typed"
  have na: "nat a < 16 ^ 13" using assms(1,4) by (simp add: nat_less_iff)
  have typed: "typed = map (digit_char True) ds"
    unfolding typed_def ds_def using na by (rule zpad_fmt_X) simp
  have small: "d < 16" if "d \<in> set ds" for d
    using that fixed_digits_less [of 16 d 13] by (simp add: ds_def)
  have code: "(of_char (digit_char True d) :: nat) = (if d < 10 then 48 + d else 55 + d)" if "d \<in> set ds" for d
    using small [OF that] by (simp add: of_char_digit_char)
  have byte: "unat (of_nat (of_char c) :: byte) = of_char c" for c
    by (simp add: unat_of_nat)
  have range: "48 \<le> (of_char c :: nat) \<and> (of_char c :: nat) \<le> 70" if "c \<in> set typed" for c
  proof -
    from that obtain d where "d \<in> set ds" "c = digit_char True d" by (auto simp: typed)
    then show ?thesis using code [of d] small [of d] by auto
  qed
  have "\<forall>b\<in>set cs. 32 \<le> unat b \<and> unat b \<le> 126"
  proof
    fix b assume "b \<in> set cs"
    then obtain c where "c \<in> set typed" "b = of_nat (of_char c)" by (auto simp: cs_def)
    then show "32 \<le> unat b \<and> unat b \<le> 126" using range [of c] byte [of c] by auto
  qed
  then have nonzero: "\<forall>b\<in>set cs. b \<noteq> 0" by fastforce
  note \<open>\<forall>b\<in>set cs. 32 \<le> unat b \<and> unat b \<le> 126\<close>
  moreover have len: "length cs = 13" by (simp add: cs_def typed ds_def)
  ultimately have sl: "seek_loop (replicate 16 0) 0 (map (\<lambda>b. [b]) cs @ [10] # rest) =
      Some (patch (replicate 16 0) 0 cs, map (\<lambda>b. char_of (unat b)) cs, rest)"
    by (intro seek_loop_types) simp_all
  from nonzero have "cstr (patch (replicate 16 0) 0 cs) = map (\<lambda>b. char_of (unat b)) cs"
    using len by (simp add: cstr_def patch_front takeWhile_append2)
  also have "\<dots> = typed" by (simp add: cs_def byte comp_def)
  finally have cstr: "cstr (patch (replicate 16 0) 0 cs) = typed" .
  have "nat a < 2 ^ 64" using assms(4) by (simp add: nat_less_iff)
  then have parse: "strtoull 16 typed = nat a"
    unfolding typed_def using na by (intro strtoull_zpad_X) simp_all
  have "c_long a = a" using assms(1,4) by simp
  then have al: "align16 (c_long (int (strtoull 16 typed))) = a"
    using assms(1,3) by (simp add: parse)
  have reads: "map (\<lambda>c. [of_nat (of_char c)]) typed = map (\<lambda>b. [b :: byte]) cs"
    by (simp add: cs_def)
  show ?thesis
    unfolding typed_def [symmetric] reads using assms(1,2)
    by (simp add: next_view_def read_command_def KB_SEEK_def sl cstr al bound_view_def clamp_pos_def
        loop_view_def)
qed

theorem fv_address_roundtrip_witness:
  "\<exists>v' out. next_view 1000000 init_view
      ([10] # map (\<lambda>c. [of_nat (of_char c)]) (zpad 13 (fmt_X 4096)) @ [10] # [[27]]) = Some (v', out, [[27]])
    \<and> position v' = 4096 \<and> format v' = format init_view \<and> finished v' = finished init_view"
  using fv_address_roundtrip [of 4096 1000000 init_view "[[27]]"] by simp

text \<open>
  C23: The viewer can always be left: whatever was typed before, whatever the file returns, two
  presses of ESC end the program (the first may only close the address prompt) with status 0.
\<close>

theorem fv_escape_quits:
  assumes "opened (take 80 a) = Some s" "seek s 0 2 = (fs, s1)" "0 \<le> fs"
  shows "fst (fv_main rd seek (Some a) opened (reads @ [[27], [27]])) = Some 0"
proof -
  obtain out v s2 where "main_loop rd seek (view_posmax fs) init_view (reads @ [[27], [27]]) s1 = (out, Some v, s2)"
    using main_loop_ESC_ESC [of rd seek "view_posmax fs" init_view reads s1] by blast
  with assms show ?thesis by (simp add: fv_main_def Let_def)
qed

theorem fv_escape_quits_witness:
  "fst (fv_main (\<lambda>s n. (0, [], s)) (\<lambda>s off wh. (if wh = 2 then 5 else off, s)) (Some ''f'')
      (\<lambda>_. Some ()) ([[10], [65]] @ [[27], [27]])) = Some 0"
  by (rule fv_escape_quits [where s = "()" and fs = 5 and ?s1.0 = "()"]) simp_all

text \<open>
  C22: The hexadecimal columns, the blanks between groups left out, are the row's bytes with two
  digits each, reversed within each group of the format (the processor is little-endian), the
  whole row for the octaword format.
\<close>

theorem fv_columns_show_bytes:
  assumes "length row = 16" "f \<in> {1, 2, 4, 8, 16}"
  shows "filter (\<lambda>c. c \<noteq> CHR '' '') (hex_cols (int f) row) =
    concat (map (\<lambda>j. concat (map (\<lambda>b. zpad 2 (fmt_X (unat b))) (rev (take f (drop (f * j) row)))))
      [0..<16 div f])"
proof -
  have blanks: "filter (\<lambda>c. c \<noteq> CHR '' '') (concat (map (\<lambda>j. g j) js)) =
      concat (map (\<lambda>j. h j) js)" if "\<And>j. j \<in> set js \<Longrightarrow> filter (\<lambda>c. c \<noteq> CHR '' '') (g j) = h j"
    for js :: "nat list" and g h
    unfolding filter_concat map_map comp_def using that by (metis (mono_tags, lifting) map_cong)
  have group: "filter (\<lambda>c. c \<noteq> CHR '' '') (zpad v (fmt_X (le_group w row j))) =
      concat (map (\<lambda>b. zpad 2 (fmt_X (unat b))) (rev (take w (drop (w * j) row))))"
    if "w * j + w \<le> 16" "0 < w" "v = 2 * w" for w j v
    using filter_group [OF assms(1) that] by (simp add: hex2_def [abs_def])
  from assms(2) consider "f = 1" | "f = 2" | "f = 4" | "f = 8" | "f = 16" by auto
  then show ?thesis
  proof cases
    case 1
    show ?thesis unfolding 1 hex_cols_def BUFWIDE_def
      by (simp del: filter_concat One_nat_def, rule blanks) (simp add: group [of 1] del: One_nat_def)
  next
    case 2
    show ?thesis unfolding 2 hex_cols_def BUFWIDE_def
      by (simp del: filter_concat, rule blanks) (simp add: group)
  next
    case 3
    show ?thesis unfolding 3 hex_cols_def BUFWIDE_def
      by (simp del: filter_concat, rule blanks) (simp add: group)
  next
    case 4
    show ?thesis unfolding 4 hex_cols_def BUFWIDE_def
      by (simp del: filter_concat, rule blanks) (simp add: group)
  next
    case 5
    let ?h = "\<lambda>b. zpad 2 (fmt_X (unat b))"
    have hi: "filter (\<lambda>c. c \<noteq> CHR '' '') (zpad 16 (fmt_X (le_group 8 row 1))) =
        concat (map ?h (rev (drop 8 row)))"
    proof -
      have "take 8 (drop (8 * 1) row) = drop 8 row" using assms(1) by simp
      moreover have "filter (\<lambda>c. c \<noteq> CHR '' '') (zpad 16 (fmt_X (le_group 8 row 1))) =
          concat (map ?h (rev (take 8 (drop (8 * 1) row))))"
        by (rule group) simp_all
      ultimately show ?thesis by (rule back_subst [where P = "\<lambda>r. _ = concat (map ?h (rev r))", rotated])
    qed
    have lo: "filter (\<lambda>c. c \<noteq> CHR '' '') (zpad 16 (fmt_X (le_group 8 row 0))) =
        concat (map ?h (rev (take 8 row)))"
    proof -
      have "take 8 (drop (8 * 0) row) = take 8 row" by simp
      moreover have "filter (\<lambda>c. c \<noteq> CHR '' '') (zpad 16 (fmt_X (le_group 8 row 0))) =
          concat (map ?h (rev (take 8 (drop (8 * 0) row))))"
        by (rule group) simp_all
      ultimately show ?thesis by (rule back_subst [where P = "\<lambda>r. _ = concat (map ?h (rev r))", rotated])
    qed
    have "filter (\<lambda>c. c \<noteq> CHR '' '') (hex_cols 16 row) =
        concat (map ?h (rev (drop 8 row))) @ concat (map ?h (rev (take 8 row)))"
      unfolding hex_cols_def by (simp add: hi lo del: One_nat_def)
    also have "\<dots> = concat (map ?h (rev row))"
      by (metis append_take_drop_id concat_append map_append rev_append)
    finally show ?thesis using assms(1) by (simp add: 5)
  qed
qed

theorem fv_columns_show_bytes_witness:
  "filter (\<lambda>c. c \<noteq> CHR '' '') (hex_cols 2 [1, 2, 3, 4, 5, 6, 7, 8, 9, 10, 11, 12, 13, 14, 15, 16]) =
    concat (map (\<lambda>j. concat (map (\<lambda>b. zpad 2 (fmt_X (unat b)))
      (rev (take 2 (drop (2 * j) [1, 2, 3, 4, 5, 6, 7, 8, 9, 10, 11, 12, 13, 14, 15, 16 :: byte])))))
      [0..<16 div 2])"
proof -
  have "length [1, 2, 3, 4, 5, 6, 7, 8, 9, 10, 11, 12, 13, 14, 15, 16 :: byte] = 16" by simp
  moreover have "(2::nat) \<in> {1, 2, 4, 8, 16}" by simp
  ultimately show ?thesis
    by (rule fv_columns_show_bytes [where f = 2, unfolded of_nat_numeral])
qed

end
