(* ===== verification/ChrDev.thy ===== *)
theory ChrDev
  imports ModuleIface
begin

text \<open>
  The character-device drivers: \<open>src/device_driver/driver2/ofcd.c\<close>,
  \<open>src/device_driver/driver3/ofcd.c\<close>, \<open>src/driver/simple_register_chrdev/hello_chrdev.c\<close> and
  the set-up of \<open>src/linux/linux-inside/ztest.c\<close>, and three modules that only print.

  First the modules' \<open>init\<close> and \<open>exit\<close> as programs over the kernel services of
  \<open>ModuleIface\<close>, then the message device that two of them implement, with the calls that reach it
  through an open file and its contract, an abstract message file.
\<close>

definition EFAULT_ret :: int where "EFAULT_ret = - 14"

section \<open>Loading and unloading\<close>



text \<open>\<open>create_node\<close> is the \<open>CREATE_NODE\<close> build option of driver3.\<close>

definition ofcd_init :: "bool \<Rightarrow> kernel \<Rightarrow> int kprog" where
  "ofcd_init create_node os =
     do {
       _ \<leftarrow> call os (Printk ''Our first character driver registered'');
       r \<leftarrow> call os (AllocChrdevRegion ''Shyi'' 1);
       if r \<noteq> 0 then do {
         _ \<leftarrow> call os (Printk ''alloc_chrdev_region failed'');
         State_Monad.return (- 1)
       } else do {
         _ \<leftarrow> call os CdevInit;
         r \<leftarrow> call os (CdevAdd 1);
         if r \<noteq> 0 then do {
           _ \<leftarrow> call os (Printk ''ofcd cdev_add failed'');
           State_Monad.return (- 1)
         } else if create_node then do {
           c \<leftarrow> call os (ClassCreate ''Shyi'');
           if c = 0 then do {
             _ \<leftarrow> call os (Printk ''ofcd class_create failed'');
             State_Monad.return (- 1)
           } else do {
             d \<leftarrow> call os (DeviceCreate ''ofcd'');
             if d = 0 then do {
               _ \<leftarrow> call os (Printk ''ofcd device_create failed'');
               State_Monad.return (- 1)
             } else State_Monad.return 0
           }
         } else State_Monad.return 0
       }
     }"

definition ofcd_exit :: "bool \<Rightarrow> kernel \<Rightarrow> unit kprog" where
  "ofcd_exit create_node os =
     do {
       _ \<leftarrow> call os CdevDel;
       _ \<leftarrow> (if create_node then do {
                _ \<leftarrow> call os DeviceDestroy;
                call os ClassDestroy
              } else State_Monad.return 0);
       _ \<leftarrow> call os (UnregisterChrdevRegion 1);
       _ \<leftarrow> call os (Printk ''Our first character driver unregistered'');
       State_Monad.return ()
     }"

definition ztest_init :: "kernel \<Rightarrow> int kprog" where
  "ztest_init os =
     do {
       _ \<leftarrow> call os (Printk ''ztest registered'');
       r \<leftarrow> call os (AllocChrdevRegion ''ztest'' 1);
       if r \<noteq> 0 then do {
         _ \<leftarrow> call os (Printk ''ztest alloc_chrdev_region failed'');
         State_Monad.return (- 1)
       } else do {
         _ \<leftarrow> call os CdevInit;
         r \<leftarrow> call os (CdevAdd 1);
         if r \<noteq> 0 then do {
           _ \<leftarrow> call os (Printk ''ztest cdev_add failed'');
           State_Monad.return (- 1)
         } else do {
           c \<leftarrow> call os (ClassCreate ''ztest'');
           if c = 0 then do {
             _ \<leftarrow> call os (Printk ''ztest class_create failed'');
             State_Monad.return (- 1)
           } else do {
             d \<leftarrow> call os (DeviceCreate ''ztest'');
             if d = 0 then do {
               _ \<leftarrow> call os (Printk ''ztest device_create failed'');
               State_Monad.return (- 1)
             } else State_Monad.return 0
           }
         }
       }
     }"

definition ztest_exit :: "kernel \<Rightarrow> unit kprog" where
  "ztest_exit os =
     do {
       _ \<leftarrow> call os CdevDel;
       _ \<leftarrow> call os DeviceDestroy;
       _ \<leftarrow> call os ClassDestroy;
       _ \<leftarrow> call os (UnregisterChrdevRegion 1);
       _ \<leftarrow> call os (Printk ''ztest unregistered'');
       State_Monad.return ()
     }"

definition hello_init :: "kernel \<Rightarrow> int kprog" where
  "hello_init os =
     do {
       result \<leftarrow> call os (AllocChrdevRegion ''hello'' 1);
       if result < 0 then do {
         _ \<leftarrow> call os (Printk ''Failed to alloc chrdev region'');
         State_Monad.return result
       } else do {
         _ \<leftarrow> call os (Printk ''The major number'');
         p \<leftarrow> call os CdevAlloc;
         if p = 0 then do {
           _ \<leftarrow> call os (Printk ''Failed to cdev_alloc'');
           State_Monad.return EFAULT_ret
         } else do {
           _ \<leftarrow> call os CdevInit;
           result \<leftarrow> call os (CdevAdd 1);
           if result < 0 then do {
             _ \<leftarrow> call os (Printk ''Failed to cdev_add'');
             State_Monad.return result
           } else do {
             c \<leftarrow> call os (ClassCreate ''hello'');
             if c = 0 then do {
               _ \<leftarrow> call os (Printk ''Failed to class_create'');
               State_Monad.return EFAULT_ret
             } else do {
               d \<leftarrow> call os (DeviceCreate ''hello'');
               if d = 0 then do {
                 _ \<leftarrow> call os (Printk ''Failed to create device'');
                 State_Monad.return EFAULT_ret
               } else State_Monad.return 0
             }
           }
         }
       }
     }"

definition hello_exit :: "kernel \<Rightarrow> unit kprog" where
  "hello_exit os =
     do {
       _ \<leftarrow> call os CdevDel;
       _ \<leftarrow> call os (UnregisterChrdevRegion 1);
       State_Monad.return ()
     }"

text \<open>
  The modules that hold nothing: \<open>driver1/ofd.c\<close>, \<open>simple_driver/hello.c\<close> and
  \<open>module_param_driver/hello_param.c\<close>, the last with its parameter \<open>name\<close>.
\<close>

definition ofd_init :: "kernel \<Rightarrow> int kprog" where
  "ofd_init os = do { _ \<leftarrow> call os (Printk ''Our first driver registered''); State_Monad.return 0 }"

definition ofd_exit :: "kernel \<Rightarrow> unit kprog" where
  "ofd_exit os = do { _ \<leftarrow> call os (Printk ''Our first driver unregistered''); State_Monad.return () }"

definition hello_world_init :: "kernel \<Rightarrow> int kprog" where
  "hello_world_init os = do { _ \<leftarrow> call os (Printk ''Hello World enter!''); State_Monad.return 0 }"

definition hello_world_exit :: "kernel \<Rightarrow> unit kprog" where
  "hello_world_exit os = do { _ \<leftarrow> call os (Printk ''Hello World exit!''); State_Monad.return () }"

definition param_name :: string where "param_name = ''world''"

definition hello_param_init :: "string \<Rightarrow> kernel \<Rightarrow> int kprog" where
  "hello_param_init name os =
     do { _ \<leftarrow> call os (Printk (''Hello ('' @ name @ '') enter!'')); State_Monad.return 0 }"

definition hello_param_exit :: "string \<Rightarrow> kernel \<Rightarrow> unit kprog" where
  "hello_param_exit name os =
     do { _ \<leftarrow> call os (Printk (''Hello ('' @ name @ '') exit!'')); State_Monad.return () }"

interpretation ofd: module_lifecycle ofd_init ofd_exit "{#}" "\<lambda>_. True"
  by unfold_locales (auto simp: ofd_init_def ofd_exit_def)

interpretation hello_world: module_lifecycle hello_world_init hello_world_exit "{#}" "\<lambda>_. True"
  by unfold_locales (auto simp: hello_world_init_def hello_world_exit_def)

interpretation hello_param: module_lifecycle "hello_param_init name" "hello_param_exit name" "{#}" "\<lambda>_. True" for name
  by unfold_locales (auto simp: hello_param_init_def hello_param_exit_def)


definition ofcd_uses :: "bool \<Rightarrow> resource multiset" where
  "ofcd_uses create_node = {#Region, Cdev#} + (if create_node then {#Class, Device#} else {#})"

interpretation ofcd: module_lifecycle "ofcd_init cn" "ofcd_exit cn" "ofcd_uses cn" "\<lambda>_. True" for cn
  by unfold_locales
    (auto simp: ofcd_init_def ofcd_exit_def ofcd_uses_def split: if_splits)

interpretation ztest: module_lifecycle ztest_init ztest_exit "{#Region, Cdev, Class, Device#}" "\<lambda>_. True"
  by unfold_locales (auto simp: ztest_init_def ztest_exit_def split: if_splits)

section \<open>The message device\<close>

text \<open>
  \<open>hello_chrdev.c\<close> and driver3's \<open>ofcd.c\<close> keep a counter of opens and a static message of
  256 bytes.  Neither checks a length, so the model keeps the kernel memory from the address of
  the message on: \<open>message i\<close> for \<open>i \<ge> 256\<close> is what the linker placed behind the array.
  \<open>copy_to_user\<close> and \<open>copy_from_user\<close> are arguments: the number of bytes that were not
  copied, and for the latter what reached the destination.
\<close>

definition MESSAGE_LEN :: nat where "MESSAGE_LEN = 256"

record chrdev_state =
  opens :: int
  message :: "nat \<Rightarrow> byte"

type_synonym copy_to = "bytes \<Rightarrow> nat"
type_synonym copy_from = "bytes \<Rightarrow> nat \<times> bytes"

definition store :: "(nat \<Rightarrow> byte) \<Rightarrow> bytes \<Rightarrow> (nat \<Rightarrow> byte)" where
  "store m d = (\<lambda>i. if i < length d then d ! i else m i)"

definition hello_open :: "chrdev_state \<Rightarrow> int \<times> chrdev_state" where
  "hello_open s = (0, s\<lparr>opens := c_int (opens s + 1)\<rparr>)"

definition hello_release :: "chrdev_state \<Rightarrow> int \<times> chrdev_state" where
  "hello_release s = (0, s)"

definition hello_read :: "copy_to \<Rightarrow> chrdev_state \<Rightarrow> nat \<Rightarrow> int \<times> bytes" where
  "hello_read copy_to_user s len =
     (let src = map (message s) [0..<len]; ret = c_int (int (copy_to_user src))
      in (if ret \<noteq> 0 then EFAULT_ret else c_long (int len), take (len - copy_to_user src) src))"

definition hello_write :: "copy_from \<Rightarrow> chrdev_state \<Rightarrow> bytes \<Rightarrow> int \<times> chrdev_state" where
  "hello_write copy_from_user s buffer =
     (let (n, d) = copy_from_user buffer; s' = s\<lparr>message := store (message s) d\<rparr>
      in if n \<noteq> 0 then (EFAULT_ret, s') else (c_long (int (length buffer)), s'))"

definition ofcd_open :: "chrdev_state \<Rightarrow> int \<times> chrdev_state" where
  "ofcd_open s = (0, s\<lparr>opens := c_int (opens s + 1)\<rparr>)"

definition ofcd_close :: "chrdev_state \<Rightarrow> int \<times> chrdev_state" where
  "ofcd_close s = (0, s)"

definition ofcd_read :: "copy_to \<Rightarrow> chrdev_state \<Rightarrow> nat \<Rightarrow> int \<times> bytes" where
  "ofcd_read copy_to_user s len =
     (let src = map (message s) [0..<len]
      in if copy_to_user src \<noteq> 0 then (EFAULT_ret, take (len - copy_to_user src) src)
         else (c_long (int len), src))"

definition ofcd_write :: "copy_from \<Rightarrow> chrdev_state \<Rightarrow> bytes \<Rightarrow> int \<times> chrdev_state" where
  "ofcd_write copy_from_user s buffer =
     (let (n, d) = copy_from_user buffer; s' = s\<lparr>message := store (message s) d\<rparr>
      in if n \<noteq> 0 then (EFAULT_ret, s') else (c_long (int (length buffer)), s'))"

text \<open>
  The contract of a message device: opening and closing leave the message alone; a write stores
  what reached the kernel at the start of the message, a read delivers what reaches the user from
  there, and both answer the length asked for, or \<open>-EFAULT\<close> when something was not copied.
\<close>

definition full_copy :: copy_from where
  "full_copy src = (0, src)"

definition fault_or :: "nat \<Rightarrow> nat \<Rightarrow> int" where
  "fault_or missing len = (if missing = 0 then int len else EFAULT_ret)"

text \<open>The handlers a driver registers, and the calls that reach it through an open file.\<close>

record 's file_ops =
  f_open :: "'s \<Rightarrow> int \<times> 's"
  f_release :: "'s \<Rightarrow> int \<times> 's"
  f_read :: "copy_to \<Rightarrow> 's \<Rightarrow> nat \<Rightarrow> int \<times> bytes"
  f_write :: "copy_from \<Rightarrow> 's \<Rightarrow> bytes \<Rightarrow> int \<times> 's"

definition hello_fops :: "chrdev_state file_ops" where
  "hello_fops = \<lparr>f_open = hello_open, f_release = hello_release, f_read = hello_read, f_write = hello_write\<rparr>"

definition ofcd_fops :: "chrdev_state file_ops" where
  "ofcd_fops = \<lparr>f_open = ofcd_open, f_release = ofcd_close, f_read = ofcd_read, f_write = ofcd_write\<rparr>"

datatype fop = FOpen | FRelease | FRead copy_to nat | FWrite copy_from bytes

fun call_op :: "'s file_ops \<Rightarrow> fop \<Rightarrow> 's \<Rightarrow> (int \<times> bytes) \<times> 's" where
  "call_op f FOpen s = (let (r, s') = f_open f s in ((r, []), s'))"
| "call_op f FRelease s = (let (r, s') = f_release f s in ((r, []), s'))"
| "call_op f (FRead copy_to_user n) s = (f_read f copy_to_user s n, s)"
| "call_op f (FWrite copy_from_user buf) s = (let (r, s') = f_write f copy_from_user s buf in ((r, []), s'))"

fun session :: "'s file_ops \<Rightarrow> fop list \<Rightarrow> 's \<Rightarrow> (int \<times> bytes) list \<times> 's" where
  "session f [] s = ([], s)"
| "session f (c # cs) s =
     (let (a, s1) = call_op f c s; (as, s2) = session f cs s1 in (a # as, s2))"

text \<open>
  What a message device promises, without the driver: a memory that a write overlays and a read
  shows.
\<close>

definition message_file :: "(nat \<Rightarrow> byte) file_ops" where
  "message_file = \<lparr>f_open = \<lambda>m. (0, m), f_release = \<lambda>m. (0, m),
     f_read = \<lambda>copy m n. let src = map m [0..<n] in (fault_or (copy src) n, take (n - copy src) src),
     f_write = \<lambda>copy m buf. (fault_or (fst (copy buf)) (length buf), store m (snd (copy buf)))\<rparr>"

text \<open>Lengths that the results can show, and a copy that leaves out no more than there is.\<close>

definition fop_ok :: "fop \<Rightarrow> bool" where
  "fop_ok c = (case c of FRead copy n \<Rightarrow> n < 2 ^ 31 \<and> (\<forall>src. copy src \<le> length src)
     | FWrite copy buf \<Rightarrow> length buf < 2 ^ 63 | _ \<Rightarrow> True)"

locale message_device =
  fixes dev :: "'s file_ops"
    and mem :: "'s \<Rightarrow> nat \<Rightarrow> byte"
  assumes write_law: "length buf < 2 ^ 63 \<Longrightarrow>
      fst (f_write dev copy s buf) = fault_or (fst (copy buf)) (length buf) \<and>
      mem (snd (f_write dev copy s buf)) = store (mem s) (snd (copy buf))"
    and read_law: "len < 2 ^ 31 \<Longrightarrow> copy_out (map (mem s) [0..<len]) \<le> len \<Longrightarrow>
      f_read dev copy_out s len = f_read message_file copy_out (mem s) len"
    and open_law: "fst (f_open dev s) = 0 \<and> mem (snd (f_open dev s)) = mem s"
    and release_law: "fst (f_release dev s) = 0 \<and> mem (snd (f_release dev s)) = mem s"

context message_device
begin

lemma call_refines:
  assumes "fop_ok c"
  shows "call_op message_file c (mem s) = (fst (call_op dev c s), mem (snd (call_op dev c s)))"
proof (cases c)
  case (FRead copy n)
  then have "copy (map (mem s) [0..<n]) \<le> n" "n < 2 ^ 31"
    using assms by (auto simp: fop_ok_def dest: spec [of _ "map (mem s) [0..<n]"])
  then show ?thesis using read_law [of n copy s] by (simp add: FRead)
qed (use assms open_law [of s] release_law [of s] write_law [of _ _ s] in
      \<open>auto simp: fop_ok_def message_file_def case_prod_beta\<close>)

lemma session_refines:
  "list_all fop_ok cs \<Longrightarrow>
   session message_file cs (mem s) = (fst (session dev cs s), mem (snd (session dev cs s)))"
  by (induction cs arbitrary: s) (simp_all add: call_refines case_prod_beta Let_def)

lemma read_after_write:
  assumes "length buf < 2 ^ 31" "n \<le> length buf"
  shows "f_read dev (\<lambda>_. 0) (snd (f_open dev (snd (f_write dev full_copy s buf)))) n = (int n, take n buf)"
proof -
  have "map (store (mem s) buf) [0..<n] = take n buf"
    using assms(2) by (intro nth_equalityI) (simp_all add: store_def)
  with assms write_law [of buf full_copy s] open_law [of "snd (f_write dev full_copy s buf)"]
  show ?thesis by (simp add: read_law message_file_def full_copy_def fault_or_def Let_def)
qed

lemma write_frame: "length buf < 2 ^ 63 \<Longrightarrow> length buf \<le> i \<Longrightarrow>
    mem (snd (f_write dev full_copy s buf)) i = mem s i"
  using write_law [of buf full_copy s] by (simp add: store_def full_copy_def)

lemma write_beyond: "length buf < 2 ^ 63 \<Longrightarrow> i < length buf \<Longrightarrow>
    mem (snd (f_write dev full_copy s buf)) i = buf ! i \<and> fst (f_write dev full_copy s buf) = int (length buf)"
  using write_law [of buf full_copy s] by (simp add: store_def full_copy_def fault_or_def)

end

lemma hello_fops_simps [simp]: "f_open hello_fops = hello_open" "f_release hello_fops = hello_release"
  "f_read hello_fops = hello_read" "f_write hello_fops = hello_write"
  by (simp_all add: hello_fops_def)

lemma ofcd_fops_simps [simp]: "f_open ofcd_fops = ofcd_open" "f_release ofcd_fops = ofcd_close"
  "f_read ofcd_fops = ofcd_read" "f_write ofcd_fops = ofcd_write"
  by (simp_all add: ofcd_fops_def)

interpretation hello: message_device hello_fops message
  by unfold_locales (auto simp: hello_write_def hello_read_def hello_open_def hello_release_def
      message_file_def fault_or_def Let_def split: prod.splits)

interpretation ofcd_dev: message_device ofcd_fops message
  by unfold_locales (auto simp: ofcd_write_def ofcd_read_def ofcd_open_def ofcd_close_def
      message_file_def fault_or_def Let_def split: prod.splits)

text \<open>The message holds what fits into it, and the count of opens.\<close>

definition opens_in :: "fop list \<Rightarrow> nat" where
  "opens_in cs = length [c \<leftarrow> cs. case c of FOpen \<Rightarrow> True | _ \<Rightarrow> False]"

definition fits :: "fop \<Rightarrow> bool" where
  "fits c = (case c of FWrite copy buf \<Rightarrow> length (snd (copy buf)) \<le> MESSAGE_LEN | _ \<Rightarrow> True)"

lemma message_file_frame:
  "list_all fits cs \<Longrightarrow> MESSAGE_LEN \<le> i \<Longrightarrow> snd (session message_file cs m) i = m i"
proof (induction cs arbitrary: m)
  case (Cons c cs)
  have "snd (call_op message_file c m) i = m i"
    using Cons.prems by (cases c) (auto simp: message_file_def fits_def store_def)
  with Cons show ?case by (simp add: case_prod_beta Let_def)
qed simp

lemma opens_step:
  "opens (snd (call_op hello_fops c s)) = (case c of FOpen \<Rightarrow> c_int (opens s + 1) | _ \<Rightarrow> opens s)"
  "opens (snd (call_op ofcd_fops c s)) = (case c of FOpen \<Rightarrow> c_int (opens s + 1) | _ \<Rightarrow> opens s)"
  by (cases c; simp add: hello_open_def hello_release_def hello_write_def ofcd_open_def ofcd_close_def
      ofcd_write_def case_prod_beta Let_def)+

lemma opens_counted:
  assumes "\<And>c s. opens (snd (call_op f c s)) = (case c of FOpen \<Rightarrow> c_int (opens s + 1) | _ \<Rightarrow> opens s)"
    and "0 \<le> opens s" "opens s + int (opens_in cs) < 2 ^ 31"
  shows "opens (snd (session f cs s)) = opens s + int (opens_in cs)"
  using assms(2,3)
proof (induction cs arbitrary: s)
  case (Cons c cs)
  let ?s = "snd (call_op f c s)"
  have "0 \<le> opens ?s \<and> opens ?s + int (opens_in cs) = opens s + int (opens_in (c # cs))"
    using Cons.prems by (cases c) (simp_all add: assms(1) opens_in_def del: call_op.simps)
  with Cons show ?case by (simp add: case_prod_beta Let_def)
qed (simp add: opens_in_def)

section \<open>Properties\<close>



text \<open>
  The simple driver's \<open>hello_exit\<close> does not undo all of \<open>hello_init\<close>: after every
  successful load and the unload that follows, the device class and the device node are still
  registered.
\<close>

theorem hello_exit_keeps_class_and_device:
  assumes "\<And>h c. c = AllocChrdevRegion ''hello'' 1 \<or> c = CdevAdd 1 \<Longrightarrow> os h c \<le> 0"
    and "run_state (hello_init os) h = (0, h1)"
  shows "held (snd (run_state (hello_exit os) h1)) = held h + {#Class, Device#}"
proof -
  have z: "\<not> os h c < 0 \<longleftrightarrow> os h c = 0" if "c = AllocChrdevRegion ''hello'' 1 \<or> c = CdevAdd 1" for h c
    using assms(1) [OF that, of h] by auto
  show ?thesis
    using assms(2) z
    by (auto simp: hello_init_def hello_exit_def EFAULT_ret_def split: if_splits)
qed

theorem hello_exit_keeps_class_and_device_witness:
  "held (snd (run_state (hello_exit (\<lambda>h c. case c of CdevAlloc \<Rightarrow> 1 | ClassCreate _ \<Rightarrow> 1 | DeviceCreate _ \<Rightarrow> 1 | _ \<Rightarrow> 0))
     (snd (run_state (hello_init (\<lambda>h c. case c of CdevAlloc \<Rightarrow> 1 | ClassCreate _ \<Rightarrow> 1 | DeviceCreate _ \<Rightarrow> 1 | _ \<Rightarrow> 0)) []))))
   = {#Class, Device#}"
proof -
  let ?os = "(\<lambda>h c. case c of CdevAlloc \<Rightarrow> 1 | ClassCreate _ \<Rightarrow> 1 | DeviceCreate _ \<Rightarrow> 1 | _ \<Rightarrow> 0) :: kernel"
  have "run_state (hello_init ?os) [] = (0, snd (run_state (hello_init ?os) []))"
    by (simp add: hello_init_def)
  moreover have "\<And>h c. c = AllocChrdevRegion ''hello'' 1 \<or> c = CdevAdd 1 \<Longrightarrow> ?os h c \<le> 0" by auto
  ultimately show ?thesis using hello_exit_keeps_class_and_device [of ?os "[]"] by simp
qed

text \<open>
  A set-up that fails after the device numbers were reserved gives nothing back: when
  \<open>ztest_init\<close>, \<open>ofcd_init\<close> or \<open>hello_init\<close> reports an error and the reservation had
  succeeded, the region is still held although the module is not loaded.
\<close>

theorem failed_init_keeps_region:
  assumes "\<And>h name n. os h (AllocChrdevRegion name n) = 0"
    and "init \<in> {ztest_init, ofcd_init cn, hello_init}"
    and "run_state (init os) h = (r, h1)" "r \<noteq> 0"
  shows "held h + {#Region#} \<subseteq># held h1"
  using assms(2-4) assms(1)
  by (auto simp: ztest_init_def ofcd_init_def hello_init_def EFAULT_ret_def split: if_splits)

theorem failed_init_keeps_region_witness:
  "{#Region#} \<subseteq># held (snd (run_state (ztest_init (\<lambda>h c. case c of CdevAdd _ \<Rightarrow> - 12 | _ \<Rightarrow> 0)) []))"
  using failed_init_keeps_region [of "\<lambda>h c. case c of CdevAdd _ \<Rightarrow> - 12 | _ \<Rightarrow> 0" ztest_init False "[]" "- 1"
      "snd (run_state (ztest_init (\<lambda>h c. case c of CdevAdd _ \<Rightarrow> - 12 | _ \<Rightarrow> 0)) [])"]
  by (simp add: ztest_init_def)

text \<open>
  C39: Both message devices are a message file: whatever sequence of calls reaches the handlers, copies
  that fail included, the answers and the message afterwards are those of the abstract file, so the
  two drivers answer alike.  When no write is longer than the message, the memory behind it is
  never touched; the drivers count the opens.
\<close>

theorem message_devices_refine_file:
  assumes "list_all fop_ok cs"
  shows "session message_file cs (message s) =
      (fst (session hello_fops cs s), message (snd (session hello_fops cs s)))
    \<and> session message_file cs (message s) =
      (fst (session ofcd_fops cs s), message (snd (session ofcd_fops cs s)))
    \<and> (list_all fits cs \<and> MESSAGE_LEN \<le> i \<longrightarrow>
        message (snd (session hello_fops cs s)) i = message s i \<and>
        message (snd (session ofcd_fops cs s)) i = message s i)
    \<and> (0 \<le> opens s \<and> opens s + int (opens_in cs) < 2 ^ 31 \<longrightarrow>
        opens (snd (session hello_fops cs s)) = opens s + int (opens_in cs) \<and>
        opens (snd (session ofcd_fops cs s)) = opens s + int (opens_in cs))"
  using hello.session_refines [OF assms, of s] ofcd_dev.session_refines [OF assms, of s]
    message_file_frame [of cs i "message s"] opens_counted [OF opens_step(1), of s cs] opens_counted [OF opens_step(2), of s cs]
  by simp

theorem message_devices_refine_file_witness:
  "fst (session hello_fops [FOpen, FWrite full_copy [104, 105], FRead length 2, FRead (\<lambda>_. 0) 2, FRelease]
     \<lparr>opens = 0, message = \<lambda>_. 0\<rparr>) = [(0, []), (2, []), (- 14, []), (2, [104, 105]), (0, [])]"
proof -
  have two: "[0..<2] = [0, 1 :: nat]" by (simp add: upt_rec)
  have "fst (session message_file [FOpen, FWrite full_copy [104, 105], FRead length 2, FRead (\<lambda>_. 0) 2, FRelease]
      (\<lambda>_. 0)) = [(0, []), (2, []), (- 14, []), (2, [104, 105]), (0, [])]"
    by (simp add: message_file_def full_copy_def fault_or_def store_def EFAULT_ret_def two)
  then show ?thesis
    using message_devices_refine_file [of "[FOpen, FWrite full_copy [104, 105], FRead length 2, FRead (\<lambda>_. 0) 2, FRelease]"
        "\<lparr>opens = 0, message = \<lambda>_. 0\<rparr>" 256]
    by (simp add: fop_ok_def del: session.simps)
qed

text \<open>What was written last is read back, also after another open.\<close>

theorem message_read_after_write:
  assumes "length buf \<le> MESSAGE_LEN" "n \<le> length buf" "length buf \<le> i"
  shows "hello_read (\<lambda>_. 0) (snd (hello_open (snd (hello_write full_copy s buf)))) n = (int n, take n buf)
    \<and> ofcd_read (\<lambda>_. 0) (snd (ofcd_open (snd (ofcd_write full_copy s buf)))) n = (int n, take n buf)
    \<and> message (snd (hello_write full_copy s buf)) i = message s i
    \<and> message (snd (ofcd_write full_copy s buf)) i = message s i"
proof -
  have "length buf < 2 ^ 31" "length buf < 2 ^ 63" using assms(1) by (simp_all add: MESSAGE_LEN_def)
  with assms show ?thesis
    using hello.read_after_write [of buf n s] ofcd_dev.read_after_write [of buf n s]
      hello.write_frame [of buf i s] ofcd_dev.write_frame [of buf i s] by simp
qed

theorem message_read_after_write_witness:
  "hello_read (\<lambda>_. 0) (snd (hello_open (snd (hello_write full_copy \<lparr>opens = 0, message = \<lambda>_. 0\<rparr> [104, 105])))) 2
     = (2, [104, 105])"
  using message_read_after_write [of "[104, 105]" 2 2 "\<lparr>opens = 0, message = \<lambda>_. 0\<rparr>"]
  by (simp add: MESSAGE_LEN_def)

text \<open>
  Neither driver bounds a write: one that is longer than the 256-byte message overwrites the
  kernel memory behind it with the user's bytes and reports success.
\<close>

theorem message_write_overruns:
  assumes "MESSAGE_LEN \<le> i" "i < length buf" "length buf < 2 ^ 63"
  shows "message (snd (hello_write full_copy s buf)) i = buf ! i
    \<and> fst (hello_write full_copy s buf) = int (length buf)
    \<and> message (snd (ofcd_write full_copy s buf)) i = buf ! i
    \<and> fst (ofcd_write full_copy s buf) = int (length buf)"
  using hello.write_beyond [OF assms(3,2), of s] ofcd_dev.write_beyond [OF assms(3,2), of s] by simp

theorem message_write_overruns_witness:
  "message (snd (hello_write full_copy \<lparr>opens = 0, message = \<lambda>_. 0\<rparr> (replicate 257 65))) 256 = 65"
  using message_write_overruns [of 256 "replicate 257 65" "\<lparr>opens = 0, message = \<lambda>_. 0\<rparr>"]
  by (simp add: MESSAGE_LEN_def)

end
