(* ===== verification/Procfs.thy ===== *)
theory Procfs
  imports ModuleIface CLib
begin

text \<open>
  The \<open>/proc\<close> modules: \<open>src/kernel/procfs/zproc.c\<close>, \<open>src/linux/affinity/cpu_affinity.c\<close> and
  \<open>src/kernel/linux_memory/node_zone_list/node_zone_list.c\<close>.

  The written number (\<open>pid\<close>, \<open>phys\<close>) is the modules' state.  Arguments of the model are the
  kernel services: \<open>copy_from_user\<close> (the number of bytes not copied, and what it stored),
  \<open>kstrtol\<close> (text and base to a value, \<open>None\<close> for an error), the task table, the nodes and
  zones, and \<open>stack\<close>, the bytes behind the local \<open>msg\<close> array.  A \<open>show\<close> function gives the
  text it prints, \<open>None\<close> when it dereferences a null pointer.
\<close>

type_synonym copy_from = "bytes \<Rightarrow> nat \<times> bytes"
type_synonym strtol_kernel = "string \<Rightarrow> nat \<Rightarrow> int option"

definition MSG_LEN :: nat where "MSG_LEN = 32"
definition MSGLEN :: nat where "MSGLEN = 32"

section \<open>Writing a number\<close>

text \<open>
  Each handler: the first \<open>len\<close> bytes of the user's buffer go to a zeroed \<open>msg\<close>; the string at
  \<open>msg\<close> runs on into the stack when no byte of it is zero.  The result is the system call's
  result and the new value.
\<close>

definition mminfo_write :: "copy_from \<Rightarrow> strtol_kernel \<Rightarrow> bytes \<Rightarrow> int \<Rightarrow> bytes \<Rightarrow> int \<times> int" where
  "mminfo_write copy_from_user kstrtol stack pid buf =
     (let count = length buf;
          len = (if count < MSG_LEN then count else MSG_LEN);
          (n, d) = copy_from_user (take len buf);
          msg = d @ replicate (MSG_LEN - length d) 0
      in if n \<noteq> 0 then (- 14, pid)
         else (case kstrtol (cstr (msg @ stack)) 10 of
                 None \<Rightarrow> (c_long (int count), pid)
               | Some v \<Rightarrow> (c_long (int count), v)))"

definition phys_value_write :: "copy_from \<Rightarrow> strtol_kernel \<Rightarrow> bytes \<Rightarrow> int \<Rightarrow> bytes \<Rightarrow> int \<times> int" where
  "phys_value_write copy_from_user kstrtol stack phys buf =
     (let count = length buf;
          len = (if count < MSG_LEN then count else MSG_LEN);
          (n, d) = copy_from_user (take len buf);
          msg = d @ replicate (MSG_LEN - length d) 0
      in if n \<noteq> 0 then (- 14, phys)
         else (case kstrtol (cstr (msg @ stack)) 16 of
                 None \<Rightarrow> (c_long (int count), phys)
               | Some v \<Rightarrow> (c_long (int count), v)))"

definition proc_get_write :: "copy_from \<Rightarrow> strtol_kernel \<Rightarrow> bytes \<Rightarrow> int \<Rightarrow> bytes \<Rightarrow> int \<times> int" where
  "proc_get_write copy_from_user kstrtol stack pid buf =
     (let count = length buf;
          len = (if count < MSGLEN then count else MSGLEN);
          (n, d) = copy_from_user (take len buf);
          msg = d @ replicate (MSGLEN - length d) 0
      in if n \<noteq> 0 then (- 14, pid)
         else (case kstrtol (cstr (msg @ stack)) 10 of
                 None \<Rightarrow> (c_long (int count), pid)
               | Some v \<Rightarrow> (c_long (int count), v)))"

text \<open>
  The contract of a number file, and what follows from it: a text shorter than \<open>msg\<close> is what
  the parser sees; a longer one is cut to 32 bytes and continued with the stack.
\<close>

definition full_copy_in :: copy_from where
  "full_copy_in src = (0, src)"

definition copy_fault :: "copy_from \<Rightarrow> bool" where
  "copy_fault cp \<longleftrightarrow> (\<forall>src. fst (cp src) \<noteq> 0)"

locale number_file =
  fixes wr :: "copy_from \<Rightarrow> strtol_kernel \<Rightarrow> bytes \<Rightarrow> int \<Rightarrow> bytes \<Rightarrow> int \<times> int"
    and base :: nat
  assumes write_text: "length buf < 2 ^ 63 \<Longrightarrow> wr full_copy_in ks stack v buf =
      (int (length buf),
       case ks (cstr (take 32 buf @ replicate (32 - length buf) 0 @ stack)) base of None \<Rightarrow> v | Some w \<Rightarrow> w)"
    and write_fault: "copy_fault cp \<Longrightarrow> wr cp ks stack v buf = (- 14, v)"

context number_file
begin

lemma write_short_text:
  assumes "length s < 32" "CHR 0x00 \<notin> set s"
  shows "wr full_copy_in ks stack v (of_cstr s) =
    (int (length s), case ks s base of None \<Rightarrow> v | Some w \<Rightarrow> w)"
proof -
  have len: "length (of_cstr s) = length s" by (simp add: of_cstr_def)
  have "cstr (take 32 (of_cstr s) @ replicate (32 - length s) 0 @ stack) = s"
    using assms of_cstr_nonzero [of s]
    by (simp add: len, subst cstr_short) (simp_all add: char_of_of_cstr)
  then show ?thesis using assms(1) write_text [of "of_cstr s" ks stack v] by (simp add: len)
qed

lemma write_long_text:
  assumes "32 \<le> length buf" "length buf < 2 ^ 63"
  shows "wr full_copy_in ks stack v buf =
    (int (length buf), case ks (cstr (take 32 buf @ stack)) base of None \<Rightarrow> v | Some w \<Rightarrow> w)"
  using write_text [of buf ks stack v] assms by simp

end

lemma copy_faultD [simp]: "copy_fault cp \<Longrightarrow> fst (cp src) \<noteq> 0"
  by (simp add: copy_fault_def)

lemma take_len: "take (if n < k then n else k) xs = take k xs" if "n = length xs"
  using that by simp

lemmas number_file_defs = mminfo_write_def phys_value_write_def proc_get_write_def full_copy_in_def
  MSG_LEN_def MSGLEN_def Let_def case_prod_beta take_len [OF refl]

interpretation mminfo: number_file mminfo_write 10
  by unfold_locales (simp_all add: number_file_defs min_def split: option.split)

interpretation phys: number_file phys_value_write 16
  by unfold_locales (simp_all add: number_file_defs min_def split: option.split)

interpretation affinity: number_file proc_get_write 10
  by unfold_locales (simp_all add: number_file_defs min_def split: option.split)

section \<open>Reading: one task\<close>

record mm_info =
  map_count :: int
  pgd :: nat
  pgd_pa :: nat
  pgd_value :: nat
  start_brk :: nat
  brk :: nat
  start_stack :: nat
  total_vm :: nat
  data_vm :: nat

record mempolicy =
  mode :: nat
  preferred_node :: nat
  nodes_bits :: nat

record proc_task =
  comm :: string
  active_mm :: mm_info
  nr_cpus_allowed :: int
  cpus_allowed_bits :: nat
  task_mempolicy :: "mempolicy option"

text \<open>
  The task table: \<open>pid_task(find_vpid(nr), PIDTYPE_PID)\<close>.  \<open>find_vpid\<close> takes an \<open>int\<close>, so the
  \<open>long\<close> is cut to 32 bits.
\<close>

type_synonym task_table = "int \<Rightarrow> proc_task option"

definition mminfo_show :: "(nat \<Rightarrow> string) \<Rightarrow> task_table \<Rightarrow> int \<Rightarrow> string" where
  "mminfo_show fmt_p tasks pid =
     (if pid = 0 then ''pid:'' @ fmt_d pid @ nl
      else (case tasks (c_int pid) of
              None \<Rightarrow> ''pid:'' @ fmt_d pid @ '' find task error'' @ nl
            | Some task \<Rightarrow>
                (let mm = active_mm task in
                 ''pid:'' @ fmt_d pid @ '' comm:'' @ comm task @ nl @
                 ''map_count:'' @ fmt_d (map_count mm) @ '' pgd:'' @ fmt_p (pgd mm) @
                 '' pgd pa:0x'' @ fmt_x (pgd_pa mm) @ '' pgd value:0x'' @ fmt_x (pgd_value mm) @ nl @
                 ''start_brk:0x'' @ fmt_x (start_brk mm) @ '' brk:0x'' @ fmt_x (brk mm) @
                 '' start_stack:0x'' @ fmt_x (start_stack mm) @ nl @
                 ''total_vm:0x'' @ fmt_x (total_vm mm) @ '' data_vm:0x'' @ fmt_x (data_vm mm) @ nl)))"

definition MPOL_PREFERRED :: nat where "MPOL_PREFERRED = 1"
definition MPOL_BIND :: nat where "MPOL_BIND = 2"
definition MPOL_INTERLEAVE :: nat where "MPOL_INTERLEAVE = 3"

definition proc_get_show :: "task_table \<Rightarrow> int \<Rightarrow> string option" where
  "proc_get_show tasks pid =
     (if pid = 0 then Some (''pid:'' @ fmt_d pid @ nl)
      else (case tasks (c_int pid) of
              None \<Rightarrow> Some (''pid:'' @ fmt_d pid @ '' task is NULL'' @ nl)
            | Some task \<Rightarrow>
                (let head = ''pid:'' @ fmt_d pid @ '' nr_cpus_allowed:'' @ fmt_d (nr_cpus_allowed task) @
                            '' cpus_allowed:0x'' @ fmt_x (cpus_allowed_bits task) @ nl
                 in (case task_mempolicy task of
                       None \<Rightarrow> None
                     | Some pol \<Rightarrow>
                         if mode pol = MPOL_PREFERRED then
                           Some (head @ [CHR 0x09] @ '' mode:'' @ fmt_u (mode pol) @ '' nodes:0x'' @
                                 fmt_x (preferred_node pol) @ nl)
                         else if mode pol = MPOL_BIND \<or> mode pol = MPOL_INTERLEAVE then
                           Some (head @ [CHR 0x09] @ '' mode:'' @ fmt_u (mode pol) @ '' nodes:0x'' @
                                 fmt_x (nodes_bits pol) @ nl)
                         else Some head))))"

section \<open>Reading: one word of physical memory\<close>

text \<open>
  \<open>pages n\<close> is the mapping \<open>kmap(pfn_to_page(n))\<close>, from the page's first byte on, \<open>None\<close> for
  a null page pointer.
\<close>

definition phys_value_show :: "(nat \<Rightarrow> (nat \<Rightarrow> byte) option) \<Rightarrow> int \<Rightarrow> string" where
  "phys_value_show pages phys =
     (let page_num = c_ulong phys div 4096; page_off = c_ulong phys mod 4096
      in (case pages page_num of
            None \<Rightarrow> ''0x'' @ fmt_x (c_ulong phys) @ '' pfn_to_page error'' @ nl
          | Some pg \<Rightarrow>
              ''0x'' @ fmt_x (c_ulong phys) @ '':0x'' @
              fmt_x (le_nat (map (\<lambda>i. pg (page_off + i)) [0..<8])) @ nl))"

section \<open>Reading: nodes and zones\<close>

record zone =
  zone_name :: string
  zone_start_pfn :: nat
  present_pages :: nat
  nr_free :: "nat \<Rightarrow> nat"

record pg_data =
  node_id :: nat
  nr_zones :: int
  node_start_pfn :: nat
  node_present_pages :: nat
  node_zones :: "zone list"

text \<open>What a listing does: it takes and gives back zone locks, and prints.\<close>

datatype listing = Lock zone | Unlock zone | Emit string

fun output_of :: "listing list \<Rightarrow> string" where
  "output_of [] = ''''"
| "output_of (Emit s # es) = s @ output_of es"
| "output_of (e # es) = output_of es"

text \<open>
  The loop over a node's zones (\<open>node_zones\<close> has \<open>MAX_NR_ZONES\<close> elements), once with the free
  counts of the buddy lists and once with the zone's extent.  \<open>populated\<close> is \<open>populated_zone\<close>.
\<close>

fun node0_zones :: "(zone \<Rightarrow> bool) \<Rightarrow> nat \<Rightarrow> nat \<Rightarrow> zone list \<Rightarrow> listing list" where
  "node0_zones populated max_order nid [] = []"
| "node0_zones populated max_order nid (z # zs) =
     (if \<not> populated z then node0_zones populated max_order nid zs
      else [Lock z,
            Emit (''Node '' @ fmt_d (int nid) @ '', zone '' @ spad 8 (zone_name z) @ '' ''),
            Emit (concat (map (\<lambda>order. spad 6 (fmt_u (nr_free z order)) @ '' '') [0..<max_order])),
            Emit nl,
            Unlock z] @ node0_zones populated max_order nid zs)"

definition node0_show :: "(zone \<Rightarrow> bool) \<Rightarrow> nat \<Rightarrow> (nat \<Rightarrow> pg_data) \<Rightarrow> nat \<Rightarrow> listing list" where
  "node0_show populated max_order NODE_DATA first_online_node =
     (let pgdat = NODE_DATA first_online_node
      in node0_zones populated max_order (node_id pgdat) (node_zones pgdat))"

fun info_zones :: "(zone \<Rightarrow> bool) \<Rightarrow> zone list \<Rightarrow> listing list" where
  "info_zones populated [] = []"
| "info_zones populated (z # zs) =
     (if \<not> populated z then info_zones populated zs
      else [Lock z,
            Emit ([CHR 0x09] @ '' zone: '' @ spad 8 (zone_name z) @ '' zone_start_pfn:0x'' @
                  fmt_x (zone_start_pfn z) @ '' present_pages:0x'' @ fmt_x (present_pages z) @ nl),
            Unlock z] @ info_zones populated zs)"

definition info_node :: "(zone \<Rightarrow> bool) \<Rightarrow> pg_data \<Rightarrow> listing list" where
  "info_node populated pgdat =
     Emit (''node_id:'' @ fmt_d (int (node_id pgdat)) @ '' nr_zones:'' @ fmt_d (nr_zones pgdat) @
           '' node_start_pfn:0x'' @ fmt_x (node_start_pfn pgdat) @
           '' node_present_pages:0x'' @ fmt_x (node_present_pages pgdat) @ nl) #
     info_zones populated (node_zones pgdat)"

text \<open>
  The \<open>while\<close> loop over the nodes follows \<open>next_online_node\<close>, which is the kernel's: the fuel
  bounds the number of rounds, and \<open>None\<close> means that it was not enough.
\<close>

fun info_loop :: "(zone \<Rightarrow> bool) \<Rightarrow> (nat \<Rightarrow> pg_data) \<Rightarrow> (nat \<Rightarrow> nat) \<Rightarrow> nat \<Rightarrow> nat \<Rightarrow> nat \<Rightarrow>
    listing list option" where
  "info_loop populated NODE_DATA next_online max_numnodes fuel nid =
     (if nid = max_numnodes then Some []
      else (case fuel of 0 \<Rightarrow> None
            | Suc f \<Rightarrow> map_option (\<lambda>es. info_node populated (NODE_DATA nid) @ es)
                (info_loop populated NODE_DATA next_online max_numnodes f
                  (next_online (node_id (NODE_DATA nid))))))"

declare info_loop.simps [simp del]

definition info_show :: "(zone \<Rightarrow> bool) \<Rightarrow> (nat \<Rightarrow> pg_data) \<Rightarrow> (nat \<Rightarrow> nat) \<Rightarrow> nat \<Rightarrow> nat \<Rightarrow>
    listing list option" where
  "info_show populated NODE_DATA next_online max_numnodes first_online_node =
     info_loop populated NODE_DATA next_online max_numnodes max_numnodes first_online_node"

section \<open>Loading and unloading\<close>

definition zproc_init :: "kernel \<Rightarrow> int kprog" where
  "zproc_init os =
     do {
       _ \<leftarrow> call os (ProcMkdir ''zproc'');
       _ \<leftarrow> call os (ProcCreate ''mminfo'' 438);
       _ \<leftarrow> call os (ProcCreate ''physvalue'' 438);
       _ \<leftarrow> call os (ProcCreate ''node0buddy'' 292);
       _ \<leftarrow> call os (Printk ''<zproc> test proc create'');
       State_Monad.return 0
     }"

definition zproc_exit :: "kernel \<Rightarrow> unit kprog" where
  "zproc_exit os =
     do {
       _ \<leftarrow> call os (ProcRemove ''mminfo'');
       _ \<leftarrow> call os (ProcRemove ''physvalue'');
       _ \<leftarrow> call os (ProcRemove ''node0buddy'');
       _ \<leftarrow> call os (ProcRemove ''zproc'');
       _ \<leftarrow> call os (Printk ''<zproc> test proc remove'');
       State_Monad.return ()
     }"

definition affinity_init :: "kernel \<Rightarrow> int kprog" where
  "affinity_init os =
     do {
       _ \<leftarrow> call os (ProcMkdir ''cpu_affinity'');
       _ \<leftarrow> call os (ProcCreate ''get'' 438);
       _ \<leftarrow> call os (Printk ''<cpu_affinity> loaded'');
       State_Monad.return 0
     }"

definition affinity_exit :: "kernel \<Rightarrow> unit kprog" where
  "affinity_exit os =
     do {
       _ \<leftarrow> call os (ProcRemove ''get'');
       _ \<leftarrow> call os (ProcRemove ''cpu_affinity'');
       _ \<leftarrow> call os (Printk ''<cpu_affinity> remove'');
       State_Monad.return ()
     }"

definition node_zone_list_init :: "kernel \<Rightarrow> int kprog" where
  "node_zone_list_init os =
     do {
       _ \<leftarrow> call os (ProcMkdir ''node_zone_list'');
       _ \<leftarrow> call os (ProcCreate ''info'' 292);
       _ \<leftarrow> call os (Printk ''<node_zone_list> insmod'');
       State_Monad.return 0
     }"

definition node_zone_list_exit :: "kernel \<Rightarrow> unit kprog" where
  "node_zone_list_exit os =
     do {
       _ \<leftarrow> call os (ProcRemove ''info'');
       _ \<leftarrow> call os (ProcRemove ''node_zone_list'');
       _ \<leftarrow> call os (Printk ''<node_zone_list> remove'');
       State_Monad.return ()
     }"

text \<open>
  The set-ups ignore the results of \<open>proc_mkdir\<close> and \<open>proc_create\<close>, so the lifecycle contract
  holds for kernels in which these do not fail.
\<close>

definition proc_creations_succeed :: "kernel \<Rightarrow> bool" where
  "proc_creations_succeed os \<longleftrightarrow> (\<forall>h name mode. os h (ProcMkdir name) \<noteq> 0 \<and> os h (ProcCreate name mode) \<noteq> 0)"

interpretation zproc: module_lifecycle zproc_init zproc_exit
  "{#ProcEntry ''zproc'', ProcEntry ''mminfo'', ProcEntry ''physvalue'', ProcEntry ''node0buddy''#}"
  proc_creations_succeed
  by unfold_locales (auto simp: zproc_init_def zproc_exit_def proc_creations_succeed_def)

interpretation affinity_mod: module_lifecycle affinity_init affinity_exit
  "{#ProcEntry ''cpu_affinity'', ProcEntry ''get''#}" proc_creations_succeed
  by unfold_locales (auto simp: affinity_init_def affinity_exit_def proc_creations_succeed_def)

interpretation node_zone_list: module_lifecycle node_zone_list_init node_zone_list_exit
  "{#ProcEntry ''node_zone_list'', ProcEntry ''info''#}" proc_creations_succeed
  by unfold_locales (auto simp: node_zone_list_init_def node_zone_list_exit_def proc_creations_succeed_def)

section \<open>The listings\<close>

text \<open>Locks are taken one at a time, given back, and everything of a zone is printed under its lock.\<close>

fun disciplined :: "zone option \<Rightarrow> listing list \<Rightarrow> bool" where
  "disciplined h [] = (h = None)"
| "disciplined h (Lock z # es) = (h = None \<and> disciplined (Some z) es)"
| "disciplined h (Unlock z # es) = (h = Some z \<and> disciplined None es)"
| "disciplined h (Emit s # es) = disciplined h es"

fun locked_zones :: "listing list \<Rightarrow> zone list" where
  "locked_zones [] = []"
| "locked_zones (Lock z # es) = z # locked_zones es"
| "locked_zones (e # es) = locked_zones es"

lemma disciplined_append: "disciplined h es \<Longrightarrow> disciplined None fs \<Longrightarrow> disciplined h (es @ fs)"
  by (induction h es rule: disciplined.induct) auto

lemma locked_zones_append [simp]: "locked_zones (es @ fs) = locked_zones es @ locked_zones fs"
  by (induction es rule: locked_zones.induct) auto

lemma node0_zones_listing:
  "disciplined None (node0_zones populated k nid zs) \<and>
   locked_zones (node0_zones populated k nid zs) = filter populated zs"
  by (induction zs) auto

lemma info_zones_listing:
  "disciplined None (info_zones populated zs) \<and> locked_zones (info_zones populated zs) = filter populated zs"
  by (induction zs) auto

lemma info_node_listing:
  "disciplined None (info_node populated d) \<and> locked_zones (info_node populated d) = filter populated (node_zones d)"
  using info_zones_listing by (simp add: info_node_def)

lemma info_loop_listing:
  "info_loop populated nd next mx fuel nid = Some es \<Longrightarrow> disciplined None es"
proof (induction fuel arbitrary: nid es)
  case 0
  then show ?case by (auto simp: info_loop.simps [of _ _ _ _ 0] split: if_splits)
next
  case (Suc fuel)
  then show ?case
    using info_node_listing
    by (auto simp: info_loop.simps [of _ _ _ _ "Suc fuel"] split: if_splits intro!: disciplined_append)
qed

text \<open>Following \<open>next_online_node\<close> through the online nodes, in order.\<close>

lemma info_loop_nodes:
  assumes "length ns \<le> fuel" "\<forall>n\<in>set ns. n \<noteq> mx" "\<And>n. node_id (nd n) = n"
    and "nid = hd (ns @ [mx])" "\<forall>i < length ns. next (ns ! i) = (ns @ [mx]) ! Suc i"
  shows "info_loop populated nd next mx fuel nid = Some (concat (map (\<lambda>n. info_node populated (nd n)) ns))"
  using assms
proof (induction ns arbitrary: nid fuel)
  case Nil
  then show ?case by (simp add: info_loop.simps)
next
  case (Cons n ns)
  then obtain f where f: "fuel = Suc f" by (cases fuel) auto
  have nx: "next n = hd (ns @ [mx])"
    using Cons.prems(5) by (cases ns) (auto dest: spec [of _ 0])
  have "\<forall>i < length ns. next (ns ! i) = (ns @ [mx]) ! Suc i"
    using Cons.prems(5) by (auto dest: spec [of _ "Suc _"])
  then have "info_loop populated nd next mx f (next n) =
      Some (concat (map (\<lambda>n. info_node populated (nd n)) ns))"
    using Cons.prems f nx by (intro Cons.IH) auto
  moreover have "nid = n" "n \<noteq> mx" using Cons.prems by auto
  ultimately show ?case
    using Cons.prems(3) by (simp add: info_loop.simps [of _ _ _ _ "Suc f" n] f)
qed

lemma distinct_below_length:
  assumes "sorted_wrt (<) ns" "\<forall>n\<in>set ns. n < (mx :: nat)"
  shows "length ns \<le> mx"
proof -
  have "set ns \<subseteq> {..<mx}" using assms(2) by auto
  then have "card (set ns) \<le> mx" using card_mono [of "{..<mx}" "set ns"] by simp
  moreover have "distinct ns" using assms(1) by (simp add: strict_sorted_iff)
  ultimately show ?thesis by (simp add: distinct_card)
qed

lemma take_prefix: "s = p @ rest \<Longrightarrow> take (length p) s = p"
  by simp

lemma mminfo_show_none:
  "pid \<noteq> 0 \<Longrightarrow> tasks (c_int pid) = None \<Longrightarrow>
   mminfo_show fmt_p tasks pid = ''pid:'' @ fmt_d pid @ '' find task error'' @ nl"
  by (simp add: mminfo_show_def)

lemma mminfo_show_head:
  assumes "pid \<noteq> 0" "tasks (c_int pid) = Some t"
  shows "take (length (''pid:'' @ fmt_d pid @ '' comm:'' @ comm t)) (mminfo_show fmt_p tasks pid) =
    ''pid:'' @ fmt_d pid @ '' comm:'' @ comm t"
proof -
  have "\<exists>rest. mminfo_show fmt_p tasks pid = (''pid:'' @ fmt_d pid @ '' comm:'' @ comm t) @ rest"
    unfolding mminfo_show_def Let_def using assms by (simp only: append_assoc option.case if_False) blast
  then show ?thesis by (rule exE) (rule take_prefix)
qed

section \<open>Properties\<close>

text \<open>
  A number written as a text of less than 32 characters reaches the parser unchanged in all
  three files (decimal for the two pid files, hexadecimal for the address), a text that does not
  parse leaves the old number in place, and the writer is told that all bytes were taken; what
  happens to be on the stack plays no part.
\<close>

theorem number_files_take_short_text:
  assumes "length s < 32" "CHR 0x00 \<notin> set s"
  shows "mminfo_write full_copy_in ks stack v (of_cstr s) =
      (int (length s), case ks s 10 of None \<Rightarrow> v | Some w \<Rightarrow> w)
    \<and> phys_value_write full_copy_in ks stack v (of_cstr s) =
      (int (length s), case ks s 16 of None \<Rightarrow> v | Some w \<Rightarrow> w)
    \<and> proc_get_write full_copy_in ks stack v (of_cstr s) =
      (int (length s), case ks s 10 of None \<Rightarrow> v | Some w \<Rightarrow> w)"
  using mminfo.write_short_text [OF assms] phys.write_short_text [OF assms]
    affinity.write_short_text [OF assms] by blast

theorem number_files_take_short_text_witness:
  "mminfo_write full_copy_in (\<lambda>s b. if s = ''42'' then Some 42 else None) [1, 2] 7 (of_cstr ''42'') = (2, 42)"
  using number_files_take_short_text [of "''42''" "\<lambda>s b. if s = ''42'' then Some 42 else None" "[1, 2]" 7] by simp

text \<open>
  C37: A write of 32 or more bytes leaves the local \<open>msg\<close> without a terminating zero: if its 32
  bytes hold none, all three handlers parse the written text continued with whatever is behind
  \<open>msg\<close> on the stack.
\<close>

theorem number_files_run_into_stack:
  assumes "32 \<le> length buf" "length buf < 2 ^ 63" "\<forall>b\<in>set (take 32 buf). b \<noteq> 0"
  shows "mminfo_write full_copy_in ks stack v buf = (int (length buf),
      case ks (map (\<lambda>b. char_of (unat b)) (take 32 buf) @ cstr stack) 10 of None \<Rightarrow> v | Some w \<Rightarrow> w)
    \<and> phys_value_write full_copy_in ks stack v buf = (int (length buf),
      case ks (map (\<lambda>b. char_of (unat b)) (take 32 buf) @ cstr stack) 16 of None \<Rightarrow> v | Some w \<Rightarrow> w)
    \<and> proc_get_write full_copy_in ks stack v buf = (int (length buf),
      case ks (map (\<lambda>b. char_of (unat b)) (take 32 buf) @ cstr stack) 10 of None \<Rightarrow> v | Some w \<Rightarrow> w)"
proof -
  have "cstr (take 32 buf @ stack) = map (\<lambda>b. char_of (unat b)) (take 32 buf) @ cstr stack"
    using assms(3) by (simp add: cstr_def takeWhile_append2)
  then show ?thesis
    using mminfo.write_long_text [OF assms(1,2)] phys.write_long_text [OF assms(1,2)]
      affinity.write_long_text [OF assms(1,2)] by simp
qed

theorem number_files_run_into_stack_witness:
  "snd (mminfo_write full_copy_in (\<lambda>s b. Some (int (length s))) [49, 50, 0] 7 (replicate 32 48)) = 34"
proof -
  have "cstr [49, 50, 0] = [char_of (unat (49 :: byte)), char_of (unat (50 :: byte))]" by (simp add: cstr_def)
  then show ?thesis
    using number_files_run_into_stack [of "replicate 32 48" "\<lambda>s b. Some (int (length s))" "[49, 50, 0]" 7]
    by simp
qed

text \<open>
  \<open>echo PID > mminfo; cat mminfo\<close> reports on the task with that number: for a positive \<open>int\<close>
  whose decimal text the kernel's parser accepts, the shown text is the task's, headed by its pid
  and name, or says that there is none.
\<close>

theorem mminfo_write_show:
  assumes "0 < n" "n < 2 ^ 31" "ks (fmt_u n @ nl) 10 = Some (int n)"
  shows "let pid = snd (mminfo_write full_copy_in ks stack old (of_cstr (fmt_u n @ nl))) in
    (case tasks (int n) of
       None \<Rightarrow> mminfo_show fmt_p tasks pid = ''pid:'' @ fmt_u n @ '' find task error'' @ nl
     | Some t \<Rightarrow> take (length (''pid:'' @ fmt_u n @ '' comm:'' @ comm t)) (mminfo_show fmt_p tasks pid) =
         ''pid:'' @ fmt_u n @ '' comm:'' @ comm t)"
proof -
  have "n < 10 ^ 10" using assms(2) by simp
  then have "length (fmt_u n) \<le> 10" by (rule length_fmt_u) simp
  then have len: "length (fmt_u n @ nl) < 32" by (simp add: nl_def)
  have "CHR 0x00 \<notin> set (fmt_u n @ nl)"
    using fmt_u_no_nul [of n] by (simp add: nl_def)
  with len have "snd (mminfo_write full_copy_in ks stack old (of_cstr (fmt_u n @ nl))) = int n"
    using mminfo.write_short_text [of "fmt_u n @ nl" ks stack old] assms(3) by simp
  moreover have "c_int (int n) = int n" "int n \<noteq> 0" "fmt_d (int n) = fmt_u n"
    using assms(1,2) by (simp_all add: fmt_d_def)
  ultimately show ?thesis
    using mminfo_show_head [of "int n" tasks _ fmt_p]
    by (simp add: Let_def mminfo_show_none split: option.splits)
qed

theorem mminfo_write_show_witness:
  "mminfo_show (\<lambda>_. '''') (\<lambda>_. None)
     (snd (mminfo_write full_copy_in (\<lambda>_ _. Some 7) [] 0 (of_cstr (fmt_u 7 @ nl)))) =
   ''pid:'' @ fmt_u 7 @ '' find task error'' @ nl"
  using mminfo_write_show [where n = 7 and ks = "\<lambda>_ _. Some 7" and stack = "[]" and old = 0
      and tasks = "\<lambda>_. None" and fmt_p = "\<lambda>_. ''''"] by simp

text \<open>
  \<open>cat /proc/cpu_affinity/get\<close> dereferences a null pointer exactly when a task was selected
  that exists and has no memory policy of its own; in every other case it prints a text.
\<close>

theorem affinity_show_null_policy:
  "proc_get_show tasks pid = None \<longleftrightarrow>
     pid \<noteq> 0 \<and> (\<exists>t. tasks (c_int pid) = Some t \<and> task_mempolicy t = None)"
  by (auto simp: proc_get_show_def Let_def split: option.splits)

text \<open>
  The physical word shown for an address that is not in the last seven bytes of a page is the
  little-endian value of the eight bytes at that address, and depends on nothing outside its page.
\<close>

theorem phys_value_shows_word:
  assumes "c_ulong phys mod 4096 \<le> 4088" "pages (c_ulong phys div 4096) = Some pg"
    and "\<And>i. i < 4096 \<Longrightarrow> pg i = mem (4096 * (c_ulong phys div 4096) + i)"
  shows "phys_value_show pages phys = ''0x'' @ fmt_x (c_ulong phys) @ '':0x'' @
    fmt_x (le_nat (map mem [c_ulong phys..<c_ulong phys + 8])) @ nl"
proof -
  let ?a = "c_ulong phys"
  have "map (\<lambda>i. pg (?a mod 4096 + i)) [0..<8] = map mem [?a..<?a + 8]"
  proof (rule nth_equalityI)
    fix i assume "i < length (map (\<lambda>i. pg (?a mod 4096 + i)) [0..<8])"
    then have i: "i < 8" by simp
    have "pg (?a mod 4096 + i) = mem (4096 * (?a div 4096) + (?a mod 4096 + i))"
      using assms(1) i by (intro assms(3)) linarith
    also have "4096 * (?a div 4096) + (?a mod 4096 + i) = ?a + i"
      using mult_div_mod_eq [of 4096 ?a] by linarith
    finally show "map (\<lambda>i. pg (?a mod 4096 + i)) [0..<8] ! i = map mem [?a..<?a + 8] ! i"
      using i by simp
  qed simp
  then show ?thesis using assms(2) by (simp add: phys_value_show_def Let_def)
qed

theorem phys_value_shows_word_witness:
  "phys_value_show (\<lambda>n. Some (\<lambda>i. 1)) 8192 = ''0x'' @ fmt_x 8192 @ '':0x'' @
     fmt_x (le_nat (map (\<lambda>_. 1) [8192..<8192 + 8])) @ nl"
  using phys_value_shows_word [of 8192 "\<lambda>n. Some (\<lambda>i. 1)" "\<lambda>i. 1" "\<lambda>_. 1"] by simp

text \<open>
  Both zone listings take one zone lock at a time, give each back before the next and before
  they end, print a zone only under its lock, and visit exactly the populated zones in order.
\<close>

theorem zone_listings_disciplined:
  "disciplined None (node0_show populated k nd first)
   \<and> locked_zones (node0_show populated k nd first) = filter populated (node_zones (nd first))
   \<and> disciplined None (info_node populated (nd first))
   \<and> locked_zones (info_node populated (nd first)) = filter populated (node_zones (nd first))"
  using node0_zones_listing info_node_listing by (simp add: node0_show_def Let_def)

text \<open>
  The listing of all nodes ends and shows every online node once, in increasing order, when
  \<open>next_online_node\<close> goes through the online nodes as documented; the number of possible nodes
  bounds the rounds.
\<close>

theorem info_show_lists_online_nodes:
  assumes "sorted_wrt (<) ns" "\<forall>n\<in>set ns. n < mx" "\<And>n. node_id (nd n) = n"
    and "first = hd (ns @ [mx])" "\<forall>i < length ns. next (ns ! i) = (ns @ [mx]) ! Suc i"
  shows "info_show populated nd next mx first = Some (concat (map (\<lambda>n. info_node populated (nd n)) ns))"
  unfolding info_show_def
  by (rule info_loop_nodes [OF distinct_below_length [OF assms(1,2)] _ assms(3-5)]) (use assms(2) in auto)

theorem info_show_lists_online_nodes_witness:
  "\<exists>es. info_show (\<lambda>_. True)
     (\<lambda>n. \<lparr>node_id = n, nr_zones = 0, node_start_pfn = 0, node_present_pages = 0, node_zones = []\<rparr>)
     (\<lambda>n. if n = 0 then 2 else 4) 4 0 = Some es"
  using info_show_lists_online_nodes [of "[0, 2]" 4
      "\<lambda>n. \<lparr>node_id = n, nr_zones = 0, node_start_pfn = 0, node_present_pages = 0, node_zones = []\<rparr>" 0
      "\<lambda>n. if n = 0 then 2 else 4" "\<lambda>_. True"]
  by (simp add: All_less_Suc numeral_2_eq_2)

end
