(* ===== verification/ProcFiles.thy ===== *)
theory ProcFiles
  imports Procfs
begin

text \<open>
  The \<open>/proc\<close> files of \<open>Procfs\<close> as processes use them: the handlers that
  \<open>src/kernel/procfs/zproc.c\<close>, \<open>src/linux/affinity/cpu_affinity.c\<close> and
  \<open>src/kernel/linux_memory/node_zone_list/node_zone_list.c\<close> register, and sequences of \<open>open\<close>, \<open>read\<close>,
  \<open>write\<close> and \<open>close\<close> by any number of processes.

  \<open>single_open\<close> and \<open>seq_read\<close> are the kernel's: the first \<open>read\<close> of an open file calls the \<open>show\<close>
  function, and it and the later ones deliver the text in pieces.  A file without a \<open>write\<close> handler answers
  \<open>-EIO\<close>.  Every call comes with the kernel's data at that moment, \<open>proc_env\<close>; the number a module was
  told is the module's own state.
\<close>

section \<open>Handlers and open files\<close>

text \<open>What \<open>open\<close> gives to \<open>single_open\<close>, and the \<open>write\<close> handler.\<close>

record ('e, 'g) proc_fops =
  po_show :: "'e \<Rightarrow> 'g \<Rightarrow> string option"
  po_write :: "('e \<Rightarrow> 'g \<Rightarrow> bytes \<Rightarrow> int \<times> 'g) option"

type_synonym ('e, 'g) proc_dir = "string \<Rightarrow> ('e, 'g) proc_fops option"

datatype seq_file = Unread | Text string

record 'g proc_state =
  vars :: 'g
  open_files :: "nat \<Rightarrow> (string \<times> seq_file) option"

datatype pcall = POpen nat string | PRead nat nat | PWrite nat bytes | PClose nat

datatype panswer = Done | Piece string | Count int | Oops | Refused

definition deliver :: "nat \<Rightarrow> string \<Rightarrow> nat \<Rightarrow> string \<Rightarrow> 'g proc_state \<Rightarrow> panswer \<times> 'g proc_state" where
  "deliver fd name n t s =
     (Piece (take n t), s\<lparr>open_files := (open_files s)(fd \<mapsto> (name, Text (drop n t)))\<rparr>)"

fun pstep :: "('e, 'g) proc_dir \<Rightarrow> 'e \<Rightarrow> pcall \<Rightarrow> 'g proc_state \<Rightarrow> panswer \<times> 'g proc_state" where
  "pstep F e (POpen fd name) s =
     (if F name = None \<or> open_files s fd \<noteq> None then (Refused, s)
      else (Done, s\<lparr>open_files := (open_files s)(fd \<mapsto> (name, Unread))\<rparr>))"
| "pstep F e (PRead fd n) s =
     (case open_files s fd of
        None \<Rightarrow> (Refused, s)
      | Some (name, Text t) \<Rightarrow> deliver fd name n t s
      | Some (name, Unread) \<Rightarrow>
          (case F name of
             None \<Rightarrow> (Refused, s)
           | Some f \<Rightarrow> (case po_show f e (vars s) of None \<Rightarrow> (Oops, s) | Some t \<Rightarrow> deliver fd name n t s)))"
| "pstep F e (PWrite fd buf) s =
     (case open_files s fd of
        None \<Rightarrow> (Refused, s)
      | Some (name, q) \<Rightarrow>
          (case F name of
             None \<Rightarrow> (Refused, s)
           | Some f \<Rightarrow>
               (case po_write f of
                  None \<Rightarrow> (Count (- 5), s)
                | Some w \<Rightarrow> (case w e (vars s) buf of (r, g) \<Rightarrow> (Count r, s\<lparr>vars := g\<rparr>)))))"
| "pstep F e (PClose fd) s = (Done, s\<lparr>open_files := (open_files s)(fd := None)\<rparr>)"

text \<open>A sequence of calls: the state after it, and what the reads of one descriptor delivered.\<close>

fun after :: "('e, 'g) proc_dir \<Rightarrow> ('e \<times> pcall) list \<Rightarrow> 'g proc_state \<Rightarrow> 'g proc_state" where
  "after F [] s = s"
| "after F ((e, c) # cs) s = after F cs (snd (pstep F e c s))"

definition piece_of :: "nat \<Rightarrow> pcall \<Rightarrow> panswer \<Rightarrow> string" where
  "piece_of fd c a = (case (c, a) of (PRead fd' n, Piece t) \<Rightarrow> if fd' = fd then t else '''' | _ \<Rightarrow> '''')"

fun got :: "('e, 'g) proc_dir \<Rightarrow> nat \<Rightarrow> ('e \<times> pcall) list \<Rightarrow> 'g proc_state \<Rightarrow> string" where
  "got F fd [] s = ''''"
| "got F fd ((e, c) # cs) s = piece_of fd c (fst (pstep F e c s)) @ got F fd cs (snd (pstep F e c s))"

section \<open>The modules' files\<close>

record proc_env =
  e_copy :: copy_from
  e_kstrtol :: strtol_kernel
  e_stack :: bytes
  e_ptr :: "nat \<Rightarrow> string"
  e_tasks :: task_table
  e_pages :: "nat \<Rightarrow> (nat \<Rightarrow> byte) option"
  e_populated :: "zone \<Rightarrow> bool"
  e_max_order :: nat
  e_nodes :: "nat \<Rightarrow> pg_data"
  e_first_node :: nat
  e_next_node :: "nat \<Rightarrow> nat"
  e_max_nodes :: nat

text \<open>\<open>zproc.c\<close>\<close>

record zproc_vars =
  zp_pid :: int
  zp_phys :: int

definition mminfo_proc_open :: "proc_env \<Rightarrow> zproc_vars \<Rightarrow> string option" where
  "mminfo_proc_open e g = Some (mminfo_show (e_ptr e) (e_tasks e) (zp_pid g))"

definition mminfo_proc_fops :: "(proc_env, zproc_vars) proc_fops" where
  "mminfo_proc_fops = \<lparr>po_show = mminfo_proc_open, po_write = Some (\<lambda>e g buf.
     case mminfo_write (e_copy e) (e_kstrtol e) (e_stack e) (zp_pid g) buf of (r, v) \<Rightarrow> (r, g\<lparr>zp_pid := v\<rparr>))\<rparr>"

definition phys_value_open :: "proc_env \<Rightarrow> zproc_vars \<Rightarrow> string option" where
  "phys_value_open e g = Some (phys_value_show (e_pages e) (zp_phys g))"

definition phys_proc_fops :: "(proc_env, zproc_vars) proc_fops" where
  "phys_proc_fops = \<lparr>po_show = phys_value_open, po_write = Some (\<lambda>e g buf.
     case phys_value_write (e_copy e) (e_kstrtol e) (e_stack e) (zp_phys g) buf of (r, v) \<Rightarrow> (r, g\<lparr>zp_phys := v\<rparr>))\<rparr>"

definition buddy_proc_open :: "proc_env \<Rightarrow> zproc_vars \<Rightarrow> string option" where
  "buddy_proc_open e g = Some (output_of (node0_show (e_populated e) (e_max_order e) (e_nodes e) (e_first_node e)))"

definition buddy_proc_fops :: "(proc_env, zproc_vars) proc_fops" where
  "buddy_proc_fops = \<lparr>po_show = buddy_proc_open, po_write = None\<rparr>"

definition zproc_dir :: "(proc_env, zproc_vars) proc_dir" where
  "zproc_dir = [''mminfo'' \<mapsto> mminfo_proc_fops, ''physvalue'' \<mapsto> phys_proc_fops, ''node0buddy'' \<mapsto> buddy_proc_fops]"

lemmas zproc_files_defs = zproc_dir_def mminfo_proc_fops_def mminfo_proc_open_def phys_proc_fops_def
  phys_value_open_def buddy_proc_fops_def

text \<open>\<open>cpu_affinity.c\<close>; its state is \<open>pid\<close>.\<close>

definition proc_get_open :: "proc_env \<Rightarrow> int \<Rightarrow> string option" where
  "proc_get_open e pid = proc_get_show (e_tasks e) pid"

definition proc_get_fops :: "(proc_env, int) proc_fops" where
  "proc_get_fops = \<lparr>po_show = proc_get_open, po_write = Some (\<lambda>e pid buf.
     proc_get_write (e_copy e) (e_kstrtol e) (e_stack e) pid buf)\<rparr>"

definition affinity_dir :: "(proc_env, int) proc_dir" where
  "affinity_dir = [''get'' \<mapsto> proc_get_fops]"

text \<open>\<open>node_zone_list.c\<close> has no state.\<close>

definition info_open :: "proc_env \<Rightarrow> unit \<Rightarrow> string option" where
  "info_open e g = map_option output_of
     (info_show (e_populated e) (e_nodes e) (e_next_node e) (e_max_nodes e) (e_first_node e))"

definition info_fops :: "(proc_env, unit) proc_fops" where
  "info_fops = \<lparr>po_show = info_open, po_write = None\<rparr>"

definition node_zone_dir :: "(proc_env, unit) proc_dir" where
  "node_zone_dir = [''info'' \<mapsto> info_fops]"

text \<open>The files with handlers are those that loading the modules creates.\<close>

definition created :: "ktrace \<Rightarrow> string set" where
  "created h = {name. \<exists>mode r. (ProcCreate name mode, r) \<in> set h}"

lemma files_created:
  "created (snd (run_state (zproc_init os) [])) = dom zproc_dir"
  "created (snd (run_state (affinity_init os) [])) = dom affinity_dir"
  "created (snd (run_state (node_zone_list_init os) [])) = dom node_zone_dir"
  by (auto simp: created_def zproc_init_def affinity_init_def node_zone_list_init_def zproc_dir_def affinity_dir_def
      node_zone_dir_def)

section \<open>A file delivers one text\<close>

text \<open>The calls that close \<open>fd\<close> or read it, and the number of bytes they ask for.\<close>

definition closes_fd :: "nat \<Rightarrow> 'e \<times> pcall \<Rightarrow> bool" where
  "closes_fd fd ec \<longleftrightarrow> snd ec = PClose fd"

definition size_read :: "nat \<Rightarrow> 'e \<times> pcall \<Rightarrow> nat" where
  "size_read fd ec = (case snd ec of PRead fd' n \<Rightarrow> if fd' = fd then n else 0 | _ \<Rightarrow> 0)"

definition reads_fd :: "nat \<Rightarrow> 'e \<times> pcall \<Rightarrow> bool" where
  "reads_fd fd ec = (case snd ec of PRead fd' n \<Rightarrow> fd' = fd | _ \<Rightarrow> False)"

definition asked :: "nat \<Rightarrow> ('e \<times> pcall) list \<Rightarrow> nat" where
  "asked fd cs = sum_list (map (size_read fd) cs)"

lemma after_append [simp]: "after F (as @ bs) s = after F bs (after F as s)"
  by (induction as arbitrary: s) auto

lemma got_append [simp]: "got F fd (as @ bs) s = got F fd as s @ got F fd bs (after F as s)"
  by (induction as arbitrary: s) auto

lemma open_files_deliver [simp]:
  "open_files (snd (deliver fd name n t s)) = (open_files s)(fd \<mapsto> (name, Text (drop n t)))"
  "vars (snd (deliver fd name n t s)) = vars s"
  "fst (deliver fd name n t s) = Piece (take n t)"
  by (simp_all add: deliver_def)

lemma open_files_other:
  assumes "open_files s fd = Some q" "c \<noteq> PClose fd" "\<And>n. c \<noteq> PRead fd n"
  shows "open_files (snd (pstep F e c s)) fd = Some q"
proof -
  obtain name q' where q: "q = (name, q')" by fastforce
  show ?thesis
  proof (cases c)
    case (PRead fd' n)
    with assms show ?thesis by (cases "fd' = fd") (auto split: option.split prod.split seq_file.split)
  qed (use assms in \<open>auto simp: q split: option.split prod.split\<close>)
qed

lemma other_file_kept:
  assumes "open_files s fd = Some q" "\<not> closes_fd fd (e, c)" "\<not> reads_fd fd (e, c)"
  shows "open_files (snd (pstep F e c s)) fd = Some q" "piece_of fd c a = ''''"
proof -
  have "c \<noteq> PClose fd" "c \<noteq> PRead fd n" for n
    using assms(2,3) by (auto simp: closes_fd_def reads_fd_def)
  then show "open_files (snd (pstep F e c s)) fd = Some q" by (intro open_files_other [OF assms(1)])
  show "piece_of fd c a = ''''"
    using assms(3) by (cases c; cases a) (simp_all add: reads_fd_def piece_of_def)
qed

lemma unread_kept:
  assumes "open_files s fd = Some (name, Unread)" "list_all (\<lambda>c. \<not> closes_fd fd c \<and> \<not> reads_fd fd c) cs"
  shows "open_files (after F cs s) fd = Some (name, Unread) \<and> got F fd cs s = ''''"
  using assms
proof (induction cs arbitrary: s)
  case (Cons ec cs)
  obtain e c where ec: "ec = (e, c)" by fastforce
  with Cons.prems have "open_files (snd (pstep F e c s)) fd = Some (name, Unread)" "piece_of fd c (fst (pstep F e c s)) = ''''"
    using other_file_kept [OF Cons.prems(1), of e c] by auto
  with Cons ec show ?case by simp
qed simp

lemma rest_delivered:
  assumes "open_files s fd = Some (name, Text t)" "list_all (\<lambda>c. \<not> closes_fd fd c) cs"
  shows "got F fd cs s = take (asked fd cs) t"
  using assms
proof (induction cs arbitrary: s t)
  case (Cons ec cs)
  obtain e c where ec: "ec = (e, c)" by fastforce
  show ?case
  proof (cases "reads_fd fd ec")
    case True
    then obtain n where c: "c = PRead fd n" by (cases c) (auto simp: ec reads_fd_def)
    have "got F fd cs (snd (pstep F e c s)) = take (asked fd cs) (drop n t)"
      using Cons.prems ec by (intro Cons.IH) (simp_all add: c deliver_def)
    then show ?thesis
      using Cons.prems(1) by (simp add: ec c deliver_def piece_of_def asked_def size_read_def take_add)
  next
    case False
    then have "size_read fd ec = 0" by (cases c) (auto simp: ec reads_fd_def size_read_def)
    moreover have "open_files (snd (pstep F e c s)) fd = Some (name, Text t)" "piece_of fd c (fst (pstep F e c s)) = ''''"
      using other_file_kept [OF Cons.prems(1), of e c] Cons.prems(2) False by (auto simp: ec)
    ultimately show ?thesis using Cons ec by (simp add: asked_def)
  qed
qed (simp add: asked_def)

lemma one_text:
  assumes "open_files s fd = Some (name, Unread)" "F name = Some f"
    and "list_all (\<lambda>c. \<not> closes_fd fd c \<and> \<not> reads_fd fd c) as" "list_all (\<lambda>c. \<not> closes_fd fd c) bs"
    and "po_show f e (vars (after F as s)) = Some t"
  shows "got F fd (as @ (e, PRead fd n) # bs) s = take (n + asked fd bs) t"
proof -
  note u = unread_kept [OF assms(1,3), of F]
  then have "pstep F e (PRead fd n) (after F as s) = deliver fd name n t (after F as s)"
    using assms(2,5) by simp
  then show ?thesis
    using u rest_delivered [of "snd (deliver fd name n t (after F as s))" fd name "drop n t" bs F] assms(4)
    by (simp add: deliver_def piece_of_def take_add)
qed

section \<open>The number a file was told\<close>

text \<open>The writes of a sequence that reach the file \<open>name\<close>, whoever does them.\<close>

definition write_of :: "string \<Rightarrow> 'g proc_state \<Rightarrow> 'e \<times> pcall \<Rightarrow> ('e \<times> bytes) list" where
  "write_of name s ec = (case snd ec of
     PWrite fd buf \<Rightarrow> (case open_files s fd of Some (n, q) \<Rightarrow> if n = name then [(fst ec, buf)] else [] | None \<Rightarrow> [])
   | _ \<Rightarrow> [])"

fun written_to :: "('e, 'g) proc_dir \<Rightarrow> string \<Rightarrow> ('e \<times> pcall) list \<Rightarrow> 'g proc_state \<Rightarrow> ('e \<times> bytes) list" where
  "written_to F name [] s = []"
| "written_to F name ((e, c) # cs) s = write_of name s (e, c) @ written_to F name cs (snd (pstep F e c s))"

text \<open>
  A file that shows a number of the module's state, which only writes to this file change.
\<close>

locale shown_number =
  fixes dir :: "('e, 'g) proc_dir"
    and name :: string
    and number :: "'g \<Rightarrow> int"
    and shown :: "'e \<Rightarrow> int \<Rightarrow> string option"
    and parse :: "'e \<Rightarrow> int \<Rightarrow> bytes \<Rightarrow> int"
  assumes the_file: "\<exists>f w. dir name = Some f \<and> po_write f = Some w \<and> (\<forall>e g. po_show f e g = shown e (number g)) \<and>
      (\<forall>e g buf. number (snd (w e g buf)) = parse e (number g) buf)"
    and others: "dir name' = Some f \<Longrightarrow> name' \<noteq> name \<Longrightarrow> po_write f = Some w \<Longrightarrow> number (snd (w e g buf)) = number g"
begin

lemma number_step:
  "number (vars (snd (pstep dir e c s))) = foldl (\<lambda>v (e, buf). parse e v buf) (number (vars s)) (write_of name s (e, c))"
proof (cases c)
  case (PWrite fd buf)
  show ?thesis
  proof (cases "open_files s fd")
    case (Some nq)
    obtain n q where nq: "nq = (n, q)" by fastforce
    show ?thesis
    proof (cases "n = name")
      case True
      with the_file Some nq show ?thesis
        by (auto simp: PWrite write_of_def split: prod.split) (metis snd_conv)
    next
      case False
      then have "number g = number (vars s)" if "dir n = Some f" "po_write f = Some w" "w e (vars s) buf = (r, g)" for f w r g
        using others [OF that(1) False that(2), of e "vars s" buf] that(3) by simp
      with Some nq False show ?thesis
        by (auto simp: PWrite write_of_def split: option.split prod.split)
    qed
  qed (simp add: PWrite write_of_def)
qed (auto simp: write_of_def split: option.split prod.split seq_file.split)

lemma number_after:
  "number (vars (after dir cs s)) = foldl (\<lambda>v (e, buf). parse e v buf) (number (vars s)) (written_to dir name cs s)"
proof (induction cs arbitrary: s)
  case (Cons ec cs)
  obtain e c where "ec = (e, c)" by fastforce
  with Cons number_step [of e c s] show ?case by simp
qed simp

lemma shows_number:
  assumes "open_files s fd = Some (name, Unread)"
    and "list_all (\<lambda>c. \<not> closes_fd fd c \<and> \<not> reads_fd fd c) as" "list_all (\<lambda>c. \<not> closes_fd fd c) bs"
    and "written_to dir name as s = ws @ [(e', buf)]" "\<And>v. parse e' v buf = w" "shown e w = Some t"
  shows "got dir fd (as @ (e, PRead fd n) # bs) s = take (n + asked fd bs) t"
proof -
  have "number (vars (after dir as s)) = w"
    unfolding number_after assms(4) using assms(5) by simp
  with the_file assms(6) obtain f where f: "dir name = Some f" "po_show f e (vars (after dir as s)) = Some t" by auto
  show ?thesis by (rule one_text [OF assms(1) f(1) assms(2,3) f(2)])
qed

end


interpretation physvalue_file: shown_number zproc_dir "''physvalue''" zp_phys
  "\<lambda>e v. Some (phys_value_show (e_pages e) v)" "\<lambda>e v buf. snd (phys_value_write (e_copy e) (e_kstrtol e) (e_stack e) v buf)"
  by unfold_locales (auto simp: zproc_files_defs split: prod.splits if_splits)

interpretation affinity_file: shown_number affinity_dir "''get''" id
  "\<lambda>e v. proc_get_show (e_tasks e) v" "\<lambda>e v buf. snd (proc_get_write (e_copy e) (e_kstrtol e) (e_stack e) v buf)"
  by unfold_locales (auto simp: affinity_dir_def proc_get_fops_def proc_get_open_def)


text \<open>The same of the other two number files.\<close>

theorem physvalue_shows_last_written:
  assumes "open_files s fd = Some (''physvalue'', Unread)"
    and "list_all (\<lambda>c. \<not> closes_fd fd c \<and> \<not> reads_fd fd c) as" "list_all (\<lambda>c. \<not> closes_fd fd c) bs"
    and "written_to zproc_dir ''physvalue'' as s = ws @ [(ew, of_cstr t)]"
    and "length t < 32" "CHR 0x00 \<notin> set t" "e_kstrtol ew t 16 = Some v" "e_copy ew = full_copy_in"
  shows "got zproc_dir fd (as @ (e, PRead fd n) # bs) s = take (n + asked fd bs) (phys_value_show (e_pages e) v)"
  by (rule physvalue_file.shows_number [OF assms(1-4)])
    (simp_all add: assms(7,8) phys.write_short_text [OF assms(5,6)])

theorem affinity_shows_last_written:
  assumes "open_files s fd = Some (''get'', Unread)"
    and "list_all (\<lambda>c. \<not> closes_fd fd c \<and> \<not> reads_fd fd c) as" "list_all (\<lambda>c. \<not> closes_fd fd c) bs"
    and "written_to affinity_dir ''get'' as s = ws @ [(ew, of_cstr t)]"
    and "length t < 32" "CHR 0x00 \<notin> set t" "e_kstrtol ew t 10 = Some v" "e_copy ew = full_copy_in"
    and "proc_get_show (e_tasks e) v = Some report"
  shows "got affinity_dir fd (as @ (e, PRead fd n) # bs) s = take (n + asked fd bs) report"
  by (rule affinity_file.shows_number [OF assms(1-4) _ assms(9)])
    (simp add: assms(7,8) affinity.write_short_text [OF assms(5,6)])

text \<open>The two listings cannot be written: such a call is refused and changes nothing.\<close>

theorem listings_read_only:
  "open_files s fd = Some (''node0buddy'', q) \<Longrightarrow> pstep zproc_dir e (PWrite fd buf) s = (Count (- 5), s)"
  "open_files s' fd = Some (''info'', q) \<Longrightarrow> pstep node_zone_dir e (PWrite fd buf) s' = (Count (- 5), s')"
  by (simp_all add: zproc_dir_def buddy_proc_fops_def node_zone_dir_def info_fops_def)



end
