(* ===== verification/Zpage.thy ===== *)
theory Zpage
  imports ModuleIface CLib
begin

text \<open>
  The \<open>zpage\<close> driver (\<open>src/kernel/linux_memory/user_task_page/zpage.c\<close>, \<open>zpage.h\<close>): it walks the
  page tables of another task and hands what it finds to user space through one shared page.

  The device state is the shared page \<open>mmap_data\<close> and physical memory, which \<open>ZPAGE_GET_PID_ADDR\<close>
  changes.  A page is its frame number; \<open>kmap\<close> gives the frame's place in the linear mapping of a
  64-bit kernel, so an access behind the end of the frame reaches the next frame.  An access
  outside \<open>mmap_data\<close> or through a null pointer is a \<open>kfault\<close>.  Arguments of the model are the
  task table and user memory.
\<close>

section \<open>The interface header\<close>

text \<open>The numbers that \<open>_IO\<close> and \<open>_IOW\<close> make; \<open>'z'\<close> is 122, the structs are 16 and 24 bytes.\<close>

definition ioc_none :: "nat \<Rightarrow> nat \<Rightarrow> nat" where
  "ioc_none ty nr = ty * 2 ^ 8 + nr"

definition ioc_w :: "nat \<Rightarrow> nat \<Rightarrow> nat \<Rightarrow> nat" where
  "ioc_w ty nr sz = 2 ^ 30 + sz * 2 ^ 16 + ty * 2 ^ 8 + nr"

definition MMAP_LEN :: nat where "MMAP_LEN = 4096"

record zpage_region =
  zr_pid :: nat
  zr_addr :: u64

record zpage_addr_region =
  za_pid :: nat
  za_start :: u64
  za_end :: u64

definition ZPAGE_GET_PID_ADDR :: nat where "ZPAGE_GET_PID_ADDR = ioc_w 122 16 16"
definition ZPAGE_GET_MM_INFO :: nat where "ZPAGE_GET_MM_INFO = ioc_none 122 17"
definition ZPAGE_GET_VMA_INFO :: nat where "ZPAGE_GET_VMA_INFO = ioc_none 122 18"
definition ZPAGE_GET_PID_ARGS :: nat where "ZPAGE_GET_PID_ARGS = ioc_none 122 19"
definition ZPAGE_GET_PID_DATA :: nat where "ZPAGE_GET_PID_DATA = ioc_none 122 20"
definition ZPAGE_GET_ADDR_REGION :: nat where "ZPAGE_GET_ADDR_REGION = ioc_w 122 21 24"

lemmas zpage_cmds = ZPAGE_GET_PID_ADDR_def ZPAGE_GET_MM_INFO_def ZPAGE_GET_VMA_INFO_def
  ZPAGE_GET_PID_ARGS_def ZPAGE_GET_PID_DATA_def ZPAGE_GET_ADDR_REGION_def ioc_none_def ioc_w_def

text \<open>The structs in user memory, padded to the alignment of their 64-bit members.\<close>

definition decode_region :: "bytes \<Rightarrow> zpage_region" where
  "decode_region bs = \<lparr>zr_pid = le_nat (take 4 bs), zr_addr = of_nat (le_nat (take 8 (drop 8 bs)))\<rparr>"

definition decode_addr_region :: "bytes \<Rightarrow> zpage_addr_region" where
  "decode_addr_region bs = \<lparr>za_pid = le_nat (take 4 bs), za_start = of_nat (le_nat (take 8 (drop 8 bs))),
     za_end = of_nat (le_nat (take 8 (drop 16 bs)))\<rparr>"

section \<open>Tasks and page tables\<close>

text \<open>
  One level of a page table: the entry that \<open>*_offset\<close> selects for an address, empty, bad, or
  leading to the next level.  \<open>pte_offset_map\<close> may give a null pointer.  \<open>pte_page\<close> is the frame
  number in the entry, whether or not the page is present.
\<close>

datatype 'a entry = NoEntry | BadEntry | Entry 'a

record pte =
  pte_pfn :: nat
  pte_present :: bool

type_synonym pmd_level = "u64 \<Rightarrow> (u64 \<Rightarrow> pte option) entry"
type_synonym pud_level = "u64 \<Rightarrow> pmd_level entry"
type_synonym pgd_level = "u64 \<Rightarrow> pud_level entry"

record zvma =
  vm_start :: u64
  vm_end :: u64

record zmm =
  zmm_start_stack :: u64
  start_code :: u64
  end_code :: u64
  start_data :: u64
  end_data :: u64
  zmm_total_vm :: u64
  arg_start :: u64
  arg_end :: u64
  zmm_map_count :: u32
  vmas :: "zvma list"
  pgd_offset :: pgd_level

record ztask =
  task_mm :: "zmm option"

type_synonym ztasks = "int \<Rightarrow> ztask option"

datatype kfault = OutOfBounds | NullDeref

definition walk_task_page :: "zmm \<Rightarrow> u64 \<Rightarrow> nat option" where
  "walk_task_page mm addr =
     (case pgd_offset mm addr of
        Entry pud_offset \<Rightarrow>
          (case pud_offset addr of
             Entry pmd_offset \<Rightarrow>
               (case pmd_offset addr of
                  Entry pte_offset \<Rightarrow> map_option pte_pfn (pte_offset addr)
                | _ \<Rightarrow> None)
           | _ \<Rightarrow> None)
      | _ \<Rightarrow> None)"

type_synonym physmem = "nat \<Rightarrow> byte"

definition zkmap :: "nat \<Rightarrow> nat" where
  "zkmap page = page * 4096"

definition page_offset :: "u64 \<Rightarrow> nat" where
  "page_offset addr = unat (addr AND (4096 - 1))"

section \<open>Writing into the shared page\<close>

text \<open>
  \<open>mmap_data\<close> is its bytes; the empty list is the null pointer of a \<open>kzalloc\<close> that failed, which
  \<open>my_init\<close> does not check.  The kernel's \<open>snprintf(buf + r, size, s)\<close> refuses a size beyond
  \<open>INT_MAX\<close> with result 0 (a \<open>MMAP_LEN - r\<close> below zero is converted to such a size), writes nothing
  for size 0, and otherwise stores what fits with a terminating zero; its result is the length of
  the whole text.
\<close>

definition ksnprintf :: "bytes \<Rightarrow> nat \<Rightarrow> int \<Rightarrow> string \<Rightarrow> kfault + (nat \<times> bytes)" where
  "ksnprintf buf off sz s =
     (let n = c_ulong sz in
      if 2 ^ 31 \<le> n then Inr (0, buf)
      else if n = 0 then Inr (length s, buf)
      else (let out = of_cstr (take (n - 1) s) @ [0] in
            if off + length out \<le> length buf then Inr (length s, patch buf off out)
            else Inl OutOfBounds))"

definition store_byte :: "bytes \<Rightarrow> nat \<Rightarrow> byte \<Rightarrow> kfault + bytes" where
  "store_byte buf i b = (if i < length buf then Inr (buf[i := b]) else Inl OutOfBounds)"

text \<open>The statement \<open>r += snprintf(buf + r, MMAP_LEN - r, s)\<close>, and a sequence of these.\<close>

definition print_line :: "nat \<times> bytes \<Rightarrow> string \<Rightarrow> kfault + (nat \<times> bytes)" where
  "print_line rb s =
     (case ksnprintf (snd rb) (fst rb) (int MMAP_LEN - int (fst rb)) s of
        Inl e \<Rightarrow> Inl e
      | Inr (n, buf) \<Rightarrow> Inr (fst rb + n, buf))"

fun print_lines :: "nat \<times> bytes \<Rightarrow> string list \<Rightarrow> kfault + (nat \<times> bytes)" where
  "print_lines rb [] = Inr rb"
| "print_lines rb (s # ss) = (case print_line rb s of Inl e \<Rightarrow> Inl e | Inr rb' \<Rightarrow> print_lines rb' ss)"

text \<open>The statement \<open>*(char *)(buf + r) = '\0'\<close> that ends each text.\<close>

definition end_text :: "kfault + (nat \<times> bytes) \<Rightarrow> kfault + (nat \<times> bytes)" where
  "end_text res =
     (case res of Inl e \<Rightarrow> Inl e
      | Inr (r, buf) \<Rightarrow> (case store_byte buf r 0 of Inl e \<Rightarrow> Inl e | Inr buf' \<Rightarrow> Inr (r, buf')))"

section \<open>The tasks' memory\<close>

text \<open>
  \<open>for (i = 0; i <= arg_end - arg_start; i++)\<close>: the bound is unsigned.  The argument area of a task
  is far below 2 GiB, so \<open>i\<close> stays an \<open>int\<close>.
\<close>

fun args_loop :: "physmem \<Rightarrow> nat \<Rightarrow> nat \<Rightarrow> nat \<Rightarrow> nat \<times> bytes \<Rightarrow> kfault + (nat \<times> bytes)" where
  "args_loop phys p i 0 rb = Inr rb"
| "args_loop phys p i (Suc n) rb =
     (case print_line rb (''0x'' @ fmt_x (unat (phys (p + i))) @ '' '') of
        Inl e \<Rightarrow> Inl e
      | Inr rb' \<Rightarrow> args_loop phys p (Suc i) n rb')"

definition task_get_args :: "physmem \<Rightarrow> ztask \<Rightarrow> bytes \<Rightarrow> kfault + (nat \<times> bytes)" where
  "task_get_args phys task buf =
     (case task_mm task of
        None \<Rightarrow> Inl NullDeref
      | Some mm \<Rightarrow>
          (case walk_task_page mm (arg_start mm) of
             None \<Rightarrow> Inl NullDeref
           | Some page \<Rightarrow>
               end_text (args_loop phys (zkmap page + page_offset (arg_start mm)) 0
                 (Suc (unat (arg_end mm - arg_start mm))) (0, buf))))"

text \<open>\<open>*(char *)(buf + i) = *(char *)(p + offset + i)\<close>, \<open>n\<close> times from \<open>i\<close> on.\<close>

fun copy_loop :: "physmem \<Rightarrow> nat \<Rightarrow> nat \<Rightarrow> nat \<Rightarrow> bytes \<Rightarrow> kfault + bytes" where
  "copy_loop phys p i 0 buf = Inr buf"
| "copy_loop phys p i (Suc n) buf =
     (case store_byte buf i (phys (p + i)) of
        Inl e \<Rightarrow> Inl e
      | Inr buf' \<Rightarrow> copy_loop phys p (Suc i) n buf')"

definition task_get_data :: "physmem \<Rightarrow> ztask \<Rightarrow> bytes \<Rightarrow> kfault + (int \<times> bytes)" where
  "task_get_data phys task buf =
     (case task_mm task of
        None \<Rightarrow> Inl NullDeref
      | Some mm \<Rightarrow>
          (let r = c_int (uint (end_data mm - start_data mm)) in
           case walk_task_page mm (start_data mm) of
             None \<Rightarrow> Inl NullDeref
           | Some page \<Rightarrow>
               (case copy_loop phys (zkmap page + page_offset (start_data mm)) 0 (nat r) buf of
                  Inl e \<Rightarrow> Inl e
                | Inr buf' \<Rightarrow> Inr (r, buf'))))"

definition task_get_addr_region ::
  "physmem \<Rightarrow> ztask \<Rightarrow> bytes \<Rightarrow> u64 \<Rightarrow> u64 \<Rightarrow> kfault + (int \<times> bytes)" where
  "task_get_addr_region phys task buf start en =
     (case task_mm task of
        None \<Rightarrow> Inl NullDeref
      | Some mm \<Rightarrow>
          (let r = c_int (uint (en - start)) in
           case walk_task_page mm start of
             None \<Rightarrow> Inl NullDeref
           | Some page \<Rightarrow>
               (case copy_loop phys (zkmap page + page_offset start) 0 (nat (r + 1)) buf of
                  Inl e \<Rightarrow> Inl e
                | Inr buf' \<Rightarrow> Inr (r, buf'))))"

section \<open>The file operations\<close>

record zdev =
  mmap_data :: bytes
  zphys :: physmem

definition zpage_open :: "zdev \<Rightarrow> int \<times> zdev" where
  "zpage_open d = (0, d)"

definition zpage_close :: "zdev \<Rightarrow> int \<times> zdev" where
  "zpage_close d = (0, d)"

text \<open>
  \<open>remap\<close> is the result of \<open>remap_pfn_range\<close>; the second result is the range mapped into the
  caller: user address, frame, length.  \<open>frame\<close> is the frame of \<open>mmap_data\<close>.
\<close>

definition zpage_mmap :: "(u64 \<Rightarrow> nat \<Rightarrow> nat \<Rightarrow> int) \<Rightarrow> nat \<Rightarrow> zvma \<Rightarrow> int \<times> (u64 \<times> nat \<times> nat) option" where
  "zpage_mmap remap frame vma =
     (let start = vm_start vma; size = unat (vm_end vma - vm_start vma) in
      if MMAP_LEN < size then (- 22, None)
      else if remap start frame MMAP_LEN \<noteq> 0 then (- 11, None)
      else (0, Some (start, frame, MMAP_LEN)))"

definition mm_info_lines :: "zmm \<Rightarrow> string list" where
  "mm_info_lines mm =
     [''start_stack:0x'' @ fmt_x (unat (zmm_start_stack mm)) @ [CHR 0x0A],
      ''start_code:0x'' @ fmt_x (unat (start_code mm)) @ '' end_code:0x'' @ fmt_x (unat (end_code mm)) @ [CHR 0x0A],
      ''start_data:0x'' @ fmt_x (unat (start_data mm)) @ '' end_data:0x'' @ fmt_x (unat (end_data mm)) @ [CHR 0x0A],
      ''total_vm:'' @ fmt_u (unat (zmm_total_vm mm)) @ '' arg_start:0x'' @ fmt_x (unat (arg_start mm)) @
      '' arg_end:0x'' @ fmt_x (unat (arg_end mm)) @ [CHR 0x0A]]"

definition get_mm_info :: "ztask \<Rightarrow> bytes \<Rightarrow> kfault + (nat \<times> bytes)" where
  "get_mm_info task buf =
     (case task_mm task of
        None \<Rightarrow> Inl NullDeref
      | Some mm \<Rightarrow> end_text (print_lines (0, buf) (mm_info_lines mm)))"

fun vma_loop :: "zvma list \<Rightarrow> nat \<times> bytes \<Rightarrow> kfault + (nat \<times> bytes)" where
  "vma_loop [] rb = Inr rb"
| "vma_loop (vma # vs) rb =
     (case print_line rb (''vma start:0x'' @ fmt_x (unat (vm_start vma)) @ '' end:0x'' @
         fmt_x (unat (vm_end vma)) @ [CHR 0x0A]) of
        Inl e \<Rightarrow> Inl e
      | Inr rb' \<Rightarrow> vma_loop vs rb')"

definition get_vma_info :: "ztask \<Rightarrow> bytes \<Rightarrow> kfault + (nat \<times> bytes)" where
  "get_vma_info task buf =
     (case task_mm task of
        None \<Rightarrow> Inl NullDeref
      | Some mm \<Rightarrow>
          end_text (case print_line (0, buf) (''map_count:'' @ fmt_d (sint (zmm_map_count mm)) @ [CHR 0x0A]) of
              Inl e \<Rightarrow> Inl e
            | Inr rb \<Rightarrow> vma_loop (vmas mm) rb))"

text \<open>
  \<open>ZPAGE_GET_PID_ADDR\<close> reads the \<open>int\<close> at the address and replaces it by a constant.
\<close>

definition load_int :: "physmem \<Rightarrow> nat \<Rightarrow> int" where
  "load_int phys a = c_int (int (le_nat (map phys [a..<a + 4])))"

definition store_int :: "physmem \<Rightarrow> nat \<Rightarrow> nat \<Rightarrow> physmem" where
  "store_int phys a v = (\<lambda>x. if a \<le> x \<and> x < a + 4 then of_nat (v div 256 ^ (x - a)) else phys x)"

definition get_pid_addr :: "physmem \<Rightarrow> ztask option \<Rightarrow> u64 \<Rightarrow> kfault + (int \<times> physmem)" where
  "get_pid_addr phys task addr =
     (case task of None \<Rightarrow> Inl NullDeref
      | Some t \<Rightarrow>
        (case task_mm t of None \<Rightarrow> Inl NullDeref
         | Some mm \<Rightarrow>
           (case walk_task_page mm addr of None \<Rightarrow> Inl NullDeref
            | Some page \<Rightarrow>
                (let a = zkmap page + page_offset addr
                 in Inr (load_int phys a, store_int phys a 0x12345678)))))"

text \<open>
  The handler.  \<open>user a n\<close> is \<open>copy_from_user\<close> of \<open>n\<close> bytes at \<open>a\<close>, \<open>None\<close> when it faults;
  \<open>find_vpid\<close> takes an \<open>int\<close>.
\<close>

definition with_text :: "zdev \<Rightarrow> kfault + (nat \<times> bytes) \<Rightarrow> kfault + (int \<times> zdev)" where
  "with_text d res = (case res of Inl e \<Rightarrow> Inl e | Inr (r, buf) \<Rightarrow> Inr (int r, d\<lparr>mmap_data := buf\<rparr>))"

definition with_copy :: "zdev \<Rightarrow> kfault + (int \<times> bytes) \<Rightarrow> kfault + (int \<times> zdev)" where
  "with_copy d res = (case res of Inl e \<Rightarrow> Inl e | Inr (r, buf) \<Rightarrow> Inr (r, d\<lparr>mmap_data := buf\<rparr>))"

definition zpage_ioctl ::
  "ztasks \<Rightarrow> (nat \<Rightarrow> nat \<Rightarrow> bytes option) \<Rightarrow> zdev \<Rightarrow> nat \<Rightarrow> nat \<Rightarrow> kfault + (int \<times> zdev)" where
  "zpage_ioctl tasks user d cmd arg =
     (let pid_task = (\<lambda>n. tasks (c_int (int n))) in
      if cmd = ZPAGE_GET_MM_INFO then
        (case pid_task arg of None \<Rightarrow> Inr (- 14, d)
         | Some task \<Rightarrow> with_text d (get_mm_info task (mmap_data d)))
      else if cmd = ZPAGE_GET_VMA_INFO then
        (case pid_task arg of None \<Rightarrow> Inr (- 14, d)
         | Some task \<Rightarrow> with_text d (get_vma_info task (mmap_data d)))
      else if cmd = ZPAGE_GET_PID_ARGS then
        (case pid_task arg of None \<Rightarrow> Inr (- 14, d)
         | Some task \<Rightarrow> with_text d (task_get_args (zphys d) task (mmap_data d)))
      else if cmd = ZPAGE_GET_PID_DATA then
        (case pid_task arg of None \<Rightarrow> Inl NullDeref
         | Some task \<Rightarrow> with_copy d (task_get_data (zphys d) task (mmap_data d)))
      else if cmd = ZPAGE_GET_ADDR_REGION then
        (case user arg 24 of None \<Rightarrow> Inr (- 14, d)
         | Some bs \<Rightarrow>
           (let reg = decode_addr_region bs in
            case pid_task (za_pid reg) of None \<Rightarrow> Inl NullDeref
            | Some task \<Rightarrow>
                with_copy d (task_get_addr_region (zphys d) task (mmap_data d) (za_start reg) (za_end reg))))
      else if cmd = ZPAGE_GET_PID_ADDR then
        (case user arg 16 of None \<Rightarrow> Inr (- 14, d)
         | Some bs \<Rightarrow>
           (let reg = decode_region bs in
            case get_pid_addr (zphys d) (pid_task (zr_pid reg)) (zr_addr reg) of
              Inl e \<Rightarrow> Inl e
            | Inr (r, phys) \<Rightarrow> Inr (r, d\<lparr>zphys := phys\<rparr>)))
      else Inr (- 14, d))"

section \<open>Texts in the shared page\<close>

lemma print_line_room:
  assumes "r < 4096" "length buf = 4096"
  shows "print_line (r, buf) s = Inr (r + length s, patch buf r (of_cstr (take (4095 - r) s) @ [0]))"
proof -
  have "c_ulong (4096 - int r) = 4096 - r" using assms(1) by (simp add: nat_diff_distrib)
  moreover have "r + (min (length s) (4095 - r) + 1) \<le> 4096" "\<not> 2 ^ 31 \<le> 4096 - r" using assms(1) by simp_all
  ultimately show ?thesis
    using assms by (simp add: print_line_def ksnprintf_def MMAP_LEN_def Let_def of_cstr_def)
qed

lemma print_line_no_room:
  assumes "4096 \<le> r" "r \<le> 8192"
  shows "print_line (r, buf) s = Inr (if r = 4096 then r + length s else r, buf)"
proof (cases "r = 4096")
  case False
  have "(4096 - int r) mod 2 ^ 64 = 2 ^ 64 + 4096 - int r"
    using assms False by (intro int_mod_pos_eq [of _ _ "- 1"]) auto
  then have "2 ^ 31 \<le> c_ulong (4096 - int r)" using assms by (simp add: c_ulong_def)
  then show ?thesis
    using False by (simp add: print_line_def ksnprintf_def MMAP_LEN_def Let_def)
qed (simp add: print_line_def ksnprintf_def MMAP_LEN_def)

text \<open>A text that fits is in the buffer from \<open>r\<close> on.\<close>

lemma print_lines_fit:
  assumes "length buf = 4096" "r + length (concat ss) < 4096"
  shows "\<exists>buf'. print_lines (r, buf) ss = Inr (r + length (concat ss), buf') \<and> length buf' = 4096 \<and>
    take (r + length (concat ss)) buf' = take r buf @ of_cstr (concat ss)"
  using assms
proof (induction ss arbitrary: r buf)
  case (Cons s ss)
  let ?b = "patch buf r (of_cstr s @ [0])"
  have len: "length (of_cstr s) = length s" by (simp add: of_cstr_def)
  have fit: "r + length (of_cstr s @ [0]) \<le> length buf" using Cons.prems len by simp
  have pl: "print_line (r, buf) s = Inr (r + length s, ?b)"
    using Cons.prems by (subst print_line_room) simp_all
  have b: "length ?b = 4096" using fit Cons.prems(1) by simp
  have t: "take (r + length s) ?b = take r buf @ of_cstr s"
    using fit Cons.prems(1) by (simp add: patch_def len min_def)
  obtain buf' where "print_lines (r + length s, ?b) ss = Inr (r + length s + length (concat ss), buf')"
    "length buf' = 4096"
    "take (r + length s + length (concat ss)) buf' = take (r + length s) ?b @ of_cstr (concat ss)"
    using Cons.IH [OF b, of "r + length s"] Cons.prems by auto
  with pl t show ?case by (auto simp: of_cstr_def add.assoc)
qed (simp add: of_cstr_def)

lemma print_lines_past:
  "4096 < r \<Longrightarrow> r \<le> 8192 \<Longrightarrow> print_lines (r, buf) ss = Inr (r, buf)"
  by (induction ss) (simp_all add: print_line_no_room)

lemma print_lines_overflow:
  assumes "length buf = 4096" "r \<le> 4096" "4096 \<le> r + length (concat ss)" "\<forall>s\<in>set ss. length s < 4096"
  shows "\<exists>r' buf'. print_lines (r, buf) ss = Inr (r', buf') \<and> length buf' = 4096 \<and> 4096 \<le> r'"
  using assms
proof (induction ss arbitrary: r buf)
  case (Cons s ss)
  have s: "length s < 4096" using Cons.prems by simp
  obtain buf1 where p: "print_line (r, buf) s = Inr (r + length s, buf1)" "length buf1 = 4096"
  proof (cases "r < 4096")
    case True
    with Cons.prems(1) that show ?thesis by (simp add: print_line_room of_cstr_def)
  next
    case False
    with Cons.prems(1,2) that show ?thesis by (simp add: print_line_no_room)
  qed
  show ?case
  proof (cases "r + length s \<le> 4096")
    case True
    with p Cons.prems Cons.IH [of buf1 "r + length s"] show ?thesis by (simp add: add.assoc)
  next
    case False
    with p s Cons.prems(2) show ?thesis by (simp add: print_lines_past)
  qed
qed simp

text \<open>
  The contract of the three commands that answer with a text: \<open>lines\<close> is the text, line by line,
  \<open>None\<close> when a page of the task is missing.
\<close>

locale text_command =
  fixes cmd :: "physmem \<Rightarrow> ztask \<Rightarrow> bytes \<Rightarrow> kfault + (nat \<times> bytes)"
    and text_lines :: "physmem \<Rightarrow> zmm \<Rightarrow> string list option"
  assumes runs: "task_mm t = Some mm \<Longrightarrow> text_lines phys mm = Some ls \<Longrightarrow>
      cmd phys t buf = end_text (print_lines (0, buf) ls)"
    and short: "text_lines phys mm = Some ls \<Longrightarrow> s \<in> set ls \<Longrightarrow> length s < 4096"
    and no_nul: "text_lines phys mm = Some ls \<Longrightarrow> s \<in> set ls \<Longrightarrow> CHR 0x00 \<notin> set s"
begin

lemma fits:
  assumes "length buf = 4096" "task_mm t = Some mm" "text_lines phys mm = Some ls"
    and "length (concat ls) < 4096"
  shows "\<exists>buf'. cmd phys t buf = Inr (length (concat ls), buf') \<and> length buf' = 4096 \<and> cstr buf' = concat ls"
proof -
  let ?n = "length (concat ls)"
  obtain buf' where b: "print_lines (0, buf) ls = Inr (?n, buf')" "length buf' = 4096"
    "take ?n buf' = of_cstr (concat ls)"
    using print_lines_fit [of buf 0 ls] assms(1,4) by auto
  have "buf'[?n := 0] = take ?n buf' @ 0 # drop (Suc ?n) buf'"
    using b(2) assms(4) by (simp add: upd_conv_take_nth_drop)
  moreover have "CHR 0x00 \<notin> set (concat ls)" using no_nul [OF assms(3)] by auto
  ultimately have "cstr (buf'[?n := 0]) = concat ls" by (simp add: b(3) cstr_of_cstr_nul)
  with b assms show ?thesis by (simp add: runs end_text_def store_byte_def)
qed

lemma overflows:
  assumes "length buf = 4096" "task_mm t = Some mm" "text_lines phys mm = Some ls"
    and "4096 \<le> length (concat ls)"
  shows "cmd phys t buf = Inl OutOfBounds"
proof -
  obtain r' buf' where "print_lines (0, buf) ls = Inr (r', buf')" "length buf' = 4096" "4096 \<le> r'"
    using print_lines_overflow [of buf 0 ls] assms short [OF assms(3)] by auto
  with assms show ?thesis by (simp add: runs end_text_def store_byte_def)
qed

end

text \<open>The three commands keep the contract.\<close>

definition vma_line :: "zvma \<Rightarrow> string" where
  "vma_line vma = ''vma start:0x'' @ fmt_x (unat (vm_start vma)) @ '' end:0x'' @
     fmt_x (unat (vm_end vma)) @ [CHR 0x0A]"

definition vma_info_lines :: "zmm \<Rightarrow> string list" where
  "vma_info_lines mm =
     (''map_count:'' @ fmt_d (sint (zmm_map_count mm)) @ [CHR 0x0A]) # map vma_line (vmas mm)"

definition args_lines :: "physmem \<Rightarrow> zmm \<Rightarrow> string list option" where
  "args_lines phys mm = map_option
     (\<lambda>page. map (\<lambda>i. ''0x'' @ fmt_x (unat (phys (zkmap page + page_offset (arg_start mm) + i))) @ '' '')
       [0..<Suc (unat (arg_end mm - arg_start mm))])
     (walk_task_page mm (arg_start mm))"

lemma vma_loop_lines: "vma_loop vs rb = print_lines rb (map vma_line vs)"
  by (induction vs arbitrary: rb) (simp_all add: vma_line_def split: sum.split)

lemma args_loop_lines:
  "args_loop phys p i n rb =
   print_lines rb (map (\<lambda>i. ''0x'' @ fmt_x (unat (phys (p + i))) @ '' '') [i..<i + n])"
proof (induction n arbitrary: i rb)
  case (Suc n)
  have "[i..<i + Suc n] = i # [Suc i..<Suc i + n]" by (simp add: upt_conv_Cons)
  then show ?case by (simp add: Suc.IH split: sum.split)
qed simp

lemma length_fmt_x_u64: "length (fmt_x (unat (w :: u64))) \<le> 16"
  using unsigned_less [of w] by (intro length_fmt_x) simp_all

lemma length_fmt_x_byte: "length (fmt_x (unat (w :: byte))) \<le> 2"
  using unsigned_less [of w] by (intro length_fmt_x) simp_all

lemma length_fmt_u_u64: "length (fmt_u (unat (w :: u64))) \<le> 20"
proof -
  have "unat w < 2 ^ 64" by (rule u64_less)
  then have "unat w < 10 ^ 20" by simp
  then show ?thesis by (rule length_fmt_u) simp
qed

lemma length_fmt_d_u32: "length (fmt_d (sint (w :: u32))) \<le> 11"
proof -
  have "- (2 ^ 31) \<le> sint w" "sint w < 2 ^ 31"
    using sint_range_size [of w] by (simp_all add: word_size)
  then have "nat (- sint w) < 10 ^ 10" "nat (sint w) < 10 ^ 10" by simp_all
  then have "length (fmt_u (nat (- sint w))) \<le> 10" "length (fmt_u (nat (sint w))) \<le> 10"
    by (intro length_fmt_u; simp)+
  then show ?thesis by (simp add: fmt_d_def)
qed

lemma mm_info_line_short: "s \<in> set (mm_info_lines mm) \<Longrightarrow> length s < 128"
  using length_fmt_x_u64 [of "zmm_start_stack mm"] length_fmt_x_u64 [of "start_code mm"]
    length_fmt_x_u64 [of "end_code mm"] length_fmt_x_u64 [of "start_data mm"] length_fmt_x_u64 [of "end_data mm"]
    length_fmt_x_u64 [of "arg_start mm"] length_fmt_x_u64 [of "arg_end mm"] length_fmt_u_u64 [of "zmm_total_vm mm"]
  by (auto simp: mm_info_lines_def)

lemma vma_line_short: "length (vma_line v) < 128"
  using length_fmt_x_u64 [of "vm_start v"] length_fmt_x_u64 [of "vm_end v"] by (simp add: vma_line_def)

lemma map_count_line_short: "length (''map_count:'' @ fmt_d (sint (w :: u32)) @ [CHR 0x0A]) < 128"
  using length_fmt_d_u32 [of w] by simp

interpretation mm_info: text_command "\<lambda>phys. get_mm_info" "\<lambda>phys mm. Some (mm_info_lines mm)"
proof unfold_locales
  fix mm ls s assume "Some (mm_info_lines mm) = Some ls" "s \<in> set ls"
  then show "length s < 4096" using mm_info_line_short [of s mm] by simp
next
  fix mm ls s assume "Some (mm_info_lines mm) = Some ls" "s \<in> set ls"
  then show "CHR 0x00 \<notin> set s" by (auto simp: mm_info_lines_def)
qed (simp add: get_mm_info_def)

interpretation vma_info: text_command "\<lambda>phys. get_vma_info" "\<lambda>phys mm. Some (vma_info_lines mm)"
proof unfold_locales
  fix mm ls s assume "Some (vma_info_lines mm) = Some ls" "s \<in> set ls"
  then show "length s < 4096"
    using vma_line_short map_count_line_short [of "zmm_map_count mm"]
    by (fastforce simp: vma_info_lines_def intro: less_trans)
next
  fix mm ls s assume "Some (vma_info_lines mm) = Some ls" "s \<in> set ls"
  then show "CHR 0x00 \<notin> set s" by (auto simp: vma_info_lines_def vma_line_def)
qed (auto simp: get_vma_info_def vma_info_lines_def vma_loop_lines split: sum.split)

interpretation pid_args: text_command task_get_args args_lines
proof unfold_locales
  fix phys mm ls s assume "args_lines phys mm = Some ls" "s \<in> set ls"
  then obtain a where "s = ''0x'' @ fmt_x (unat (phys a)) @ '' ''" by (auto simp: args_lines_def)
  then show "length s < 4096" using length_fmt_x_byte [of "phys a"] by simp
next
  fix phys mm ls s assume "args_lines phys mm = Some ls" "s \<in> set ls"
  then show "CHR 0x00 \<notin> set s" by (auto simp: args_lines_def)
qed (auto simp: task_get_args_def args_lines_def args_loop_lines simp del: args_loop.simps upt_Suc)

section \<open>Loading and unloading\<close>

definition zpage_init :: "kernel \<Rightarrow> int kprog" where
  "zpage_init os =
     do {
       _ \<leftarrow> call os (Printk ''zpage init'');
       _ \<leftarrow> call os (MiscRegister ''zpage'');
       _ \<leftarrow> call os (Kzalloc MMAP_LEN);
       State_Monad.return 0
     }"

definition zpage_exit :: "kernel \<Rightarrow> unit kprog" where
  "zpage_exit os =
     do {
       _ \<leftarrow> call os (Printk ''zpage exit'');
       _ \<leftarrow> call os MiscDeregister;
       State_Monad.return ()
     }"

section \<open>Copies into the shared page\<close>

lemma copy_loop_patch:
  "i + n \<le> length buf \<Longrightarrow> copy_loop phys p i n buf = Inr (patch buf i (map phys [p + i..<p + i + n]))"
proof (induction n arbitrary: i buf)
  case (Suc n)
  let ?b = "buf[i := phys (p + i)]"
  have "copy_loop phys p (Suc i) n ?b = Inr (patch ?b (Suc i) (map phys [p + Suc i..<p + Suc i + n]))"
    using Suc.prems by (intro Suc.IH) simp
  moreover have "patch ?b (Suc i) (map phys [p + Suc i..<p + Suc i + n]) =
      patch buf i (map phys [p + i..<p + i + Suc n])"
  proof -
    have u: "[p + i..<p + i + Suc n] = (p + i) # [p + Suc i..<p + Suc i + n]" by (simp add: upt_conv_Cons)
    show ?thesis
      unfolding u patch_def using Suc.prems by (simp add: take_Suc_conv_app_nth)
  qed
  ultimately show ?case using Suc.prems by (simp add: store_byte_def)
qed simp

lemma copy_loop_overflow: "i \<le> length buf \<Longrightarrow> length buf < i + n \<Longrightarrow> copy_loop phys p i n buf = Inl OutOfBounds"
proof (induction n arbitrary: i buf)
  case (Suc n)
  then show ?case by (cases "i = length buf") (simp_all add: store_byte_def)
qed simp

definition encode_region :: "nat \<Rightarrow> u64 \<Rightarrow> bytes" where
  "encode_region pid addr = le_bytes 4 pid @ replicate 4 0 @ le_bytes 8 (unat addr)"

definition encode_addr_region :: "nat \<Rightarrow> u64 \<Rightarrow> u64 \<Rightarrow> bytes" where
  "encode_addr_region pid a b =
     le_bytes 4 pid @ replicate 4 0 @ le_bytes 8 (unat a) @ le_bytes 8 (unat b)"

lemma word_of_le_bytes: "of_nat (unat (a :: u64) mod 256 ^ 8) = a"
proof -
  have "unat a < 2 ^ 64" by (rule u64_less)
  then have "unat a mod 256 ^ 8 = unat a" by simp
  then show ?thesis by simp
qed

lemma decode_encode_region:
  "pid < 2 ^ 32 \<Longrightarrow> decode_region (encode_region pid a) = \<lparr>zr_pid = pid, zr_addr = a\<rparr>"
  using word_of_le_bytes [of a] by (simp add: decode_region_def encode_region_def le_nat_le_bytes)

lemma decode_encode_addr_region:
  "pid < 2 ^ 32 \<Longrightarrow>
   decode_addr_region (encode_addr_region pid a b) = \<lparr>za_pid = pid, za_start = a, za_end = b\<rparr>"
  using word_of_le_bytes [of a] word_of_le_bytes [of b]
  by (simp add: decode_addr_region_def encode_addr_region_def le_nat_le_bytes)


lemma store_int_bytes: "map (store_int phys a v) [a..<a + 4] = le_bytes 4 v"
  by (rule nth_equalityI) (simp_all add: store_int_def le_bytes_def)

lemma load_store_int: "v < 2 ^ 31 \<Longrightarrow> load_int (store_int phys a v) a = int v"
  by (simp add: load_int_def store_int_bytes le_nat_le_bytes)

lemma unat_page_offset: "page_offset addr = unat addr mod 4096"
proof -
  have "addr AND (4096 - 1) = take_bit 12 addr"
    by (rule bit_word_eqI) (simp add: take_bit_eq_mask mask_eq_exp_minus_1)
  then show ?thesis by (simp add: page_offset_def take_bit_eq_mod unat_mod)
qed

section \<open>Properties\<close>

lemmas zpage_ioctl_simps = zpage_ioctl_def zpage_cmds Let_def

definition zpage_text :: "nat \<Rightarrow> physmem \<Rightarrow> zmm \<Rightarrow> string list option" where
  "zpage_text cmd phys mm =
     (if cmd = ZPAGE_GET_MM_INFO then Some (mm_info_lines mm)
      else if cmd = ZPAGE_GET_VMA_INFO then Some (vma_info_lines mm)
      else if cmd = ZPAGE_GET_PID_ARGS then args_lines phys mm else None)"

lemma zpage_text_cases:
  assumes "zpage_text cmd phys mm = Some ls"
  obtains "cmd = ZPAGE_GET_MM_INFO" "ls = mm_info_lines mm"
  | "cmd = ZPAGE_GET_VMA_INFO" "ls = vma_info_lines mm"
  | "cmd = ZPAGE_GET_PID_ARGS" "args_lines phys mm = Some ls"
  using assms by (auto simp: zpage_text_def split: if_splits)

text \<open>
  C36: The three commands that answer with a text leave it in the shared page as a C string and
  return its length when it is shorter than the page; a text of 4096 characters or more makes the
  final \<open>*(char *)(buf + r) = 0\<close> store outside the page.
\<close>

theorem zpage_texts:
  assumes "length (mmap_data d) = 4096" "tasks (c_int (int arg)) = Some t" "task_mm t = Some mm"
    and "zpage_text cmd (zphys d) mm = Some ls"
  shows "if length (concat ls) < 4096
    then \<exists>buf. zpage_ioctl tasks user d cmd arg = Inr (int (length (concat ls)), d\<lparr>mmap_data := buf\<rparr>) \<and>
      length buf = 4096 \<and> cstr buf = concat ls
    else zpage_ioctl tasks user d cmd arg = Inl OutOfBounds"
  using assms(4)
proof (cases rule: zpage_text_cases)
  case 1
  with assms(2) have "zpage_ioctl tasks user d cmd arg = with_text d (get_mm_info t (mmap_data d))"
    by (simp add: zpage_ioctl_simps)
  with 1 mm_info.fits [OF assms(1,3)] mm_info.overflows [OF assms(1,3)] show ?thesis
    by (fastforce simp: with_text_def)
next
  case 2
  with assms(2) have "zpage_ioctl tasks user d cmd arg = with_text d (get_vma_info t (mmap_data d))"
    by (simp add: zpage_ioctl_simps)
  with 2 vma_info.fits [OF assms(1,3)] vma_info.overflows [OF assms(1,3)] show ?thesis
    by (fastforce simp: with_text_def)
next
  case 3
  with assms(2) have "zpage_ioctl tasks user d cmd arg = with_text d (task_get_args (zphys d) t (mmap_data d))"
    by (simp add: zpage_ioctl_simps)
  with 3 pid_args.fits [OF assms(1,3)] pid_args.overflows [OF assms(1,3)] show ?thesis
    by (fastforce simp: with_text_def)
qed

text \<open>A task without mappings, and one whose arguments are the byte 1 thousands of times.\<close>

definition sample_mm :: "u64 \<Rightarrow> zmm" where
  "sample_mm len = \<lparr>zmm_start_stack = 0, start_code = 0, end_code = 0, start_data = 0, end_data = len,
     zmm_total_vm = 0, arg_start = 0, arg_end = len, zmm_map_count = 0, vmas = [],
     pgd_offset = \<lambda>_. Entry (\<lambda>_. Entry (\<lambda>_. Entry (\<lambda>_. Some \<lparr>pte_pfn = 5, pte_present = True\<rparr>)))\<rparr>"

definition sample_dev :: zdev where
  "sample_dev = \<lparr>mmap_data = replicate 4096 0, zphys = \<lambda>_. 1\<rparr>"

definition sample_tasks :: "u64 \<Rightarrow> ztasks" where
  "sample_tasks len = (\<lambda>n. if n = 7 then Some \<lparr>task_mm = Some (sample_mm len)\<rparr> else None)"

theorem zpage_texts_witness:
  "zpage_ioctl (sample_tasks 2000) (\<lambda>_ _. None) sample_dev ZPAGE_GET_PID_ARGS 7 = Inl OutOfBounds"
proof -
  have "args_lines (zphys sample_dev) (sample_mm 2000) =
      Some (map (\<lambda>i. ''0x'' @ fmt_x 1 @ '' '') [0..<2001])"
    by (simp add: args_lines_def sample_mm_def walk_task_page_def sample_dev_def del: upt_Suc)
  moreover have "length (concat (map (\<lambda>i. ''0x'' @ fmt_x 1 @ '' '') [0..<2001])) \<ge> 4096"
    by (simp add: length_concat comp_def sum_list_triv fmt_x_def to_base_small del: upt_Suc)
  ultimately show ?thesis
    using zpage_texts [of sample_dev "sample_tasks 2000" 7 "\<lparr>task_mm = Some (sample_mm 2000)\<rparr>"
        "sample_mm 2000" ZPAGE_GET_PID_ARGS _ "\<lambda>_ _. None"]
    by (simp add: sample_dev_def sample_tasks_def zpage_text_def zpage_cmds del: upt_Suc)
qed

lemma length_mm_info: "length (concat (mm_info_lines mm)) < 4096"
proof -
  have "sum_list (map length (mm_info_lines mm)) \<le> sum_list (map (\<lambda>_. 128) (mm_info_lines mm))"
    using mm_info_line_short less_imp_le by (intro sum_list_mono) blast
  then show ?thesis by (simp add: length_concat mm_info_lines_def)
qed

text \<open>
  \<open>ZPAGE_GET_MM_INFO\<close> on a user task never leaves the page: whatever the addresses are, its four
  lines are in the shared page as a C string, and the result is their length.
\<close>

theorem zpage_mm_info_fits:
  assumes "length (mmap_data d) = 4096" "tasks (c_int (int arg)) = Some t" "task_mm t = Some mm"
  shows "\<exists>buf. zpage_ioctl tasks user d ZPAGE_GET_MM_INFO arg =
      Inr (int (length (concat (mm_info_lines mm))), d\<lparr>mmap_data := buf\<rparr>) \<and>
    cstr buf = concat (mm_info_lines mm)"
proof -
  have "zpage_ioctl tasks user d ZPAGE_GET_MM_INFO arg = with_text d (get_mm_info t (mmap_data d))"
    using assms(2) by (simp add: zpage_ioctl_simps)
  with mm_info.fits [OF assms(1,3) refl length_mm_info] show ?thesis by (auto simp: with_text_def)
qed

theorem zpage_mm_info_fits_witness:
  "\<exists>r d. zpage_ioctl (sample_tasks 3) (\<lambda>_ _. None) sample_dev ZPAGE_GET_MM_INFO 7 = Inr (r, d)"
  using zpage_mm_info_fits [of sample_dev "sample_tasks 3" 7 "\<lparr>task_mm = Some (sample_mm 3)\<rparr>" "sample_mm 3"
      "\<lambda>_ _. None"]
  by (auto simp: sample_dev_def sample_tasks_def)

text \<open>A task's memory as the task sees it.\<close>

definition virt_byte :: "physmem \<Rightarrow> zmm \<Rightarrow> u64 \<Rightarrow> byte option" where
  "virt_byte phys mm a = map_option (\<lambda>page. phys (zkmap page + page_offset a)) (walk_task_page mm a)"


lemma page_offset_add:
  assumes "page_offset a + i < 4096"
  shows "page_offset (a + of_nat i) = page_offset a + i"
proof -
  have "unat (of_nat i :: u64) = i" using assms by (simp add: unat_of_nat)
  then have "unat (a + of_nat i) = (unat a + i) mod 2 ^ 64" by (simp add: unat_word_ariths)
  moreover have "(unat a + i) mod 2 ^ 64 mod 4096 = (unat a + i) mod 4096" by (simp add: mod_mod_cancel)
  moreover have "(unat a + i) mod 4096 = (unat a mod 4096 + i) mod 4096" by (rule mod_add_left_eq [symmetric])
  moreover have "(unat a mod 4096 + i) mod 4096 = unat a mod 4096 + i"
    using assms unfolding unat_page_offset by (rule mod_less)
  ultimately show ?thesis by (simp add: unat_page_offset)
qed

lemma c_int_uint:
  assumes "unat (w :: u64) < 2 ^ 31"
  shows "c_int (uint w) = uint w"
proof -
  have "int (unat w) < int (2 ^ 31)" using assms by (simp only: of_nat_less_iff)
  then have hi: "uint w < 2 ^ 31" by simp
  have "0 \<le> uint w" by simp
  then have "- (2 ^ 31) \<le> uint w" by (rule order_trans [rotated]) simp
  from this hi show ?thesis by (rule c_int_id)
qed

lemma nat_uint_Suc: "nat (uint (w :: u64) + 1) = Suc (unat w)"
proof -
  have w: "uint w = int (unat w)" by simp
  have "nat (int k + 1) = Suc k" for k by simp
  then show ?thesis by (simp only: w)
qed

lemma zpage_region_copies:
  assumes "length (mmap_data d) = 4096" "user arg 24 = Some (encode_addr_region pid a b)" "pid < 2 ^ 31"
    and "tasks (int pid) = Some t" "task_mm t = Some mm" "unat (b - a) < 4096" "walk_task_page mm a = Some page"
  shows "zpage_ioctl tasks user d ZPAGE_GET_ADDR_REGION arg =
    Inr (int (unat (b - a)), d\<lparr>mmap_data := patch (mmap_data d) 0
      (map (zphys d) [zkmap page + page_offset a..<zkmap page + page_offset a + Suc (unat (b - a))])\<rparr>)"
proof -
  have r: "c_int (uint (b - a)) = uint (b - a)" using assms(6) by (intro c_int_uint) simp
  show ?thesis
    using assms copy_loop_patch [of 0 "Suc (unat (b - a))" "mmap_data d" "zphys d" "zkmap page + page_offset a"]
    by (simp add: zpage_ioctl_simps decode_encode_addr_region task_get_addr_region_def r nat_uint_Suc with_copy_def
        del: copy_loop.simps upt_Suc)
qed

lemma region_shows:
  assumes "length (mmap_data d) = 4096" "user arg 24 = Some (encode_addr_region pid a b)" "pid < 2 ^ 31"
    and "tasks (int pid) = Some t" "task_mm t = Some mm" "walk_task_page mm a = Some page"
    and "page_offset a + unat (b - a) < 4096"
    and "\<And>i. page_offset a + i < 4096 \<Longrightarrow> walk_task_page mm (a + of_nat i) = walk_task_page mm a"
  shows "\<exists>d'. zpage_ioctl tasks user d ZPAGE_GET_ADDR_REGION arg = Inr (int (unat (b - a)), d')
    \<and> (\<forall>i \<le> unat (b - a). Some (mmap_data d' ! i) = virt_byte (zphys d) mm (a + of_nat i))
    \<and> drop (Suc (unat (b - a))) (mmap_data d') = drop (Suc (unat (b - a))) (mmap_data d)"
proof -
  let ?n = "unat (b - a)" and ?p = "zkmap page + page_offset a"
  let ?buf = "patch (mmap_data d) 0 (map (zphys d) [?p..<?p + Suc ?n])"
  have n: "?n < 4096" using assms(7) by simp
  have "Some (?buf ! i) = virt_byte (zphys d) mm (a + of_nat i)" if i: "i \<le> ?n" for i
  proof -
    have off: "page_offset a + i < 4096" using assms(7) i by simp
    have "?buf ! i = zphys d (?p + i)"
      using i n assms(1) by (simp add: nth_patch del: upt_Suc)
    then show ?thesis
      using assms(6) assms(8) [OF off] page_offset_add [OF off]
      by (simp add: virt_byte_def add.assoc del: upt_Suc)
  qed
  moreover have "drop (Suc ?n) ?buf = drop (Suc ?n) (mmap_data d)"
    using n assms(1) by (intro drop_patch) simp_all
  ultimately show ?thesis
    using zpage_region_copies [of d user arg pid a b tasks t mm page] assms(1-6) n by auto
qed

text \<open>
  Asking for a region that lies in one page shows the task's own memory: byte \<open>i\<close> of the shared
  page is the byte at \<open>start + i\<close> in the task's address space, the end address included, the result
  is the distance of the ends, and the rest of the shared page is left as it was.  (The page tables
  select by the bits above the page offset, as the hardware does.)
\<close>

theorem zpage_region_shows_task_memory:
  assumes "length (mmap_data d) = 4096" "user arg 24 = Some (encode_addr_region pid a b)" "pid < 2 ^ 31"
    and "tasks (int pid) = Some t" "task_mm t = Some mm" "walk_task_page mm a = Some page"
    and "page_offset a + unat (b - a) < 4096"
    and "\<And>i. page_offset a + i < 4096 \<Longrightarrow> walk_task_page mm (a + of_nat i) = walk_task_page mm a"
  shows "\<exists>d'. zpage_ioctl tasks user d ZPAGE_GET_ADDR_REGION arg = Inr (int (unat (b - a)), d')
    \<and> (\<forall>i \<le> unat (b - a). Some (mmap_data d' ! i) = virt_byte (zphys d) mm (a + of_nat i))
    \<and> drop (Suc (unat (b - a))) (mmap_data d') = drop (Suc (unat (b - a))) (mmap_data d)"
  using assms by (intro region_shows) auto

lemma sample_walk: "walk_task_page (sample_mm l) a = Some 5"
  by (simp add: walk_task_page_def sample_mm_def)

theorem zpage_region_shows_task_memory_witness:
  "\<exists>d'. zpage_ioctl (sample_tasks 0) (\<lambda>_ _. Some (encode_addr_region 7 256 259)) sample_dev
     ZPAGE_GET_ADDR_REGION 0 = Inr (3, d')"
proof -
  have "page_offset 256 = 256" by (simp add: unat_page_offset)
  then show ?thesis
    using zpage_region_shows_task_memory [of sample_dev "\<lambda>_ _. Some (encode_addr_region 7 256 259)" 0 7 256 259
        "sample_tasks 0" "\<lparr>task_mm = Some (sample_mm 0)\<rparr>" "sample_mm 0" 5]
    by (auto simp: sample_dev_def sample_tasks_def sample_walk)
qed

text \<open>
  The length of a region is never checked: a region whose ends are 4096 bytes or more apart, and
  a data segment of more than 4096 bytes, are copied past the end of the shared page.
\<close>

theorem zpage_copies_overrun:
  assumes "length (mmap_data d) = 4096" "tasks (int pid) = Some t" "task_mm t = Some mm" "pid < 2 ^ 31"
    and "walk_task_page mm a = Some page"
    and "user arg 24 = Some (encode_addr_region pid a b)" "4096 \<le> unat (b - a)" "unat (b - a) < 2 ^ 31 - 1"
    and "a = start_data mm" "b = end_data mm"
  shows "zpage_ioctl tasks user d ZPAGE_GET_ADDR_REGION arg = Inl OutOfBounds
    \<and> (4096 < unat (b - a) \<longrightarrow> zpage_ioctl tasks user d ZPAGE_GET_PID_DATA pid = Inl OutOfBounds)"
proof -
  let ?n = "unat (b - a)"
  have r: "c_int (uint (b - a)) = uint (b - a)" using assms(8) by (intro c_int_uint) simp
  have "copy_loop (zphys d) p 0 (Suc ?n) (mmap_data d) = Inl OutOfBounds" for p
    using assms(1,7) by (intro copy_loop_overflow) simp_all
  then have "zpage_ioctl tasks user d ZPAGE_GET_ADDR_REGION arg = Inl OutOfBounds"
    using assms(1-6) by (simp add: zpage_ioctl_simps decode_encode_addr_region task_get_addr_region_def
        r nat_uint_Suc with_copy_def del: copy_loop.simps)
  moreover have "copy_loop (zphys d) p 0 ?n (mmap_data d) = Inl OutOfBounds" if "4096 < ?n" for p
    using assms(1) that by (intro copy_loop_overflow) simp_all
  then have "zpage_ioctl tasks user d ZPAGE_GET_PID_DATA pid = Inl OutOfBounds" if "4096 < ?n"
    using assms(2-5) that r unfolding assms(9,10)
    by (simp add: zpage_ioctl_simps task_get_data_def with_copy_def del: copy_loop.simps)
  ultimately show ?thesis by blast
qed

theorem zpage_copies_overrun_witness:
  "zpage_ioctl (sample_tasks 5000) (\<lambda>_ _. None) sample_dev ZPAGE_GET_PID_DATA 7 = Inl OutOfBounds"
proof -
  have "zpage_ioctl (sample_tasks 5000) (\<lambda>_ _. Some (encode_addr_region 7 0 5000)) sample_dev
      ZPAGE_GET_PID_DATA 7 = Inl OutOfBounds"
    using zpage_copies_overrun [of sample_dev "sample_tasks 5000" 7 "\<lparr>task_mm = Some (sample_mm 5000)\<rparr>"
        "sample_mm 5000" 0 5 "\<lambda>_ _. Some (encode_addr_region 7 0 5000)" 0 5000]
    by (simp add: sample_dev_def sample_tasks_def sample_walk) (simp add: sample_mm_def)
  then show ?thesis by (simp add: zpage_ioctl_simps)
qed

text \<open>
  For a process id without a task, \<open>GET_MM_INFO\<close>, \<open>GET_VMA_INFO\<close> and \<open>GET_PID_ARGS\<close> answer
  \<open>-EFAULT\<close> and change nothing, while \<open>GET_PID_DATA\<close>, \<open>GET_ADDR_REGION\<close> and \<open>GET_PID_ADDR\<close>
  dereference the null task; so do all six for a kernel thread, which has no \<open>mm\<close>.
\<close>

theorem zpage_missing_task:
  assumes "user ptr 24 = Some (encode_addr_region pid a b)" "user ptr 16 = Some (encode_region pid a)"
    and "pid < 2 ^ 31" "tasks (int pid) = None \<or> tasks (int pid) = Some t \<and> task_mm t = None"
  shows "(\<forall>cmd \<in> {ZPAGE_GET_MM_INFO, ZPAGE_GET_VMA_INFO, ZPAGE_GET_PID_ARGS}.
      zpage_ioctl tasks user d cmd pid = (if tasks (int pid) = None then Inr (- 14, d) else Inl NullDeref))
    \<and> zpage_ioctl tasks user d ZPAGE_GET_PID_DATA pid = Inl NullDeref
    \<and> zpage_ioctl tasks user d ZPAGE_GET_ADDR_REGION ptr = Inl NullDeref
    \<and> zpage_ioctl tasks user d ZPAGE_GET_PID_ADDR ptr = Inl NullDeref"
  using assms
  by (auto simp: zpage_ioctl_simps with_text_def with_copy_def get_mm_info_def get_vma_info_def
      task_get_args_def task_get_data_def task_get_addr_region_def get_pid_addr_def
      decode_encode_addr_region decode_encode_region)

theorem zpage_missing_task_witness:
  "zpage_ioctl (\<lambda>_. None) (\<lambda>_ n. Some (if n = 24 then encode_addr_region 9 0 0 else encode_region 9 0))
     sample_dev ZPAGE_GET_PID_ADDR 0 = Inl NullDeref"
  using zpage_missing_task [where pid = 9 and a = 0 and b = 0 and tasks = "\<lambda>_. None" and ptr = 0
      and user = "\<lambda>_ n. Some (if n = 24 then encode_addr_region 9 0 0 else encode_region 9 0)"]
  by simp

text \<open>
  \<open>ZPAGE_GET_PID_ADDR\<close> returns the \<open>int\<close> at the address and leaves \<open>0x12345678\<close> there: the next
  call returns that, and no other byte of memory and nothing of the shared page has changed.
\<close>

theorem zpage_pid_addr_replaces_word:
  assumes "user arg 16 = Some (encode_region pid a)" "pid < 2 ^ 31"
    and "tasks (int pid) = Some t" "task_mm t = Some mm" "walk_task_page mm a = Some page"
  shows "\<exists>d'. zpage_ioctl tasks user d ZPAGE_GET_PID_ADDR arg =
      Inr (load_int (zphys d) (zkmap page + page_offset a), d')
    \<and> (\<exists>d''. zpage_ioctl tasks user d' ZPAGE_GET_PID_ADDR arg = Inr (0x12345678, d''))
    \<and> mmap_data d' = mmap_data d
    \<and> (\<forall>x. x < zkmap page + page_offset a \<or> zkmap page + page_offset a + 4 \<le> x \<longrightarrow> zphys d' x = zphys d x)"
proof -
  let ?p = "zkmap page + page_offset a"
  have *: "zpage_ioctl tasks user e ZPAGE_GET_PID_ADDR arg =
      Inr (load_int (zphys e) ?p, e\<lparr>zphys := store_int (zphys e) ?p 0x12345678\<rparr>)" for e
    using assms by (simp add: zpage_ioctl_simps decode_encode_region get_pid_addr_def)
  have "load_int (store_int (zphys d) ?p 0x12345678) ?p = 0x12345678"
    using load_store_int [of "0x12345678" "zphys d" ?p] by simp
  then show ?thesis by (simp add: *) (simp add: store_int_def)
qed

theorem zpage_pid_addr_replaces_word_witness:
  "\<exists>d' d''. zpage_ioctl (sample_tasks 0) (\<lambda>_ _. Some (encode_region 7 256)) d' ZPAGE_GET_PID_ADDR 0 =
     Inr (0x12345678, d'')"
  using zpage_pid_addr_replaces_word [of "\<lambda>_ _. Some (encode_region 7 256)" 0 7 256 "sample_tasks 0"
      "\<lparr>task_mm = Some (sample_mm 0)\<rparr>" "sample_mm 0" 5 sample_dev]
  by (auto simp: sample_tasks_def sample_walk)

text \<open>
  Unloading the driver never frees the shared page: after a load and an unload in which the
  registration and the allocation succeeded, the module still holds the page's memory.
\<close>

theorem zpage_unload_keeps_page:
  assumes "\<And>h. (os :: kernel) h (MiscRegister ''zpage'') = 0" "\<And>h. os h (Kzalloc MMAP_LEN) \<noteq> 0"
    and "run_state (load_unload zpage_init zpage_exit os) [] = (ok, h')"
  shows "ok \<and> held h' = {#Memory#}"
  using assms(1,2) assms(3) [symmetric]
  by (simp add: load_unload_def zpage_init_def zpage_exit_def held_def)

theorem zpage_unload_keeps_page_witness:
  "held (snd (run_state (load_unload zpage_init zpage_exit
     ((\<lambda>h c. case c of Kzalloc n \<Rightarrow> 1 | _ \<Rightarrow> 0) :: kernel)) [])) = {#Memory#}"
  using zpage_unload_keeps_page [of "(\<lambda>h c. case c of Kzalloc n \<Rightarrow> 1 | _ \<Rightarrow> 0) :: kernel"]
  by (metis (no_types, lifting) kcall.simps prod.collapse zero_neq_one)

end
