(* ===== verification/ZpageUser.thy ===== *)
theory ZpageUser
  imports Zpage
begin

text \<open>
  The programs that use the \<open>zpage\<close> driver: \<open>user.c\<close> (the interactive one) and \<open>user_cmd.c\<close>, both in
  \<open>src/kernel/linux_memory/user_task_page\<close>.

  They run on the model of the driver itself, not on an abstraction of it: a command of the user
  becomes a call of \<open>zpage_ioctl\<close>, and what is printed is read from the same page \<open>mmap_data\<close> that
  the driver fills.  A read behind the mapping is the status \<open>Segv\<close>; a fault inside the driver is
  \<open>Fault\<close>.
\<close>

section \<open>The C library's part\<close>

text \<open>
  \<open>ioctl\<close> turns the results from \<open>-4095\<close> to \<open>-1\<close> into \<open>-1\<close>.  \<open>scanf\<close> with \<open>%d\<close> or \<open>%lx\<close> gives the
  number, if one is there, and the rest of the input.
\<close>

definition libc_ioctl :: "int \<Rightarrow> int" where
  "libc_ioctl r = (if - 4095 \<le> r \<and> r \<le> - 1 then - 1 else c_int r)"

definition scan_d :: "string \<Rightarrow> int option \<times> string" where
  "scan_d s = (case strto 10 s of
       None \<Rightarrow> (None, snd (strip_sign (dropWhile is_space s)))
     | Some (neg, m, rest) \<Rightarrow> (Some (c_int (if neg then - int m else int m)), rest))"

definition scan_lx :: "string \<Rightarrow> u64 option \<times> string" where
  "scan_lx s = (case strto 16 s of
       None \<Rightarrow> (None, snd (strip_sign (dropWhile is_space s)))
     | Some (neg, m, rest) \<Rightarrow> (Some (if neg then - of_nat m else of_nat m), rest))"

section \<open>The interactive program\<close>

record user_state =
  dev :: zdev
  upid :: int
  stdin :: string
  stdout :: string

datatype status = Running | Exited int | Fault kfault | Segv

definition say :: "string \<Rightarrow> user_state \<Rightarrow> user_state" where
  "say s st = st\<lparr>stdout := stdout st @ s\<rparr>"

definition usage :: "user_state \<Rightarrow> user_state" where
  "usage st = say (concat (map (\<lambda>l. CHR 0x09 # l @ nl)
     [''t: test'', ''i: get mm_struct info'', ''v: get mm_struct vma info'', ''a: get task args'',
      ''d: get task data'', ''B: get data between addr print char'', ''b: get data between addr'',
      ''h: this info'', ''q: quit''])) st"

text \<open>The old value stays when there is no number.\<close>

definition enter_pid :: "int \<Rightarrow> user_state \<Rightarrow> int \<times> user_state" where
  "enter_pid old st =
     (let st = say ''>Enter pid:'' st; (v, rest) = scan_d (stdin st)
      in (case v of None \<Rightarrow> old | Some p \<Rightarrow> p, st\<lparr>stdin := rest\<rparr>))"

definition enter_addr :: "u64 \<Rightarrow> user_state \<Rightarrow> u64 \<times> user_state" where
  "enter_addr old st =
     (let st = say ''>Enter addr:'' st; (v, rest) = scan_lx (stdin st)
      in (case v of None \<Rightarrow> old | Some a \<Rightarrow> a, st\<lparr>stdin := rest\<rparr>))"

text \<open>The driver call followed by \<open>ioctl_ret\<close>: the result, or the status the program ends with.\<close>

definition ioctl_and_ret ::
  "ztasks \<Rightarrow> string \<Rightarrow> nat \<Rightarrow> (nat \<Rightarrow> nat \<Rightarrow> bytes option) \<Rightarrow> nat \<Rightarrow> user_state \<Rightarrow>
   (status + int) \<times> user_state" where
  "ioctl_and_ret tasks name cmd user arg st =
     (case zpage_ioctl tasks user (dev st) cmd arg of
        Inl e \<Rightarrow> (Inl (Fault e), st)
      | Inr (r, d) \<Rightarrow>
          (let ret = libc_ioctl r;
               st' = say (''ioctl '' @ name @ '' ret:'' @ fmt_d ret @ nl) (st\<lparr>dev := d\<rparr>)
           in if ret = - 1 then (Inl (Exited 1), st') else (Inr ret, st')))"

text \<open>\<open>for (i = 0; i < n; i++) fprintf(..., *(mmap_addr + i))\<close>\<close>

fun print_loop :: "(byte \<Rightarrow> string) \<Rightarrow> nat \<Rightarrow> nat \<Rightarrow> user_state \<Rightarrow> status \<times> user_state" where
  "print_loop f i 0 st = (Running, st)"
| "print_loop f i (Suc n) st =
     (if i < length (mmap_data (dev st))
      then print_loop f (Suc i) n (say (f (mmap_data (dev st) ! i)) st)
      else (Segv, st))"

definition print_text :: "user_state \<Rightarrow> status \<times> user_state" where
  "print_text st =
     (if 0 \<in> set (mmap_data (dev st)) then (Running, say (cstr (mmap_data (dev st)) @ nl) st)
      else (Segv, st))"

definition then_say :: "string \<Rightarrow> status \<times> user_state \<Rightarrow> status \<times> user_state" where
  "then_say s r = (if fst r = Running then (Running, say s (snd r)) else r)"

definition no_struct :: "nat \<Rightarrow> nat \<Rightarrow> bytes option" where
  "no_struct a n = None"

text \<open>The commands \<open>i\<close>, \<open>v\<close> and \<open>a\<close>: a pid, the call, the text.\<close>

definition text_cmd :: "ztasks \<Rightarrow> string \<Rightarrow> nat \<Rightarrow> user_state \<Rightarrow> status \<times> user_state" where
  "text_cmd tasks name cmd st =
     (let (pid, st) = enter_pid (upid st) st; st = st\<lparr>upid := pid\<rparr> in
      case ioctl_and_ret tasks name cmd no_struct (c_ulong pid) st of
        (Inl s, st) \<Rightarrow> (s, st)
      | (Inr ret, st) \<Rightarrow> print_text st)"

text \<open>The commands \<open>t\<close>, \<open>d\<close>, and \<open>B\<close> and \<open>b\<close>; the first argument is what the uninitialised structs hold.\<close>

type_synonym junk = "int \<times> u64 \<times> u64"

definition addr_cmd :: "junk \<Rightarrow> ztasks \<Rightarrow> user_state \<Rightarrow> status \<times> user_state" where
  "addr_cmd junk tasks st =
     (let (pid, st) = enter_pid (fst junk) st; (addr, st) = enter_addr (fst (snd junk)) st in
      case ioctl_and_ret tasks ''ZPAGE_GET_PID_ADDR'' ZPAGE_GET_PID_ADDR
          (\<lambda>a n. Some (encode_region (c_uint pid) addr)) 0 st of
        (Inl s, st) \<Rightarrow> (s, st)
      | (Inr ret, st) \<Rightarrow> (Running, st))"

definition data_cmd :: "ztasks \<Rightarrow> user_state \<Rightarrow> status \<times> user_state" where
  "data_cmd tasks st =
     (let (pid, st) = enter_pid (upid st) st; st = st\<lparr>upid := pid\<rparr> in
      case ioctl_and_ret tasks ''ZPAGE_GET_PID_DATA'' ZPAGE_GET_PID_DATA no_struct (c_ulong pid) st of
        (Inl s, st) \<Rightarrow> (s, st)
      | (Inr ret, st) \<Rightarrow>
          then_say nl (print_loop (\<lambda>b. ''0x'' @ fmt_x (c_uint (sint b))) 0 (nat ret) st))"

definition region_cmd :: "junk \<Rightarrow> ztasks \<Rightarrow> char \<Rightarrow> user_state \<Rightarrow> status \<times> user_state" where
  "region_cmd junk tasks c st =
     (let (pid, st) = enter_pid (fst junk) st;
          (start, st) = enter_addr (fst (snd junk)) st;
          (en, st) = enter_addr (snd (snd junk)) st in
      case ioctl_and_ret tasks ''ZPAGE_GET_ADDR_REGION'' ZPAGE_GET_ADDR_REGION
          (\<lambda>p n. Some (encode_addr_region (c_uint pid) start en)) 0 st of
        (Inl s, st) \<Rightarrow> (s, st)
      | (Inr ret, st) \<Rightarrow>
          then_say nl
            (if c = CHR ''b'' then print_loop (\<lambda>b. ''0x'' @ fmt_x (unat b) @ '' '') 0 (nat (ret + 1)) st
             else print_loop (\<lambda>b. [char_of (unat b)]) 0 (nat (ret + 1)) st))"

definition user_switch :: "junk \<Rightarrow> ztasks \<Rightarrow> char \<Rightarrow> user_state \<Rightarrow> status \<times> user_state" where
  "user_switch junk tasks c st =
     (if c = CHR ''t'' then addr_cmd junk tasks st
      else if c = CHR ''i'' then text_cmd tasks ''ZPAGE_GET_MM_INFO'' ZPAGE_GET_MM_INFO st
      else if c = CHR ''v'' then text_cmd tasks ''ZPAGE_GET_VMA_INFO'' ZPAGE_GET_VMA_INFO st
      else if c = CHR ''a'' then text_cmd tasks ''ZPAGE_GET_PID_ARGS'' ZPAGE_GET_PID_ARGS st
      else if c = CHR ''d'' then data_cmd tasks st
      else if c = CHR ''B'' \<or> c = CHR ''b'' then region_cmd junk tasks c st
      else (Running, usage st))"

text \<open>
  One round of the loop.  At the end of the input \<open>getchar\<close> gives \<open>EOF\<close>, which the \<open>char\<close>
  variable holds as \<open>0xFF\<close>.
\<close>

definition getchar :: "user_state \<Rightarrow> char \<times> user_state" where
  "getchar st = (case stdin st of [] \<Rightarrow> (CHR 0xFF, st) | x # xs \<Rightarrow> (x, st\<lparr>stdin := xs\<rparr>))"

definition user_step :: "ztasks \<Rightarrow> junk \<Rightarrow> user_state \<Rightarrow> status \<times> user_state" where
  "user_step tasks junk st =
     (let (c, st) = getchar st in
      if c = CHR ''q'' then (Exited 0, st)
      else if is_space c then (Running, say ''=>cmd:'' st)
      else user_switch junk tasks c st)"

fun user_loop :: "ztasks \<Rightarrow> junk \<Rightarrow> nat \<Rightarrow> user_state \<Rightarrow> status \<times> user_state" where
  "user_loop tasks junk 0 st = (Running, st)"
| "user_loop tasks junk (Suc fuel) st =
     (case user_step tasks junk st of
        (Running, st') \<Rightarrow> user_loop tasks junk fuel st'
      | (s, st') \<Rightarrow> (s, st'))"


section \<open>The command-line program\<close>

definition user_cmd_main :: "ztasks \<Rightarrow> int \<Rightarrow> zdev \<Rightarrow> string list \<Rightarrow> status \<times> string \<times> zdev" where
  "user_cmd_main tasks fd d argv =
     (if length argv < 3 then (Exited 1, ''Usage <pid> <addr>'' @ nl, d)
      else (let pid = c_uint (atoi (argv ! 1)); addr = of_int (fst (strtol 16 (argv ! 2))) in
        if fd = - 1 then (Exited 1, '''', d)
        else (case zpage_ioctl tasks (\<lambda>a n. Some (encode_region pid addr)) d ZPAGE_GET_PID_ADDR 0 of
                Inl e \<Rightarrow> (Fault e, '''', d)
              | Inr (r, d') \<Rightarrow>
                  (let ret = libc_ioctl r in
                   if ret = - 1 then (Exited 1, '''', d')
                   else (Exited 0, ''ioctl ZPAGE_GET_PID_ADDR ret:0x'' @ fmt_x (c_uint ret) @ nl, d')))))"

section \<open>The page stays whole\<close>













section \<open>Output\<close>

lemma say_simps [simp]:
  "dev (say s st) = dev st" "stdin (say s st) = stdin st" "upid (say s st) = upid st"
  "stdout (say s st) = stdout st @ s" "say s (say t st) = say (t @ s) st" "say '''' st = st"
  by (simp_all add: say_def)

lemma print_loop_prints:
  "i + n \<le> length (mmap_data (dev st)) \<Longrightarrow>
   print_loop f i n st = (Running, say (concat (map f (take n (drop i (mmap_data (dev st)))))) st)"
proof (induction n arbitrary: i st)
  case (Suc n)
  then have "take (Suc n) (drop i (mmap_data (dev st))) =
      mmap_data (dev st) ! i # take n (drop (Suc i) (mmap_data (dev st)))"
    by (simp add: Cons_nth_drop_Suc flip: take_Suc_Cons)
  with Suc show ?case by simp
qed simp



lemma usage_dev [simp]: "dev (usage st) = dev st" "stdin (usage st) = stdin st"
  by (simp_all add: usage_def)

text \<open>The state a program can be in: no read behind the mapping, and the page still a page.\<close>

definition page_ok :: "status \<times> user_state \<Rightarrow> bool" where
  "page_ok r \<longleftrightarrow> fst r \<noteq> Segv \<and> length (mmap_data (dev (snd r))) = 4096"

lemma page_ok_pair [simp]: "page_ok (s, st) \<longleftrightarrow> s \<noteq> Segv \<and> length (mmap_data (dev st)) = 4096"
  by (simp add: page_ok_def)

lemma page_ok_then_say [simp]: "page_ok (then_say s r) = page_ok r"
  by (simp add: then_say_def page_ok_def)

lemma page_ok_print_loop [intro]: "length (mmap_data (dev st)) = 4096 \<Longrightarrow> n \<le> 4096 \<Longrightarrow> page_ok (print_loop f 0 n st)"
  by (simp add: print_loop_prints)









section \<open>What is typed and what is shown\<close>







section \<open>Properties\<close>



lemma user_step_eof: "stdin st = '''' \<Longrightarrow> user_step tasks junk st = (Running, usage st)"
  by (simp add: user_step_def getchar_def user_switch_def is_space_def)

text \<open>
  At the end of its input the program never stops: from then on every round prints the usage
  again, however many rounds there are.
\<close>

theorem zuser_runs_on_at_eof:
  assumes "stdin st = ''''"
  shows "user_loop tasks junk fuel st = (Running, (usage ^^ fuel) st)"
  using assms
proof (induction fuel arbitrary: st)
  case (Suc fuel)
  then show ?case by (simp add: user_step_eof funpow_swap1)
qed simp

theorem zuser_runs_on_at_eof_witness:
  "fst (user_loop (sample_tasks 3) (0, 0, 0) 1000 \<lparr>dev = sample_dev, upid = 0, stdin = '''', stdout = ''''\<rparr>) = Running"
  using zuser_runs_on_at_eof [of "\<lparr>dev = sample_dev, upid = 0, stdin = '''', stdout = ''''\<rparr>" "sample_tasks 3"
      "(0, 0, 0)" 1000] by simp

lemma user_cmd_answer:
  assumes "length argv = 3" "fd \<noteq> - 1" "atoi (argv ! 1) = int pid" "pid < 2 ^ 31"
    and "of_int (fst (strtol 16 (argv ! 2))) = a"
    and "tasks (int pid) = Some t" "task_mm t = Some mm" "walk_task_page mm a = Some page"
    and "load_int (zphys d) (zkmap page + page_offset a) = w"
    and "d\<lparr>zphys := store_int (zphys d) (zkmap page + page_offset a) 0x12345678\<rparr> = d'"
  shows "user_cmd_main tasks fd d argv =
      (if - 4095 \<le> w \<and> w \<le> - 1 then (Exited 1, '''', d')
       else (Exited 0, ''ioctl ZPAGE_GET_PID_ADDR ret:0x'' @ fmt_x (c_uint w) @ nl, d'))"
proof -
  have "zpage_ioctl tasks (\<lambda>p n. Some (encode_region pid a)) d ZPAGE_GET_PID_ADDR 0 = Inr (w, d')"
    using assms(4,6-10) by (simp add: zpage_ioctl_simps decode_encode_region get_pid_addr_def)
  moreover have "libc_ioctl w = (if - 4095 \<le> w \<and> w \<le> - 1 then - 1 else w)"
    unfolding assms(9) [symmetric] load_int_def libc_ioctl_def using c_int_range by (simp add: c_int_id)
  moreover have "c_uint (int pid) = pid" using assms(4) by simp
  ultimately show ?thesis
    using assms(1-3,5) by (auto simp: user_cmd_main_def Let_def)
qed

text \<open>
  \<open>user_cmd PID ADDR\<close> takes a word from -4095 to -1 for an error of the call: it exits with failure
  although the driver has read the word and overwritten it; any other word is printed.
\<close>

theorem user_cmd_mistakes_small_negatives:
  assumes "length argv = 3" "fd \<noteq> - 1" "atoi (argv ! 1) = int pid" "pid < 2 ^ 31"
    and "of_int (fst (strtol 16 (argv ! 2))) = a"
    and "tasks (int pid) = Some t" "task_mm t = Some mm" "walk_task_page mm a = Some page"
  shows "let w = load_int (zphys d) (zkmap page + page_offset a) in
    \<exists>d'. zphys d' = store_int (zphys d) (zkmap page + page_offset a) 0x12345678 \<and>
    user_cmd_main tasks fd d argv =
      (if - 4095 \<le> w \<and> w \<le> - 1 then (Exited 1, '''', d')
       else (Exited 0, ''ioctl ZPAGE_GET_PID_ADDR ret:0x'' @ fmt_x (c_uint w) @ nl, d'))"
  unfolding Let_def
  by (rule exI, rule conjI [OF _ user_cmd_answer [where d = d and tasks = tasks and pid = pid, OF assms refl refl]]) simp

theorem user_cmd_mistakes_small_negatives_witness:
  "fst (user_cmd_main (\<lambda>_. Some \<lparr>task_mm = Some (sample_mm 0)\<rparr>) 3
     \<lparr>mmap_data = [], zphys = \<lambda>_. 255\<rparr> [''user_cmd'', ''2'', ''0'']) = Exited 1"
proof -
  have n: "atoi ''2'' = int 2" "fst (strtol 16 ''0'') = 0"
    by (simp_all add: atoi_def strtol_def strto_def strip_sign_def strip_0x_def is_space_def digit_val_def horner_def)
  have w: "load_int (\<lambda>_. 255) a = - 1" for a
  proof -
    have "map (\<lambda>_. 255) [a..<a + 4] = [255, 255, 255, 255 :: byte]"
      by (simp add: map_replicate_const eval_nat_numeral)
    then have "le_nat (map (\<lambda>_. 255) [a..<a + 4]) = 4294967295" by simp
    then show ?thesis using c_int_wrap_down [of 4294967295] by (simp add: load_int_def)
  qed
  show ?thesis
    using user_cmd_mistakes_small_negatives [of "[''user_cmd'', ''2'', ''0'']" 3 2 0
        "\<lambda>_. Some \<lparr>task_mm = Some (sample_mm 0)\<rparr>" "\<lparr>task_mm = Some (sample_mm 0)\<rparr>" "sample_mm 0" 5 "\<lparr>mmap_data = [], zphys = \<lambda>_. 255\<rparr>"]
    by (auto simp: n w sample_walk)
qed



end
