(* ===== verification/ZpageSession.thy ===== *)
theory ZpageSession
  imports ZpageUser
begin

text \<open>
  The device \<open>/dev/zpage\<close> as its users share it: the table of handlers of
  \<open>src/kernel/linux_memory/user_task_page/zpage.c\<close> and sequences of calls by any number of processes.

  All processes share the one page \<open>mmap_data\<close>: a process that has mapped it may also store into it
  (the mapping is \<open>PAGE_SHARED\<close>).  Between the calls tasks store into their own memory.  Every event comes
  with the task table and the user memory of its moment, \<open>zenv\<close>.
\<close>

section \<open>Calls and events\<close>

record zenv =
  z_tasks :: ztasks
  z_user :: "nat \<Rightarrow> nat \<Rightarrow> bytes option"
  z_remap :: "u64 \<Rightarrow> nat \<Rightarrow> nat \<Rightarrow> int"
  z_frame :: nat

record zpage_ops =
  zo_open :: "zdev \<Rightarrow> int \<times> zdev"
  zo_release :: "zdev \<Rightarrow> int \<times> zdev"
  zo_unlocked_ioctl :: "zenv \<Rightarrow> zdev \<Rightarrow> nat \<Rightarrow> nat \<Rightarrow> kfault + (int \<times> zdev)"
  zo_mmap :: "zenv \<Rightarrow> zvma \<Rightarrow> int \<times> (u64 \<times> nat \<times> nat) option"

definition zpage_fops :: zpage_ops where
  "zpage_fops = \<lparr>zo_open = zpage_open, zo_release = zpage_close,
     zo_unlocked_ioctl = (\<lambda>e. zpage_ioctl (z_tasks e) (z_user e)),
     zo_mmap = (\<lambda>e. zpage_mmap (z_remap e) (z_frame e))\<rparr>"







lemma zpage_fops_simps [simp]:
  "zo_open zpage_fops d = (0, d)" "zo_release zpage_fops d = (0, d)"
  "zo_unlocked_ioctl zpage_fops e = zpage_ioctl (z_tasks e) (z_user e)"
  "zo_mmap zpage_fops e = zpage_mmap (z_remap e) (z_frame e)"
  by (simp_all add: zpage_fops_def zpage_open_def zpage_close_def)


section \<open>What calls change\<close>







section \<open>Properties\<close>







end
