(* ===== verification/ZpageTest.thy ===== *)
theory ZpageTest
  imports ZpageUser "HOL-Library.Monad_Syntax"
begin

text \<open>
  The process that \<open>zpage\<close> is tried on (\<open>src/kernel/linux_memory/user_task_page/test.c\<close>), and the
  whole experiment: \<open>test\<close> shows the addresses of two variables and waits, \<open>user_cmd\<close> is started
  with the pid and the address shown, \<open>test\<close> goes on and shows the variables again.

  The variables of \<open>test\<close> are bytes of the physical memory that the driver works on, reached
  through the page tables \<open>zmm\<close> of the task.  An access to a page that is not there is \<open>None\<close>.
  Arguments of the model are the page tables and the addresses the variables have on the stack.
\<close>

section \<open>A task's accesses to its memory\<close>

fun store_virt :: "zmm \<Rightarrow> u64 \<Rightarrow> bytes \<Rightarrow> physmem \<Rightarrow> physmem option" where
  "store_virt mm a [] phys = Some phys"
| "store_virt mm a (b # bs) phys =
     (case walk_task_page mm a of
        None \<Rightarrow> None
      | Some page \<Rightarrow> store_virt mm (a + 1) bs (phys(zkmap page + page_offset a := b)))"

definition load_virt :: "zmm \<Rightarrow> u64 \<Rightarrow> nat \<Rightarrow> physmem \<Rightarrow> bytes option" where
  "load_virt mm a n phys = those (map (\<lambda>i. virt_byte phys mm (a + of_nat i)) [0..<n])"

text \<open>How \<open>%p\<close> shows an address.\<close>

definition fmt_p :: "u64 \<Rightarrow> string" where
  "fmt_p a = (if a = 0 then ''(nil)'' else ''0x'' @ fmt_x (unat a))"

section \<open>The program\<close>

text \<open>The addresses of \<open>argc\<close>, \<open>a\<close> and \<open>b\<close>, and the value of \<open>argv\<close>.\<close>

record test_frame =
  argc_at :: u64
  argv_is :: u64
  a_at :: u64
  b_at :: u64

definition show_variable :: "zmm \<Rightarrow> string \<Rightarrow> u64 \<Rightarrow> physmem \<Rightarrow> string option" where
  "show_variable mm name x phys = do {
     v \<leftarrow> load_virt mm x 4 phys;
     Some (name @ '' addr:'' @ fmt_p x @ '' val:0x'' @ fmt_x (le_nat v) @ nl)
   }"

definition show_variables :: "zmm \<Rightarrow> test_frame \<Rightarrow> physmem \<Rightarrow> string option" where
  "show_variables mm fr phys = do {
     s \<leftarrow> show_variable mm ''a'' (a_at fr) phys;
     t \<leftarrow> show_variable mm ''b'' (b_at fr) phys;
     Some (s @ t)
   }"

text \<open>Up to the first \<open>getchar\<close>: what is printed, and the memory.\<close>

definition test_start :: "zmm \<Rightarrow> int \<Rightarrow> test_frame \<Rightarrow> physmem \<Rightarrow> (string \<times> physmem) option" where
  "test_start mm pid fr phys = do {
     phys \<leftarrow> store_virt mm (a_at fr) (le_bytes 4 0x55555555) phys;
     phys \<leftarrow> store_virt mm (b_at fr) (le_bytes 4 0xAAAAAAAA) phys;
     s \<leftarrow> show_variables mm fr phys;
     Some (''getpid:'' @ fmt_d pid @ '' argc:'' @ fmt_p (argc_at fr) @ '' argv:'' @ fmt_p (argv_is fr) @ nl @ s
       @ ''Wait input to continue'' @ nl, phys)
   }"

text \<open>After it: the exit code, and what is printed.\<close>

definition test_rest :: "zmm \<Rightarrow> test_frame \<Rightarrow> physmem \<Rightarrow> (int \<times> string) option" where
  "test_rest mm fr phys = do {
     s \<leftarrow> show_variables mm fr phys;
     Some (0, s @ ''Wait input to quit'' @ nl)
   }"

section \<open>Variables inside a page\<close>

definition on_page :: "zmm \<Rightarrow> u64 \<Rightarrow> nat \<Rightarrow> nat \<Rightarrow> bool" where
  "on_page mm a n page \<longleftrightarrow> page_offset a + n \<le> 4096 \<and> (\<forall>i<n. walk_task_page mm (a + of_nat i) = Some page)"

lemma on_page_walk: "on_page mm a n page \<Longrightarrow> 0 < n \<Longrightarrow> walk_task_page mm a = Some page"
  unfolding on_page_def by (auto dest: spec [of _ 0])

lemma on_page_Suc:
  assumes "on_page mm a (Suc n) page" "0 < n"
  shows "on_page mm (a + 1) n page" "page_offset (a + 1) = Suc (page_offset a)"
proof -
  show off: "page_offset (a + 1) = Suc (page_offset a)"
    using page_offset_add [of a 1] assms by (simp add: on_page_def)
  have "walk_task_page mm (a + 1 + of_nat i) = Some page" if "i < n" for i
    using assms(1) that unfolding on_page_def by (auto simp: add.assoc dest!: spec [of _ "Suc i"])
  with off show "on_page mm (a + 1) n page" using assms(1) by (simp add: on_page_def)
qed

lemma store_virt_page:
  "on_page mm a (length bs) page \<Longrightarrow> store_virt mm a bs phys = Some (\<lambda>x.
     if zkmap page + page_offset a \<le> x \<and> x < zkmap page + page_offset a + length bs
     then bs ! (x - (zkmap page + page_offset a)) else phys x)"
proof (induction bs arbitrary: a phys)
  case (Cons b bs)
  note w = on_page_walk [OF Cons.prems]
  show ?case
  proof (cases "bs = []")
    case True
    then show ?thesis using w by (auto simp: fun_eq_iff)
  next
    case False
    then have next': "on_page mm (a + 1) (length bs) page" "page_offset (a + 1) = Suc (page_offset a)"
      using on_page_Suc [of mm a "length bs" page] Cons.prems by simp_all
    show ?thesis
      using w by (auto simp: Cons.IH [OF next'(1)] next'(2) fun_eq_iff nth_Cons split: nat.split
          intro!: arg_cong [where f = "nth bs"])
  qed
qed (auto simp: fun_eq_iff)

lemma those_Some: "those (map Some xs) = Some xs"
  by (induction xs) simp_all

lemma load_virt_page:
  assumes "on_page mm a n page"
  shows "load_virt mm a n phys = Some (map phys [zkmap page + page_offset a..<zkmap page + page_offset a + n])"
proof -
  have "map (\<lambda>i. virt_byte phys mm (a + of_nat i)) [0..<n] =
      map Some (map phys [zkmap page + page_offset a..<zkmap page + page_offset a + n])"
  proof (rule nth_equalityI)
    fix i assume "i < length (map (\<lambda>i. virt_byte phys mm (a + of_nat i)) [0..<n])"
    then show "map (\<lambda>i. virt_byte phys mm (a + of_nat i)) [0..<n] ! i =
        map Some (map phys [zkmap page + page_offset a..<zkmap page + page_offset a + n]) ! i"
      using assms page_offset_add [of a i] by (simp add: virt_byte_def on_page_def add.assoc)
  qed simp
  then show ?thesis by (simp only: load_virt_def those_Some)
qed

lemma store_word:
  assumes "on_page mm a 4 page"
  shows "store_virt mm a (le_bytes 4 v) phys = Some (store_int phys (zkmap page + page_offset a) v)"
  using assms by (subst store_virt_page) (auto simp: store_int_def le_bytes_def fun_eq_iff)

text \<open>A word is there after it was stored, and a store beside it does not change it.\<close>

lemma stored_word: "v < 2 ^ 32 \<Longrightarrow> le_nat (map (store_int phys p v) [p..<p + 4]) = v"
  unfolding store_int_bytes by (simp add: le_nat_le_bytes)

lemma other_word:
  "p + 4 \<le> q \<or> q + 4 \<le> p \<Longrightarrow> map (store_int phys q v) [p..<p + 4] = map phys [p..<p + 4]"
  by (auto simp: store_int_def)

lemma show_word:
  "on_page mm x 4 page \<Longrightarrow> show_variable mm name x phys = Some (name @ '' addr:'' @ fmt_p x @ '' val:0x'' @
     fmt_x (le_nat (map phys [zkmap page + page_offset x..<zkmap page + page_offset x + 4])) @ nl)"
  by (simp add: show_variable_def load_virt_page)

text \<open>An address of user space that is shown can be typed in again.\<close>

lemma strtol_fmt_p:
  assumes "a \<noteq> 0" "unat a < 2 ^ 63"
  shows "of_int (fst (strtol 16 (fmt_p a))) = a"
proof -
  let ?ds = "to_base 16 (unat a)"
  let ?s = "map (digit_char False) ?ds"
  have ds: "\<forall>d\<in>set ?ds. d < 16" "?ds \<noteq> []" using to_base_digits [of 16 _ "unat a"] by auto
  then have vals: "\<forall>c\<in>set ?s. digit_val c < 16" by auto
  obtain c r where s: "?s = c # r" using ds(2) by (cases ?s) auto
  have "strip_sign (dropWhile is_space (''0x'' @ ?s)) = (False, ''0x'' @ ?s)"
    by (simp add: is_space_def strip_sign_def)
  moreover have "strip_0x (''0x'' @ ?s) = ?s" using vals by (simp add: s strip_0x_def)
  moreover have "takeWhile (\<lambda>c. digit_val c < 16) ?s = ?s" using vals by (simp add: takeWhile_eq_all_conv)
  moreover have "map digit_val ?s = ?ds" using ds by (auto intro!: map_idI)
  ultimately have "strto 16 (fmt_p a) = Some (False, unat a, [])"
    using assms(1) ds(2) by (simp add: strto_def Let_def fmt_p_def fmt_x_def horner_to_base
        del: map_map takeWhile_eq_all_conv)
  moreover have "max (- (2 ^ 63)) (min (2 ^ 63 - 1) i) = i" if "0 \<le> i" "i < 2 ^ 63" for i :: int
    using that by simp
  moreover have "int (unat a) < 2 ^ 63" using assms(2) by (simp only: of_nat_less_numeral_power_cancel_iff)
  ultimately have "fst (strtol 16 (fmt_p a)) = int (unat a)"
    unfolding strtol_def by (simp only: option.case prod.case if_False fst_conv of_nat_0_le_iff)
  then show ?thesis by simp
qed

section \<open>Properties\<close>

text \<open>
  C6: The experiment: when \<open>test\<close> waits, \<open>user_cmd\<close> started with the pid and the address of \<open>a\<close> as
  \<open>test\<close> has shown them prints the value that \<open>test\<close> has given \<open>a\<close> and ends with success; then \<open>test\<close>
  shows \<open>0x12345678\<close> for \<open>a\<close> and the old value for \<open>b\<close>.
\<close>

theorem zpage_changes_variable_of_test:
  assumes "tasks (int pid) = Some t" "task_mm t = Some mm" "pid < 2 ^ 31" "fd \<noteq> - 1"
    and "on_page mm (a_at fr) 4 pa" "on_page mm (b_at fr) 4 pb" "a_at fr \<noteq> 0" "unat (a_at fr) < 2 ^ 63"
    and "zkmap pa + page_offset (a_at fr) + 4 \<le> zkmap pb + page_offset (b_at fr) \<or>
      zkmap pb + page_offset (b_at fr) + 4 \<le> zkmap pa + page_offset (a_at fr)"
  shows "\<exists>phys1 d1.
    test_start mm (int pid) fr phys = Some (
      ''getpid:'' @ fmt_u pid @ '' argc:'' @ fmt_p (argc_at fr) @ '' argv:'' @ fmt_p (argv_is fr) @ nl
      @ ''a addr:'' @ fmt_p (a_at fr) @ '' val:0x'' @ fmt_x 0x55555555 @ nl
      @ ''b addr:'' @ fmt_p (b_at fr) @ '' val:0x'' @ fmt_x 0xAAAAAAAA @ nl
      @ ''Wait input to continue'' @ nl, phys1)
    \<and> user_cmd_main tasks fd (d\<lparr>zphys := phys1\<rparr>) [prog, fmt_u pid, fmt_p (a_at fr)] =
        (Exited 0, ''ioctl ZPAGE_GET_PID_ADDR ret:0x'' @ fmt_x 0x55555555 @ nl, d1)
    \<and> test_rest mm fr (zphys d1) = Some (0,
      ''a addr:'' @ fmt_p (a_at fr) @ '' val:0x'' @ fmt_x 0x12345678 @ nl
      @ ''b addr:'' @ fmt_p (b_at fr) @ '' val:0x'' @ fmt_x 0xAAAAAAAA @ nl
      @ ''Wait input to quit'' @ nl)"
proof -
  let ?p = "zkmap pa + page_offset (a_at fr)" and ?q = "zkmap pb + page_offset (b_at fr)"
  let ?phys1 = "store_int (store_int phys ?p 0x55555555) ?q 0xAAAAAAAA"
  let ?d1 = "d\<lparr>zphys := store_int ?phys1 ?p 0x12345678\<rparr>"
  have ap: "?q + 4 \<le> ?p \<or> ?p + 4 \<le> ?q" "?p + 4 \<le> ?q \<or> ?q + 4 \<le> ?p" using assms(9) by auto
  have word: "le_nat (map (store_int ph r 0x55555555) [r..<r + 4]) = 0x55555555"
    "le_nat (map (store_int ph r 0xAAAAAAAA) [r..<r + 4]) = 0xAAAAAAAA"
    "le_nat (map (store_int ph r 0x12345678) [r..<r + 4]) = 0x12345678" for ph r
    by (rule stored_word, simp)+
  have a1: "le_nat (map ?phys1 [?p..<?p + 4]) = 0x55555555"
    unfolding other_word [OF ap(2)] by (rule word)
  have d1: "zphys ?d1 = store_int ?phys1 ?p 0x12345678" by simp
  have a2: "le_nat (map (zphys ?d1) [?p..<?p + 4]) = 0x12345678"
    unfolding d1 by (rule word)
  have b2: "le_nat (map (zphys ?d1) [?q..<?q + 4]) = 0xAAAAAAAA"
    unfolding d1 other_word [OF ap(1)] by (rule word)
  have fmt_pid: "fmt_d (int pid) = fmt_u pid" by (simp add: fmt_d_def)
  have names: "''a'' @ '' addr:'' @ s = ''a addr:'' @ s" "''b'' @ '' addr:'' @ s = ''b addr:'' @ s" for s
    by simp_all
  have start: "test_start mm (int pid) fr phys = Some (
      ''getpid:'' @ fmt_u pid @ '' argc:'' @ fmt_p (argc_at fr) @ '' argv:'' @ fmt_p (argv_is fr) @ nl
      @ ''a addr:'' @ fmt_p (a_at fr) @ '' val:0x'' @ fmt_x 0x55555555 @ nl
      @ ''b addr:'' @ fmt_p (b_at fr) @ '' val:0x'' @ fmt_x 0xAAAAAAAA @ nl
      @ ''Wait input to continue'' @ nl, ?phys1)"
    by (simp only: test_start_def show_variables_def show_word [OF assms(5)] show_word [OF assms(6)]
        store_word [OF assms(5)] store_word [OF assms(6)] a1 word bind.bind_lunit prod.case append_assoc fmt_pid names)
  have rest: "test_rest mm fr (zphys ?d1) = Some (0,
      ''a addr:'' @ fmt_p (a_at fr) @ '' val:0x'' @ fmt_x 0x12345678 @ nl
      @ ''b addr:'' @ fmt_p (b_at fr) @ '' val:0x'' @ fmt_x 0xAAAAAAAA @ nl
      @ ''Wait input to quit'' @ nl)"
    by (simp only: test_rest_def show_variables_def show_word [OF assms(5)] show_word [OF assms(6)]
        a2 b2 bind.bind_lunit append_assoc names)
  have ret: "load_int ?phys1 ?p = 0x55555555" by (simp only: load_int_def a1) (simp add: c_int_id)
  have w: "walk_task_page mm (a_at fr) = Some pa" using on_page_walk [OF assms(5)] by simp
  have pid: "atoi (fmt_u pid) = int pid" using assms(3) by (simp add: atoi_def strtol_fmt_u c_int_id)
  have addr: "of_int (fst (strtol 16 (fmt_p (a_at fr)))) = a_at fr" by (rule strtol_fmt_p [OF assms(7,8)])
  have "user_cmd_main tasks fd (d\<lparr>zphys := ?phys1\<rparr>) [prog, fmt_u pid, fmt_p (a_at fr)] =
        (Exited 0, ''ioctl ZPAGE_GET_PID_ADDR ret:0x'' @ fmt_x 0x55555555 @ nl, ?d1)"
    using user_cmd_answer [of "[prog, fmt_u pid, fmt_p (a_at fr)]" fd pid "a_at fr" tasks t mm pa
        "d\<lparr>zphys := ?phys1\<rparr>" "0x55555555" ?d1] assms(1-4) pid addr w ret by simp
  with start rest show ?thesis by blast
qed

theorem zpage_changes_variable_of_test_witness:
  "fst (the (test_rest (sample_mm 0) \<lparr>argc_at = 16, argv_is = 32, a_at = 256, b_at = 264\<rparr>
     (zphys (snd (snd (user_cmd_main (sample_tasks 0) 3
       (sample_dev\<lparr>zphys := snd (the (test_start (sample_mm 0) (int 7)
          \<lparr>argc_at = 16, argv_is = 32, a_at = 256, b_at = 264\<rparr> (\<lambda>_. 0)))\<rparr>)
       [''user_cmd'', fmt_u 7, fmt_p 256])))))) = 0"
proof -
  have "page_offset 256 = 256" "page_offset 264 = 264" by (simp_all add: unat_page_offset)
  then have "on_page (sample_mm 0) 256 4 5" "on_page (sample_mm 0) 264 4 5" by (simp_all add: on_page_def sample_walk)
  then show ?thesis
    using zpage_changes_variable_of_test [of "sample_tasks 0" 7 "\<lparr>task_mm = Some (sample_mm 0)\<rparr>" "sample_mm 0" 3
        "\<lparr>argc_at = 16, argv_is = 32, a_at = 256, b_at = 264\<rparr>" 5 5 "\<lambda>_. 0" sample_dev "''user_cmd''"]
      \<open>page_offset 256 = 256\<close> \<open>page_offset 264 = 264\<close>
    by (auto simp: sample_tasks_def)
qed

end
