(* ===== verification/Posix.thy ===== *)
theory Posix
  imports Prelude CLib
begin

text \<open>
  The system calls of the user-space programs under \<open>src/linux\<close>.

  A call is a value of \<open>ucall\<close>, its answer a \<open>reply\<close>: the result, the bytes it delivered, the
  descriptors of the events it delivered, \<open>errno\<close>, and the peer's address (of \<open>accept\<close>, \<open>recvfrom\<close>).  Printing is a call as well, so that the
  history of a run holds everything the program did.  What is open after a history is computed by
  \<open>live\<close>.  The interface \<open>connection\<close> states what a function that sets up a connection owes its
  caller; its instances are in the theories of the programs.
\<close>

datatype sockaddr =
    VmAddr nat nat          \<comment> \<open>cid and port\<close>
  | InAddr nat nat          \<comment> \<open>address and port, the port as the program stores it\<close>
  | NlAddr nat int          \<comment> \<open>groups and pid\<close>

datatype ucall =
    Socket string
  | Bind int sockaddr
  | Connect int sockaddr
  | Listen int nat
  | Accept int
  | Send int bytes
  | Sendto int bytes sockaddr
  | Recv int nat
  | Open string
  | Read int nat
  | Write int bytes
  | Lseek int int
  | Close int
  | EpollCreate
  | EpollAdd int int
  | EpollDel int int
  | EpollWait int nat
  | EpollWaitMs int nat nat
  | Gettimeofday
  | ThreadSelf
  | Gettid
  | Getchar
  | Eventfd nat
  | UIoctl int nat
  | Ptrace string int
  | Waitpid int
  | Malloc nat
  | Free
  | Mmap nat
  | Munmap nat
  | Getpid
  | Sigaction
  | ReadFlag string
  | InetAddr string
  | Fgets
  | Sleep nat
  | Out string
  | Err string
  | Perror string

record reply =
  rv :: int
  rdata :: bytes
  rfds :: "int list"
  rerrno :: int
  rpeer :: sockaddr

type_synonym utrace = "(ucall, reply) trace"
type_synonym user_os = "(ucall, reply) os"
type_synonym 'a uprog = "(ucall, reply, 'a) prog"

text \<open>The result alone of a call.\<close>

definition ucall_rv :: "user_os \<Rightarrow> ucall \<Rightarrow> int uprog" where
  "ucall_rv os c = do { r \<leftarrow> call os c; State_Monad.return (rv r) }"

lemma run_ucall_rv [simp, prog_simps]: "run_state (ucall_rv os c) h = (rv (os h c), h @ [(c, os h c)])"
  by (simp add: ucall_rv_def)

text \<open>The program's name, as \<open>printf\<close> shows \<open>argv[0]\<close>, and the peer's address as text.\<close>

definition arg0 :: "string list \<Rightarrow> string" where
  "arg0 argv = (case argv of [] \<Rightarrow> ''(null)'' | a # as \<Rightarrow> a)"

definition inet_ntoa :: "nat \<Rightarrow> string" where
  "inet_ntoa a = fmt_u (a mod 256) @ ''.'' @ fmt_u (a div 2 ^ 8 mod 256) @ ''.'' @
     fmt_u (a div 2 ^ 16 mod 256) @ ''.'' @ fmt_u (a div 2 ^ 24 mod 256)"

fun addr_of :: "sockaddr \<Rightarrow> nat" where
  "addr_of (VmAddr cid port) = cid"
| "addr_of (InAddr a port) = a"
| "addr_of (NlAddr g pid) = g"

fun port_of :: "sockaddr \<Rightarrow> nat" where
  "port_of (VmAddr cid port) = port"
| "port_of (InAddr a port) = port"
| "port_of (NlAddr g pid) = 0"

definition EXIT_SUCCESS :: int where "EXIT_SUCCESS = 0"
definition EXIT_FAILURE :: int where "EXIT_FAILURE = 1"

section \<open>Open descriptors\<close>

fun opens :: "ucall \<Rightarrow> int \<Rightarrow> int multiset" where
  "opens (Socket d) r = (if 0 \<le> r then {#r#} else {#})"
| "opens (Accept fd) r = (if 0 \<le> r then {#r#} else {#})"
| "opens (Open p) r = (if 0 \<le> r then {#r#} else {#})"
| "opens EpollCreate r = (if 0 \<le> r then {#r#} else {#})"
| "opens (Eventfd n) r = (if 0 \<le> r then {#r#} else {#})"
| "opens _ r = {#}"

fun closes :: "ucall \<Rightarrow> int multiset" where
  "closes (Close fd) = {#fd#}"
| "closes _ = {#}"

definition step_live :: "int multiset \<Rightarrow> ucall \<times> reply \<Rightarrow> int multiset" where
  "step_live F e = F + opens (fst e) (rv (snd e)) - closes (fst e)"

definition live :: "utrace \<Rightarrow> int multiset" where
  "live h = foldl step_live {#} h"

lemma live_Nil [simp]: "live [] = {#}"
  by (simp add: live_def)

lemma live_append [simp]: "live (h @ es) = foldl step_live (live h) es"
  by (simp add: live_def)

lemma step_live_pair [simp]: "step_live F (c, r) = F + opens c (rv r) - closes c"
  by (simp add: step_live_def)

text \<open>
  A set-up function either gives a descriptor, which is then the only one it left open, or a
  negative result and leaves everything as it was.
\<close>

locale connection =
  fixes mk :: "'a \<Rightarrow> user_os \<Rightarrow> int uprog"
    and os_ok :: "user_os \<Rightarrow> bool"
  assumes ok: "os_ok os \<Longrightarrow> run_state (mk a os) h = (fd, h') \<Longrightarrow> 0 \<le> fd \<Longrightarrow> live h' = live h + {#fd#}"
    and failed: "os_ok os \<Longrightarrow> run_state (mk a os) h = (fd, h') \<Longrightarrow> fd < 0 \<Longrightarrow> live h' = live h"
begin

text \<open>A session that uses a connection without opening anything and closes it is balanced.\<close>

lemma session_balanced:
  assumes "os_ok os" "run_state (mk a os) h = (fd, h1)" "0 \<le> fd"
    and "live h2 = live h1" "h3 = h2 @ [(Close fd, r)]"
  shows "live h3 = live h"
  using ok [OF assms(1-3)] assms(4,5) by simp

end

text \<open>Calls that neither open nor close.\<close>

fun neutral :: "ucall \<Rightarrow> bool" where
  "neutral (Socket d) = False"
| "neutral (Accept fd) = False"
| "neutral (Open p) = False"
| "neutral EpollCreate = False"
| "neutral (Eventfd n) = False"
| "neutral (Close fd) = False"
| "neutral _ = True"

lemma neutral_opens: "neutral c \<Longrightarrow> opens c r = {#} \<and> closes c = {#}"
  by (cases c) simp_all

lemma live_neutral: "\<forall>e\<in>set es. neutral (fst e) \<Longrightarrow> foldl step_live F es = F"
  by (induction es arbitrary: F) (auto simp: neutral_opens step_live_def)


text \<open>Programs whose calls all satisfy a predicate; a quiet one neither opens nor closes anything.\<close>

definition only :: "(ucall \<Rightarrow> bool) \<Rightarrow> 'a uprog \<Rightarrow> bool" where
  "only P m \<longleftrightarrow> (\<forall>h. \<exists>es. snd (run_state m h) = h @ es \<and> (\<forall>e\<in>set es. P (fst e)))"

abbreviation quiet :: "'a uprog \<Rightarrow> bool" where
  "quiet \<equiv> only neutral"

lemma only_return [simp]: "only P (State_Monad.return a)"
  by (simp add: only_def)

lemma only_call [simp]: "P c \<Longrightarrow> only P (call os c)"
  by (simp add: only_def)

lemma only_ucall_rv [simp]: "P c \<Longrightarrow> only P (ucall_rv os c)"
  by (simp add: only_def)

lemma only_bind:
  assumes "only P m" "\<And>a. only P (f a)"
  shows "only P (m \<bind> f)"
  unfolding only_def
proof
  fix h
  obtain a h1 where m: "run_state m h = (a, h1)" by fastforce
  from assms(1) m obtain t1 where t1: "h1 = h @ t1" "\<forall>e\<in>set t1. P (fst e)"
    by (metis only_def snd_conv)
  from assms(2) obtain t2 where "snd (run_state (f a) h1) = h1 @ t2" "\<forall>e\<in>set t2. P (fst e)"
    by (metis only_def)
  with m t1 show "\<exists>es. snd (run_state (m \<bind> f) h) = h @ es \<and> (\<forall>e\<in>set es. P (fst e))"
    by (intro exI [of _ "t1 @ t2"]) auto
qed

lemma only_if: "(b \<Longrightarrow> only P m) \<Longrightarrow> (\<not> b \<Longrightarrow> only P n) \<Longrightarrow> only P (if b then m else n)"
  by simp

lemma only_case_option: "only P m \<Longrightarrow> (\<And>x. only P (f x)) \<Longrightarrow> only P (case a of None \<Rightarrow> m | Some x \<Rightarrow> f x)"
  by (simp split: option.split)

lemmas only_rules = only_bind only_if only_case_option

lemma onlyD: "only P m \<Longrightarrow> run_state m h = (a, h') \<Longrightarrow> \<exists>es. h' = h @ es \<and> (\<forall>e\<in>set es. P (fst e))"
  unfolding only_def by (metis snd_conv)

lemma only_run: "only P m \<Longrightarrow> e \<in> set (snd (run_state m [])) \<Longrightarrow> P (fst e)"
  unfolding only_def by (metis append_Nil)

lemma quiet_live: "quiet m \<Longrightarrow> run_state m h = (a, h') \<Longrightarrow> live h' = live h"
  by (auto dest!: onlyD simp: live_neutral)


section \<open>Event loops\<close>

text \<open>
  \<open>for (n = 0; n < nfds; n++)\<close> over the events that \<open>epoll_wait\<close> delivered; a handler gives
  \<open>Some\<close> status to leave the loop and the function.
\<close>

fun for_events :: "(user_os \<Rightarrow> int \<Rightarrow> int option uprog) \<Rightarrow> user_os \<Rightarrow> int list \<Rightarrow> int option uprog" where
  "for_events handle os [] = State_Monad.return None"
| "for_events handle os (fd # fds) =
     do {
       x \<leftarrow> handle os fd;
       (case x of None \<Rightarrow> for_events handle os fds | Some r \<Rightarrow> State_Monad.return (Some r))
     }"

text \<open>
  What a program's handler owes its loop: an invariant that speaks of the events still pending
  is kept by handling the first of them.
\<close>

locale event_handler =
  fixes handle :: "'p \<Rightarrow> user_os \<Rightarrow> int \<Rightarrow> int option uprog"
    and inv :: "'p \<Rightarrow> int list \<Rightarrow> utrace \<Rightarrow> bool"
    and os_ok :: "user_os \<Rightarrow> bool"
  assumes handled: "os_ok os \<Longrightarrow> inv p (fd # fds) h \<Longrightarrow> run_state (handle p os fd) h = (None, h') \<Longrightarrow> inv p fds h'"
begin

lemma for_events_inv:
  "os_ok os \<Longrightarrow> inv p fds h \<Longrightarrow> run_state (for_events (handle p) os fds) h = (None, h') \<Longrightarrow> inv p [] h'"
proof (induction fds arbitrary: h)
  case (Cons fd fds)
  obtain x h1 where x: "run_state (handle p os fd) h = (x, h1)" by fastforce
  with Cons.prems(3) have "x = None" and rest: "run_state (for_events (handle p) os fds) h1 = (None, h')"
    by (auto split: option.splits)
  with x handled [OF Cons.prems(1,2)] have "inv p fds h1" by simp
  with Cons.IH [OF Cons.prems(1) _ rest] show ?case by simp
qed simp

end

text \<open>The descriptors an \<open>epoll\<close> instance watches; closing one takes it out.\<close>

fun watch_step :: "int \<Rightarrow> int set \<Rightarrow> ucall \<times> reply \<Rightarrow> int set" where
  "watch_step ep W (EpollAdd e fd, r) = (if e = ep \<and> rv r = 0 then insert fd W else W)"
| "watch_step ep W (EpollDel e fd, r) = (if e = ep \<and> rv r = 0 then W - {fd} else W)"
| "watch_step ep W (Close fd, r) = W - {fd}"
| "watch_step ep W (c, r) = W"

definition watched :: "int \<Rightarrow> utrace \<Rightarrow> int set" where
  "watched ep h = foldl (watch_step ep) {} h"

lemma watched_Nil [simp]: "watched ep [] = {}"
  by (simp add: watched_def)

lemma watched_append [simp]: "watched ep (h @ es) = foldl (watch_step ep) (watched ep h) es"
  by (simp add: watched_def)

text \<open>
  The documented behaviour of the calls: a new descriptor is one that is not open, \<open>epoll_ctl\<close>
  answers 0 or \<open>-1\<close>, and \<open>epoll_wait\<close> delivers different watched descriptors, at most as many as
  asked for.
\<close>

definition epoll_kernel :: "user_os \<Rightarrow> bool" where
  "epoll_kernel os \<longleftrightarrow>
     (\<forall>h c. c = EpollCreate \<or> (\<exists>d. c = Socket d) \<or> (\<exists>fd. c = Accept fd) \<longrightarrow>
        rv (os h c) = - 1 \<or> 0 \<le> rv (os h c) \<and> rv (os h c) \<notin># live h)
   \<and> (\<forall>h ep fd. rv (os h (EpollAdd ep fd)) \<in> {0, - 1} \<and> rv (os h (EpollDel ep fd)) \<in> {0, - 1})
   \<and> (\<forall>h ep n. rv (os h (EpollWait ep n)) = - 1 \<or>
        0 \<le> rv (os h (EpollWait ep n)) \<and> rv (os h (EpollWait ep n)) \<le> int n \<and>
        length (rfds (os h (EpollWait ep n))) = nat (rv (os h (EpollWait ep n))) \<and>
        distinct (rfds (os h (EpollWait ep n))) \<and> set (rfds (os h (EpollWait ep n))) \<subseteq> watched ep h)"

end
