(* ===== verification/Sockets.thy ===== *)
theory Sockets
  imports Posix
begin

text \<open>
  The socket programs under \<open>src/linux/socket\<close>: \<open>vsock\<close>, \<open>tcp_speed\<close>, \<open>udp\<close> and the
  \<open>tcp\<close> client (the \<open>epoll\<close> server has a theory of its own).

  A program is a \<open>uprog\<close> that returns its exit status; leaving through \<open>exit\<close> in the middle is
  returning from that branch.  The measured time is not modelled: \<open>timing\<close> is the text after the
  byte count.  Loops that end only when the peer stops take fuel, \<open>None\<close> meaning that it ran out.
\<close>

definition MAXLEN :: nat where "MAXLEN = 65536"
definition DATAS :: nat where "DATAS = 1000000"
definition VMADDR_CID_ANY :: nat where "VMADDR_CID_ANY = 4294967295"

section \<open>Virtual-machine sockets\<close>

definition parse_cid :: "string \<Rightarrow> user_os \<Rightarrow> int uprog" where
  "parse_cid cid_str os =
     (let (cid, rest) = strtol 10 cid_str in
      if rest \<noteq> cid_str \<and> rest = '''' then State_Monad.return (c_int cid)
      else do { _ \<leftarrow> call os (Err (''invalid cid: '' @ cid_str @ nl)); State_Monad.return (- 1) })"

definition parse_port :: "string \<Rightarrow> user_os \<Rightarrow> int uprog" where
  "parse_port port_str os =
     (let (port, rest) = strtol 10 port_str in
      if rest \<noteq> port_str \<and> rest = '''' then State_Monad.return (c_int port)
      else do { _ \<leftarrow> call os (Err (''invalid port number: '' @ port_str @ nl)); State_Monad.return (- 1) })"

definition vsock_connect :: "string \<times> string \<Rightarrow> user_os \<Rightarrow> int uprog" where
  "vsock_connect strs os =
     do {
       cid \<leftarrow> parse_cid (fst strs) os;
       if cid < 0 then State_Monad.return (- 1)
       else do {
         port \<leftarrow> parse_port (snd strs) os;
         if port < 0 then State_Monad.return (- 1)
         else do {
           fd \<leftarrow> ucall_rv os (Socket ''AF_VSOCK'');
           if fd < 0 then do { _ \<leftarrow> call os (Perror ''socket''); State_Monad.return (- 1) }
           else do {
             r \<leftarrow> ucall_rv os (Connect fd (VmAddr (nat cid) (nat port)));
             if r \<noteq> 0 then do {
               _ \<leftarrow> call os (Perror ''connect'');
               _ \<leftarrow> call os (Close fd);
               State_Monad.return (- 1)
             } else State_Monad.return fd
           }
         }
       }
     }"

definition vsock_listen :: "string \<Rightarrow> user_os \<Rightarrow> int uprog" where
  "vsock_listen port_str os =
     do {
       port \<leftarrow> parse_port port_str os;
       if port < 0 then State_Monad.return (- 1)
       else do {
         listen_fd \<leftarrow> ucall_rv os (Socket ''AF_VSOCK'');
         if listen_fd < 0 then do { _ \<leftarrow> call os (Perror ''socket''); State_Monad.return (- 1) }
         else do {
           r \<leftarrow> ucall_rv os (Bind listen_fd (VmAddr VMADDR_CID_ANY (nat port)));
           if r \<noteq> 0 then do {
             _ \<leftarrow> call os (Perror ''bind''); _ \<leftarrow> call os (Close listen_fd); State_Monad.return (- 1)
           } else do {
             r \<leftarrow> ucall_rv os (Listen listen_fd 1);
             if r \<noteq> 0 then do {
               _ \<leftarrow> call os (Perror ''listen''); _ \<leftarrow> call os (Close listen_fd); State_Monad.return (- 1)
             } else do {
               acc \<leftarrow> call os (Accept listen_fd);
               if rv acc < 0 then do {
                 _ \<leftarrow> call os (Perror ''accept''); _ \<leftarrow> call os (Close listen_fd); State_Monad.return (- 1)
               } else do {
                 _ \<leftarrow> call os (Err (''Connection from cid '' @ fmt_u (addr_of (rpeer acc)) @ '' port '' @
                   fmt_u (port_of (rpeer acc)) @ ''...'' @ nl));
                 _ \<leftarrow> call os (Close listen_fd);
                 State_Monad.return (rv acc)
               }
             }
           }
         }
       }
     }"

section \<open>Sending and receiving\<close>

text \<open>\<open>num\<close> is an \<open>unsigned long long\<close>.\<close>

definition count_up :: "nat \<Rightarrow> int \<Rightarrow> nat" where
  "count_up num r = c_ulong (int num + r)"

fun send_loop :: "user_os \<Rightarrow> int \<Rightarrow> nat \<Rightarrow> nat \<Rightarrow> nat uprog" where
  "send_loop os fd 0 num = State_Monad.return num"
| "send_loop os fd (Suc n) num =
     do {
       r \<leftarrow> ucall_rv os (Send fd (replicate MAXLEN 0));
       if r \<le> 0 then do {
         _ \<leftarrow> call os (Err (''send error ret:'' @ fmt_d r @ nl));
         State_Monad.return num
       } else send_loop os fd n (count_up num r)
     }"

fun recv_loop :: "user_os \<Rightarrow> int \<Rightarrow> nat \<Rightarrow> nat \<Rightarrow> nat option uprog" where
  "recv_loop os fd 0 num = State_Monad.return None"
| "recv_loop os fd (Suc fuel) num =
     do {
       r \<leftarrow> ucall_rv os (Recv fd MAXLEN);
       if 0 < r then recv_loop os fd fuel (count_up num r) else State_Monad.return (Some num)
     }"

section \<open>The programs\<close>

definition vsock_client_main :: "(nat \<Rightarrow> string) \<Rightarrow> string list \<Rightarrow> user_os \<Rightarrow> int uprog" where
  "vsock_client_main timing argv os =
     (if length argv < 3 then do {
        _ \<leftarrow> call os (Err (''Usage: '' @ arg0 argv @ '' <cid> <port>'' @ nl)); State_Monad.return EXIT_FAILURE
      } else do {
        fd \<leftarrow> vsock_connect (argv ! 1, argv ! 2) os;
        if fd < 0 then do {
          _ \<leftarrow> call os (Err (''vsock_connect '' @ argv ! 1 @ '' '' @ argv ! 2 @ nl));
          State_Monad.return EXIT_FAILURE
        } else do {
          num \<leftarrow> send_loop os fd DATAS 0;
          _ \<leftarrow> call os (Out (''total send '' @ fmt_d (c_long (int num)) @ timing num));
          _ \<leftarrow> call os (Close fd);
          State_Monad.return EXIT_SUCCESS
        }
      })"

definition vsock_server_main :: "nat \<Rightarrow> string list \<Rightarrow> user_os \<Rightarrow> int option uprog" where
  "vsock_server_main fuel argv os =
     (if length argv < 2 then do {
        _ \<leftarrow> call os (Out (''Usage: '' @ arg0 argv @ '' <port>'' @ nl)); State_Monad.return (Some EXIT_FAILURE)
      } else do {
        fd \<leftarrow> vsock_listen (argv ! 1) os;
        if fd < 0 then do {
          _ \<leftarrow> call os (Err (''vsock_listen '' @ argv ! 1 @ '' error'' @ nl));
          State_Monad.return (Some EXIT_FAILURE)
        } else do {
          res \<leftarrow> recv_loop os fd fuel 0;
          (case res of None \<Rightarrow> State_Monad.return None
           | Some num \<Rightarrow> do {
               _ \<leftarrow> call os (Out (''recv '' @ fmt_d (c_long (int num)) @ '' bytes'' @ nl));
               _ \<leftarrow> call os (Close fd);
               State_Monad.return (Some EXIT_SUCCESS)
             })
        }
      })"

text \<open>The \<open>tcp\<close> programs store \<open>PORT\<close> as it is.\<close>

definition TCP_PORT :: nat where "TCP_PORT = 6667"

definition tcp_target :: "string list \<Rightarrow> string" where
  "tcp_target argv = (if length argv < 2 then ''127.0.0.1'' else argv ! 1)"

definition speed_client_main :: "(nat \<Rightarrow> string) \<Rightarrow> string list \<Rightarrow> user_os \<Rightarrow> int uprog" where
  "speed_client_main timing argv os =
     do {
       sockfd \<leftarrow> ucall_rv os (Socket ''AF_INET'');
       if sockfd = - 1 then do { _ \<leftarrow> call os (Perror ''socket''); State_Monad.return EXIT_FAILURE }
       else do {
         addr \<leftarrow> ucall_rv os (InetAddr (tcp_target argv));
         r \<leftarrow> ucall_rv os (Connect sockfd (InAddr (nat addr) TCP_PORT));
         if r = - 1 then do { _ \<leftarrow> call os (Perror ''connect''); State_Monad.return EXIT_FAILURE }
         else do {
           num \<leftarrow> send_loop os sockfd DATAS 0;
           _ \<leftarrow> call os (Out (''total send '' @ fmt_d (c_long (int num)) @ timing num));
           _ \<leftarrow> call os (Close sockfd);
           State_Monad.return EXIT_SUCCESS
         }
       }
     }"

text \<open>The address a server binds to: the given one, or \<open>INADDR_ANY\<close>.\<close>

definition server_addr :: "string list \<Rightarrow> user_os \<Rightarrow> int uprog" where
  "server_addr argv os =
     (if 1 < length argv then ucall_rv os (InetAddr (argv ! 1)) else State_Monad.return 0)"

definition speed_server_main :: "nat \<Rightarrow> string list \<Rightarrow> user_os \<Rightarrow> int option uprog" where
  "speed_server_main fuel argv os =
     do {
       listen_sock \<leftarrow> ucall_rv os (Socket ''AF_INET'');
       if listen_sock = - 1 then do { _ \<leftarrow> call os (Perror ''socket SOCK_STREAM''); State_Monad.return (Some EXIT_FAILURE) }
       else do {
         addr \<leftarrow> server_addr argv os;
         r \<leftarrow> ucall_rv os (Bind listen_sock (InAddr (nat addr) TCP_PORT));
         if r = - 1 then do { _ \<leftarrow> call os (Perror ''bind''); State_Monad.return (Some EXIT_FAILURE) }
         else do {
           r \<leftarrow> ucall_rv os (Listen listen_sock 10);
           if r = - 1 then do { _ \<leftarrow> call os (Perror ''listen''); State_Monad.return (Some EXIT_FAILURE) }
           else do {
             acc \<leftarrow> call os (Accept listen_sock);
             if rv acc = - 1 then do { _ \<leftarrow> call os (Perror ''accept''); State_Monad.return (Some EXIT_FAILURE) }
             else do {
               _ \<leftarrow> call os (Out (''accept from '' @ inet_ntoa (addr_of (rpeer acc)) @ '' fd:'' @ fmt_d (rv acc) @ nl));
               res \<leftarrow> recv_loop os (rv acc) fuel 0;
               (case res of None \<Rightarrow> State_Monad.return None
                | Some num \<Rightarrow> do {
                    _ \<leftarrow> call os (Out (''recv datas:'' @ fmt_d (c_long (int num)) @ nl));
                    State_Monad.return (Some EXIT_SUCCESS)
                  })
             }
           }
         }
       }
     }"

definition tcp_client_main :: "string \<Rightarrow> string list \<Rightarrow> user_os \<Rightarrow> int uprog" where
  "tcp_client_main buf_addr argv os =
     do {
       sockfd \<leftarrow> ucall_rv os (Socket ''AF_INET'');
       if sockfd = - 1 then do { _ \<leftarrow> call os (Perror ''socket''); State_Monad.return EXIT_FAILURE }
       else do {
         addr \<leftarrow> ucall_rv os (InetAddr (tcp_target argv));
         r \<leftarrow> ucall_rv os (Connect sockfd (InAddr (nat addr) TCP_PORT));
         if r = - 1 then do { _ \<leftarrow> call os (Perror ''connect''); State_Monad.return EXIT_FAILURE }
         else do {
           _ \<leftarrow> call os (Out (''buf addr:'' @ buf_addr @ nl));
           _ \<leftarrow> call os (Send sockfd (replicate 10240 0x55));
           _ \<leftarrow> call os (Close sockfd);
           State_Monad.return EXIT_SUCCESS
         }
       }
     }"

text \<open>\<open>htons\<close> on a little-endian machine exchanges the two bytes.\<close>

definition htons :: "nat \<Rightarrow> nat" where
  "htons n = (n mod 256) * 256 + n div 256 mod 256"

definition UDP_PORT :: nat where "UDP_PORT = 7788"
definition BUF_LEN :: nat where "BUF_LEN = 16"

text \<open>The array \<open>buf\<close> holds the text and zeros; a run without a socket ends the process.\<close>

definition udp_client_main :: "string list \<Rightarrow> user_os \<Rightarrow> int uprog" where
  "udp_client_main argv os =
     do {
       sock \<leftarrow> ucall_rv os (Socket ''AF_INET'');
       if sock = - 1 then do { _ \<leftarrow> call os (Perror ''socket''); State_Monad.return EXIT_FAILURE }
       else do {
         addr \<leftarrow> ucall_rv os (InetAddr (tcp_target argv));
         r \<leftarrow> ucall_rv os (Sendto sock (of_cstr ''Hello World'' @ replicate 5 0) (InAddr (nat addr) (htons UDP_PORT)));
         _ \<leftarrow> call os (Out (''sendto ret:'' @ fmt_d r @ nl));
         _ \<leftarrow> call os (Close sock);
         State_Monad.return 0
       }
     }"

text \<open>
  The receiving loop: a datagram of \<open>n\<close> bytes replaces the first \<open>n\<close> bytes of \<open>buf\<close>, and the string
  at \<open>buf\<close> is printed; it runs on into the memory behind \<open>buf\<close> when no byte of it is zero.
\<close>

definition packet_text :: "sockaddr \<Rightarrow> string \<Rightarrow> string" where
  "packet_text peer s = ''Received packet from '' @ inet_ntoa (addr_of peer) @ '':'' @
     fmt_d (int (htons (port_of peer))) @ nl @ ''Data:'' @ s @ nl"

fun udp_loop :: "user_os \<Rightarrow> int \<Rightarrow> bytes \<Rightarrow> nat \<Rightarrow> bytes \<Rightarrow> int option uprog" where
  "udp_loop os sock stack 0 buf = State_Monad.return None"
| "udp_loop os sock stack (Suc fuel) buf =
     do {
       r \<leftarrow> call os (Recv sock BUF_LEN);
       if rv r = - 1 then do { _ \<leftarrow> call os (Perror ''recvfrom''); State_Monad.return (Some EXIT_FAILURE) }
       else (let buf' = patch buf 0 (take BUF_LEN (rdata r)) in
         do {
           _ \<leftarrow> call os (Out (packet_text (rpeer r) (cstr (buf' @ stack))));
           udp_loop os sock stack fuel buf'
         })
     }"

definition udp_server_main :: "bytes \<Rightarrow> bytes \<Rightarrow> nat \<Rightarrow> user_os \<Rightarrow> int option uprog" where
  "udp_server_main buf stack fuel os =
     do {
       sock \<leftarrow> ucall_rv os (Socket ''AF_INET'');
       if sock = - 1 then do { _ \<leftarrow> call os (Perror ''socket''); State_Monad.return (Some EXIT_FAILURE) }
       else do {
         r \<leftarrow> ucall_rv os (Bind sock (InAddr 0 (htons UDP_PORT)));
         if r = - 1 then do { _ \<leftarrow> call os (Perror ''bind''); State_Monad.return (Some EXIT_FAILURE) }
         else udp_loop os sock stack fuel buf
       }
     }"


section \<open>The connections\<close>

lemma quiet_parse_cid: "quiet (parse_cid s os)"
  by (auto simp: parse_cid_def case_prod_beta Let_def intro!: only_rules)

lemma quiet_parse_port: "quiet (parse_port s os)"
  by (auto simp: parse_port_def case_prod_beta Let_def intro!: only_rules)

interpretation vsock_client: connection vsock_connect "\<lambda>_. True"
proof
  fix strs os h fd h'
  assume run: "run_state (vsock_connect strs os) h = (fd, h')"
  obtain c h1 where c: "run_state (parse_cid (fst strs) os) h = (c, h1)" by fastforce
  obtain p h2 where p: "run_state (parse_port (snd strs) os) h1 = (p, h2)" by fastforce
  have l: "live h1 = live h" "live h2 = live h"
    using quiet_live [OF quiet_parse_cid c] quiet_live [OF quiet_parse_port p] by simp_all
  show "0 \<le> fd \<Longrightarrow> live h' = live h + {#fd#}" and "fd < 0 \<Longrightarrow> live h' = live h"
    using run c p l by (auto simp: vsock_connect_def split: if_splits)
qed

interpretation vsock_server: connection vsock_listen "\<lambda>_. True"
proof
  fix s os h fd h'
  assume run: "run_state (vsock_listen s os) h = (fd, h')"
  obtain p h1 where p: "run_state (parse_port s os) h = (p, h1)" by fastforce
  have l: "live h1 = live h"
    using quiet_live [OF quiet_parse_port p] by simp
  show "0 \<le> fd \<Longrightarrow> live h' = live h + {#fd#}" and "fd < 0 \<Longrightarrow> live h' = live h"
    using run p l by (auto simp: vsock_listen_def split: if_splits)
qed

lemma quiet_send_loop: "quiet (send_loop os fd n num)"
  by (induction n arbitrary: num) (auto intro!: only_rules)

lemma quiet_recv_loop: "quiet (recv_loop os fd n num)"
  by (induction n arbitrary: num) (auto intro!: only_rules)

section \<open>The byte counts\<close>

fun sent :: "int \<Rightarrow> utrace \<Rightarrow> int" where
  "sent fd [] = 0"
| "sent fd ((c, r) # es) = (case c of Send f bs \<Rightarrow> if f = fd \<and> 0 < rv r then rv r else 0 | _ \<Rightarrow> 0) + sent fd es"

fun received :: "int \<Rightarrow> utrace \<Rightarrow> int" where
  "received fd [] = 0"
| "received fd ((c, r) # es) = (case c of Recv f n \<Rightarrow> if f = fd \<and> 0 < rv r then rv r else 0 | _ \<Rightarrow> 0) + received fd es"

lemma sent_append [simp]: "sent fd (xs @ ys) = sent fd xs + sent fd ys"
  by (induction fd xs rule: sent.induct) auto

lemma received_append [simp]: "received fd (xs @ ys) = received fd xs + received fd ys"
  by (induction fd xs rule: received.induct) auto

lemma send_loop_count:
  assumes "\<And>h bs. rv (os h (Send fd bs)) \<le> int (length bs)" "num + n * MAXLEN < 2 ^ 64"
  shows "\<exists>es. snd (run_state (send_loop os fd n num) h) = h @ es \<and>
    int (fst (run_state (send_loop os fd n num) h)) = int num + sent fd es \<and>
    sent fd es \<le> int (n * MAXLEN)"
  using assms(2)
proof (induction n arbitrary: num h)
  case (Suc n)
  let ?c = "Send fd (replicate MAXLEN 0)"
  let ?r = "rv (os h ?c)"
  show ?case
  proof (cases "?r \<le> 0")
    case True
    then show ?thesis by simp
  next
    case False
    have le: "?r \<le> int MAXLEN" using assms(1) [of h "replicate MAXLEN 0"] by simp
    then have num: "count_up num ?r = num + nat ?r"
      using False Suc.prems by (simp add: count_up_def nat_add_distrib)
    have "count_up num ?r + n * MAXLEN < 2 ^ 64"
      using le Suc.prems unfolding num by simp
    from Suc.IH [OF this, of "h @ [(?c, os h ?c)]"] False num le show ?thesis
      by (auto simp: add.assoc algebra_simps)
  qed
qed simp

text \<open>The history after \<open>k\<close> receives.\<close>

primrec recv_hist :: "user_os \<Rightarrow> int \<Rightarrow> utrace \<Rightarrow> nat \<Rightarrow> utrace" where
  "recv_hist os fd h 0 = []"
| "recv_hist os fd h (Suc k) = recv_hist os fd h k @ [(Recv fd MAXLEN, os (h @ recv_hist os fd h k) (Recv fd MAXLEN))]"

lemma recv_hist_Suc:
  "recv_hist os fd h (Suc k) = (Recv fd MAXLEN, os h (Recv fd MAXLEN)) #
     recv_hist os fd (h @ [(Recv fd MAXLEN, os h (Recv fd MAXLEN))]) k"
  by (induction k) simp_all

definition recv_at :: "user_os \<Rightarrow> int \<Rightarrow> utrace \<Rightarrow> nat \<Rightarrow> int" where
  "recv_at os fd h k = rv (os (h @ recv_hist os fd h k) (Recv fd MAXLEN))"

lemma recv_at_Suc: "recv_at os fd h (Suc k) = recv_at os fd (h @ [(Recv fd MAXLEN, os h (Recv fd MAXLEN))]) k"
  unfolding recv_at_def recv_hist_Suc by simp

lemma recv_loop_ends:
  assumes "\<forall>j<k. 0 < recv_at os fd h j" "recv_at os fd h k \<le> 0" "k < fuel"
    and "int num + received fd (recv_hist os fd h k) < 2 ^ 64"
  shows "run_state (recv_loop os fd fuel num) h =
    (Some (nat (int num + received fd (recv_hist os fd h k))), h @ recv_hist os fd h (Suc k))"
  using assms
proof (induction k arbitrary: fuel num h)
  case 0
  then obtain f where f: "fuel = Suc f" by (cases fuel) auto
  from 0 show ?case by (simp add: f recv_at_def)
next
  case (Suc k)
  then obtain f where f: "fuel = Suc f" by (cases fuel) auto
  let ?c = "Recv fd MAXLEN"
  let ?h = "h @ [(?c, os h ?c)]"
  have r: "0 < rv (os h ?c)" using Suc.prems(1) by (auto simp: recv_at_def dest: spec [of _ 0])
  have pos: "\<forall>j<k. 0 < recv_at os fd ?h j"
    using Suc.prems(1) recv_at_Suc [of os fd h] by (metis Suc_less_eq)
  have nonneg: "0 \<le> received fd es" for es
    by (induction fd es rule: received.induct) (auto split: ucall.splits)
  have tot: "int num + rv (os h ?c) + received fd (recv_hist os fd ?h k) < 2 ^ 64"
    using Suc.prems(4) r unfolding recv_hist_Suc by simp
  then have num: "int (count_up num (rv (os h ?c))) = int num + rv (os h ?c)"
    using r nonneg [of "recv_hist os fd ?h k"] by (simp add: count_up_def)
  have "run_state (recv_loop os fd f (count_up num (rv (os h ?c)))) ?h =
    (Some (nat (int (count_up num (rv (os h ?c))) + received fd (recv_hist os fd ?h k))), ?h @ recv_hist os fd ?h (Suc k))"
    using Suc.prems(2,3) f pos tot num recv_at_Suc [of os fd h k] by (intro Suc.IH) auto
  with r show ?case
    unfolding recv_hist_Suc [of os fd h "Suc k"] recv_hist_Suc [of os fd h k] f by (simp add: num add.assoc)
qed


section \<open>Properties\<close>

text \<open>
  C13: The \<open>vsock\<close> programs give every descriptor back: whatever the arguments are and whatever the
  system calls answer, at the end of the client, and of the server when it ends, exactly the
  descriptors are open that were open before.
\<close>

theorem vsock_programs_balanced:
  "live (snd (run_state (vsock_client_main timing argv os) h)) = live h
   \<and> (\<forall>r h'. run_state (vsock_server_main fuel argv os) h = (Some r, h') \<longrightarrow> live h' = live h)"
proof
  show "live (snd (run_state (vsock_client_main timing argv os) h)) = live h"
  proof (cases "length argv < 3")
    case False
    obtain fd h1 where c: "run_state (vsock_connect (argv ! 1, argv ! 2) os) h = (fd, h1)" by fastforce
    obtain n h2 where s: "run_state (send_loop os fd DATAS 0) h1 = (n, h2)" by fastforce
    have "live h2 = live h1" using quiet_live [OF quiet_send_loop s] .
    then show ?thesis
      using vsock_client.ok [OF TrueI c] vsock_client.failed [OF TrueI c] c s False
      by (simp add: vsock_client_main_def)
  qed (simp add: vsock_client_main_def)
next
  show "\<forall>r h'. run_state (vsock_server_main fuel argv os) h = (Some r, h') \<longrightarrow> live h' = live h"
  proof (intro allI impI)
    fix r h' assume run: "run_state (vsock_server_main fuel argv os) h = (Some r, h')"
    obtain fd h1 where c: "run_state (vsock_listen (argv ! 1) os) h = (fd, h1)" by fastforce
    obtain n h2 where s: "run_state (recv_loop os fd fuel 0) h1 = (n, h2)" by fastforce
    have "live h2 = live h1" using quiet_live [OF quiet_recv_loop s] .
    then show "live h' = live h"
      using vsock_server.ok [OF TrueI c] vsock_server.failed [OF TrueI c] c s run
      by (auto simp: vsock_server_main_def split: if_splits option.splits)
  qed
qed

theorem vsock_programs_balanced_witness:
  "live (snd (run_state (vsock_client_main (\<lambda>_. '''') [''c'', ''2'', ''80''] (\<lambda>_ _. \<lparr>rv = - 1, rdata = [], rfds = [], rerrno = 0, rpeer = InAddr 0 0\<rparr>)) [])) = {#}"
  using vsock_programs_balanced [of "\<lambda>_. ''''" "[''c'', ''2'', ''80'']"
      "\<lambda>_ _. \<lparr>rv = - 1, rdata = [], rfds = [], rerrno = 0, rpeer = InAddr 0 0\<rparr>" "[]" 0] by simp

text \<open>
  Once connected, the client prints exactly the number of bytes that its \<open>send\<close> calls took,
  closes the connection and exits with success: the count is at most \<open>DATAS * MAXLEN\<close> and never wraps.
\<close>

theorem vsock_client_reports_sent:
  assumes "2 < length argv" "run_state (vsock_connect (argv ! 1, argv ! 2) os) h = (fd, h1)" "0 \<le> fd"
    and "\<And>h bs. rv (os h (Send fd bs)) \<le> int (length bs)"
  shows "\<exists>es r1 r2. run_state (vsock_client_main timing argv os) h = (EXIT_SUCCESS,
      h1 @ es @ [(Out (''total send '' @ fmt_d (sent fd es) @ timing (nat (sent fd es))), r1), (Close fd, r2)])
    \<and> sent fd es \<le> int (DATAS * MAXLEN)"
proof -
  have b: "0 + DATAS * MAXLEN < 2 ^ 64" by (simp add: DATAS_def MAXLEN_def)
  obtain es where es: "snd (run_state (send_loop os fd DATAS 0) h1) = h1 @ es"
    "int (fst (run_state (send_loop os fd DATAS 0) h1)) = sent fd es" "sent fd es \<le> int (DATAS * MAXLEN)"
    using send_loop_count [where os = os and fd = fd, OF assms(4) b, where h = h1] by auto
  let ?num = "fst (run_state (send_loop os fd DATAS 0) h1)"
  have "run_state (send_loop os fd DATAS 0) h1 = (?num, h1 @ es)" using es(1) by (metis prod.collapse)
  moreover have "c_long (int ?num) = sent fd es" "?num = nat (sent fd es)"
    using es(2,3) by (simp_all add: DATAS_def MAXLEN_def flip: es(2))
  ultimately show ?thesis
    using assms(1-3) es(3) by (simp add: vsock_client_main_def)
qed

definition quiet_peer :: user_os where
  "quiet_peer h c = \<lparr>rv = (case c of Socket d \<Rightarrow> 3 | Accept fd \<Rightarrow> 4 | _ \<Rightarrow> 0), rdata = [], rfds = [], rerrno = 0, rpeer = InAddr 0 0\<rparr>"

lemma strtol_2: "strtol 10 ''2'' = (2, '''')"
  by (simp add: strtol_def strto_def strip_sign_def is_space_def digit_val_def horner_def)

lemma quiet_peer_connect:
  "\<exists>h1. run_state (vsock_connect (''2'', ''2'') quiet_peer) [] = (3, h1)"
  by (simp add: vsock_connect_def parse_cid_def parse_port_def strtol_2 quiet_peer_def)

theorem vsock_client_reports_sent_witness:
  "fst (run_state (vsock_client_main (\<lambda>_. '''') [''c'', ''2'', ''2''] quiet_peer) []) = EXIT_SUCCESS"
proof -
  obtain h1 where "run_state (vsock_connect (''2'', ''2'') quiet_peer) [] = (3, h1)"
    using quiet_peer_connect by blast
  then show ?thesis
    using vsock_client_reports_sent [of "[''c'', ''2'', ''2'']" quiet_peer "[]" 3 h1 "\<lambda>_. ''''"]
    by (auto simp: quiet_peer_def)
qed

text \<open>
  When the peer stops sending after \<open>k\<close> chunks, the server ends: \<open>k + 1\<close> rounds are enough, it
  prints exactly the number of bytes received, closes the connection and exits with success.
\<close>

theorem vsock_server_reports_received:
  assumes "1 < length argv" "run_state (vsock_listen (argv ! 1) os) h = (fd, h1)" "0 \<le> fd"
    and "\<forall>j<k. 0 < recv_at os fd h1 j" "recv_at os fd h1 k \<le> 0" "k < fuel"
    and "received fd (recv_hist os fd h1 k) < 2 ^ 63"
  shows "\<exists>r1 r2. run_state (vsock_server_main fuel argv os) h = (Some EXIT_SUCCESS,
    h1 @ recv_hist os fd h1 (Suc k) @
    [(Out (''recv '' @ fmt_d (received fd (recv_hist os fd h1 k)) @ '' bytes'' @ nl), r1), (Close fd, r2)])"
proof -
  let ?n = "received fd (recv_hist os fd h1 k)"
  have nonneg: "0 \<le> received fd es" for es
    by (induction fd es rule: received.induct) (auto split: ucall.splits)
  have "run_state (recv_loop os fd fuel 0) h1 = (Some (nat ?n), h1 @ recv_hist os fd h1 (Suc k))"
    using recv_loop_ends [OF assms(4-6), of 0] assms(7) by simp
  moreover have "c_long (int (nat ?n)) = ?n" using nonneg [of "recv_hist os fd h1 k"] assms(7) by simp
  ultimately show ?thesis
    using assms(1-3) by (simp add: vsock_server_main_def del: recv_hist.simps)
qed

theorem vsock_server_reports_received_witness:
  "\<exists>h'. run_state (vsock_server_main 1 [''s'', ''2''] quiet_peer) [] = (Some EXIT_SUCCESS, h')"
proof -
  have "\<exists>h1. run_state (vsock_listen ''2'' quiet_peer) [] = (4, h1)"
    by (simp add: vsock_listen_def parse_port_def strtol_2 quiet_peer_def)
  then obtain h1 where "run_state (vsock_listen ''2'' quiet_peer) [] = (4, h1)" by blast
  then show ?thesis
    using vsock_server_reports_received [of "[''s'', ''2'']" quiet_peer "[]" 4 h1 0 1]
    by (auto simp: recv_at_def quiet_peer_def)
qed

text \<open>
  Port numbers pass through \<open>int\<close>: a port in the upper half of the 32-bit range, written in
  decimal, is refused before any system call, and a number of at least \<open>2 ^ 32\<close> is accepted and
  stands for the port it is modulo \<open>2 ^ 32\<close>.
\<close>

theorem vsock_port_goes_through_int:
  assumes "n < 2 ^ 31" "strtol 10 cid = (c, '''')" "cid \<noteq> ''''" "0 \<le> c" "c < 2 ^ 31"
  shows "run_state (vsock_connect (cid, fmt_u (2 ^ 31 + n)) os) h = (- 1, h)
    \<and> run_state (vsock_connect (cid, fmt_u (2 ^ 32 + n)) os) h = run_state (vsock_connect (cid, fmt_u n) os) h"
proof -
  have ne: "fmt_u k \<noteq> ''''" for k by (simp add: fmt_u_def)
  have port: "run_state (parse_port (fmt_u k) os) h = (c_int (int k), h)" if "k < 2 ^ 63" for k h
    using strtol_fmt_u [OF that] ne [of k] by (simp add: parse_port_def)
  have cid: "run_state (parse_cid cid os) h = (c, h)"
    using assms(2-5) by (simp add: parse_cid_def)
  have up: "c_int (int (2 ^ 31 + n)) < 0"
    using assms(1) c_int_wrap_down [of "int (2 ^ 31 + n)"] by simp
  have wrap: "c_int (int (2 ^ 32 + n)) = c_int (int n)"
    using c_int_period [of "int n"] by simp
  show ?thesis
    using port [of "2 ^ 31 + n" h] port [of "2 ^ 32 + n" h] port [of n h] cid up wrap assms(1,4)
    by (simp add: vsock_connect_def)
qed

theorem vsock_port_goes_through_int_witness:
  "run_state (vsock_connect (''2'', fmt_u (2 ^ 31 + 5)) quiet_peer) [] = (- 1, [])"
  using vsock_port_goes_through_int [of 5 "''2''" 2 quiet_peer "[]"] strtol_2 by simp


text \<open>The port a call uses, as a number on the wire.\<close>

fun inet_port :: "ucall \<Rightarrow> nat option" where
  "inet_port (Connect fd (InAddr a p)) = Some (htons p)"
| "inet_port (Bind fd (InAddr a p)) = Some (htons p)"
| "inet_port (Sendto fd bs (InAddr a p)) = Some (htons p)"
| "inet_port c = None"

definition uses_port :: "nat \<Rightarrow> ucall \<Rightarrow> bool" where
  "uses_port p c \<longleftrightarrow> (case inet_port c of None \<Rightarrow> True | Some q \<Rightarrow> q = p)"

lemma uses_port_simps [simp]:
  "uses_port p (Socket d)" "uses_port p (Close fd)" "uses_port p (Out s)" "uses_port p (Err s)" "uses_port p (Perror s)"
  "uses_port p (InetAddr s)" "uses_port p (Send fd bs)" "uses_port p (Recv fd n)" "uses_port p (Listen fd n)"
  "uses_port p (Accept fd)" "uses_port p (Connect fd (InAddr a q)) = (htons q = p)"
  "uses_port p (Bind fd (InAddr a q)) = (htons q = p)" "uses_port p (Sendto fd bs (InAddr a q)) = (htons q = p)"
  by (simp_all add: uses_port_def)

lemma port_send_loop [simp]: "only (uses_port p) (send_loop os fd n num)"
  by (induction n arbitrary: num) (auto intro!: only_rules)

lemma port_recv_loop [simp]: "only (uses_port p) (recv_loop os fd n num)"
  by (induction n arbitrary: num) (auto intro!: only_rules)

lemma port_udp_loop [simp]: "only (uses_port p) (udp_loop os sock stack n buf)"
  by (induction n arbitrary: buf) (auto intro!: only_rules simp: Let_def)

lemma port_values: "htons TCP_PORT = 2842" "htons (htons UDP_PORT) = 7788"
  by (simp_all add: TCP_PORT_def UDP_PORT_def htons_def)

text \<open>
  All \<open>tcp\<close> programs meet at one port, but it is 2842 and not the 6667 they name: \<open>PORT\<close> is
  stored without \<open>htons\<close>.  The \<open>udp\<close> programs convert and use 7788.
\<close>

theorem inet_programs_ports:
  "only (uses_port 2842) (tcp_client_main buf_addr argv os)
   \<and> only (uses_port 2842) (speed_client_main timing argv os)
   \<and> only (uses_port 2842) (speed_server_main fuel argv os)
   \<and> only (uses_port 7788) (udp_client_main argv os)
   \<and> only (uses_port 7788) (udp_server_main buf stack fuel os)"
  by (auto simp: tcp_client_main_def speed_client_main_def speed_server_main_def udp_client_main_def
      udp_server_main_def server_addr_def port_values intro!: only_rules)

text \<open>
  The \<open>udp\<close> server prints a datagram of \<open>n\<close> bytes without a zero as its text followed by whatever
  \<open>buf\<close> holds behind it, the tail of an earlier datagram, and for 16 bytes by the memory behind \<open>buf\<close>;
  the client's datagram, which carries its zeros, is printed as \<open>Hello World\<close> in any case.
\<close>

theorem udp_server_prints:
  assumes "length buf = 16" "rv (os h (Recv sock BUF_LEN)) \<noteq> - 1"
    and "rdata (os h (Recv sock BUF_LEN)) = d" "length d \<le> 16"
  shows "\<exists>text r1 r2. run_state (udp_loop os sock stack 1 buf) h =
      (None, h @ [(Recv sock BUF_LEN, r1), (Out (packet_text (rpeer r1) text), r2)])
    \<and> ((\<forall>b\<in>set d. b \<noteq> 0) \<longrightarrow> text = map (\<lambda>b. char_of (unat b)) d @ cstr (drop (length d) buf @ stack))
    \<and> (\<forall>argv os' sk addr r. (Sendto sk d addr, r) \<in> set (snd (run_state (udp_client_main argv os') [])) \<longrightarrow>
        text = ''Hello World'')"
proof -
  have run: "\<exists>r1 r2. run_state (udp_loop os sock stack 1 buf) h =
      (None, h @ [(Recv sock BUF_LEN, r1), (Out (packet_text (rpeer r1) (cstr (patch buf 0 d @ stack))), r2)])"
    using assms(2-4) by (simp add: BUF_LEN_def numeral_eq_Suc One_nat_def)
  have nz: "cstr (patch buf 0 d @ stack) = map (\<lambda>b. char_of (unat b)) d @ cstr (drop (length d) buf @ stack)"
    if "\<forall>b\<in>set d. b \<noteq> 0"
    using that by (simp add: patch_def cstr_def takeWhile_append2)
  have hello: "cstr (patch buf 0 d @ stack) = ''Hello World''"
    if "(Sendto sk d addr, r) \<in> set (snd (run_state (udp_client_main argv os') []))" for argv os' sk addr r
  proof -
    have "d = of_cstr ''Hello World'' @ replicate 5 0"
      using that by (auto simp: udp_client_main_def split: if_splits)
    then have "patch buf 0 d @ stack = of_cstr ''Hello World'' @ 0 # (replicate 4 0 @ stack)"
      using assms(1) by (simp add: patch_def of_cstr_def numeral_eq_Suc)
    then show ?thesis by (simp only:) (rule cstr_of_cstr_nul, simp)
  qed
  show ?thesis using run nz hello by blast
qed

theorem udp_server_prints_witness:
  "\<exists>text r1 r2. run_state (udp_loop quiet_peer 3 [0] 1 (replicate 16 65)) [] =
     (None, [(Recv 3 BUF_LEN, r1), (Out (packet_text (rpeer r1) text), r2)]) \<and>
     text = cstr (replicate 16 65 @ [0])"
  using udp_server_prints [of "replicate 16 65" quiet_peer "[]" 3 "[]" "[0]"]
  by (auto simp: quiet_peer_def)

end
