(* ===== verification/Streams.thy ===== *)
theory Streams
  imports Sockets
begin

text \<open>
  The programs of \<open>src/linux/socket\<close> in pairs: the sender and the receiver of one stream
  (\<open>vsock_client.c\<close> with \<open>vsock_server.c\<close>, \<open>tcp_speed/tcp_client.c\<close> with
  \<open>tcp_speed/tcp_server.c\<close>).  What a stream is, is a hypothesis on the receiver's \<open>recv\<close> calls:
  while less has been delivered than the sender's \<open>send\<close> calls took, a call delivers at least one
  byte and no more than what is left, in pieces of any size; after that it delivers nothing.
\<close>

section \<open>Streams\<close>

definition delivers :: "user_os \<Rightarrow> int \<Rightarrow> utrace \<Rightarrow> int \<Rightarrow> bool" where
  "delivers os fd h n \<longleftrightarrow> (\<forall>es. let r = rv (os (h @ es) (Recv fd MAXLEN)) in
     if received fd es < n then 0 < r \<and> received fd es + r \<le> n else r \<le> 0)"

lemma delivers_steps:
  assumes "delivers os fd h n" "0 \<le> n"
  shows "(\<exists>k<m. (\<forall>j<k. 0 < recv_at os fd h j) \<and> recv_at os fd h k \<le> 0 \<and> received fd (recv_hist os fd h k) = n)
    \<or> (\<forall>j<m. 0 < recv_at os fd h j) \<and> int m \<le> received fd (recv_hist os fd h m) \<and> received fd (recv_hist os fd h m) \<le> n"
    (is "(\<exists>k<m. ?stop k) \<or> ?on m")
proof (induction m)
  case 0
  then show ?case using assms(2) by simp
next
  case (Suc m)
  then show ?case
  proof
    assume "\<exists>k<m. ?stop k"
    then obtain k where "k < Suc m" "?stop k" using less_SucI by blast
    then have "\<exists>k<Suc m. ?stop k" by blast
    then show ?thesis ..
  next
    assume on: "?on m"
    have law: "if received fd (recv_hist os fd h m) < n
      then 0 < recv_at os fd h m \<and> received fd (recv_hist os fd h m) + recv_at os fd h m \<le> n
      else recv_at os fd h m \<le> 0"
      using assms(1) by (auto simp: delivers_def recv_at_def Let_def)
    show ?thesis
    proof (cases "received fd (recv_hist os fd h m) < n")
      case True
      then have "received fd (recv_hist os fd h (Suc m)) = received fd (recv_hist os fd h m) + recv_at os fd h m"
        using law by (simp add: recv_at_def)
      then have "?on (Suc m)"
        using on law True less_Suc_eq by auto
      then show ?thesis ..
    next
      case False
      then have "?stop m" using on law by auto
      then show ?thesis by blast
    qed
  qed
qed

lemma delivers_ends:
  assumes "delivers os fd h n" "0 \<le> n"
  obtains k where "k \<le> nat n" "\<forall>j<k. 0 < recv_at os fd h j" "recv_at os fd h k \<le> 0"
    "received fd (recv_hist os fd h k) = n"
proof -
  have "int (Suc (nat n)) = n + 1" using assms(2) by simp
  then obtain k where "k < Suc (nat n)" "\<forall>j<k. 0 < recv_at os fd h j" "recv_at os fd h k \<le> 0"
    "received fd (recv_hist os fd h k) = n"
    using delivers_steps [OF assms, of "Suc (nat n)"] by (elim disjE exE conjE) (blast, linarith)
  then show thesis by (intro that) simp_all
qed

section \<open>Nothing is sent or received before the connection\<close>

definition no_transfer :: "ucall \<Rightarrow> bool" where
  "no_transfer c \<longleftrightarrow> (case c of Send fd bs \<Rightarrow> False | Recv fd n \<Rightarrow> False | _ \<Rightarrow> True)"

lemma no_transfer_counts:
  "\<forall>e\<in>set es. no_transfer (fst e) \<Longrightarrow> sent fd es = 0 \<and> received fd es = 0"
  by (induction es) (auto simp: no_transfer_def split: ucall.splits)

lemma only_parse [simp]: "only no_transfer (parse_cid s os)" "only no_transfer (parse_port s os)"
  by (auto simp: parse_cid_def parse_port_def no_transfer_def case_prod_beta Let_def intro!: only_rules)

lemma only_set_up [simp]: "only no_transfer (vsock_connect s os)" "only no_transfer (vsock_listen p os)"
  by (auto simp: vsock_connect_def vsock_listen_def no_transfer_def intro!: only_rules)

lemma set_up_counts:
  "run_state (vsock_connect s os) [] = (fd, h) \<Longrightarrow> sent f h = 0"
  "run_state (vsock_listen p os) [] = (fd, h) \<Longrightarrow> received f h = 0"
  using only_set_up onlyD no_transfer_counts by (metis append_Nil)+

section \<open>Properties\<close>

text \<open>
  C24: Client and server agree: on a stream that delivers what the client's \<open>send\<close> calls took, in
  whatever pieces, the server ends, after at most one round more than there are bytes, and both
  programs print the same number and exit with success.
\<close>

theorem vsock_transfer_counts_agree:
  assumes "2 < length cargv" "run_state (vsock_connect (cargv ! 1, cargv ! 2) cos) [] = (cfd, ch)" "0 \<le> cfd"
    and "\<And>h bs. rv (cos h (Send cfd bs)) \<le> int (length bs)"
    and "1 < length sargv" "run_state (vsock_listen (sargv ! 1) sos) [] = (sfd, sh)" "0 \<le> sfd"
    and "n = sent cfd (snd (run_state (vsock_client_main timing cargv cos) []))"
    and "delivers sos sfd sh n" "nat n < fuel"
  shows "\<exists>ces ses r1 r2 r3 r4.
    run_state (vsock_client_main timing cargv cos) [] =
      (EXIT_SUCCESS, ces @ [(Out (''total send '' @ fmt_d n @ timing (nat n)), r1), (Close cfd, r2)])
    \<and> run_state (vsock_server_main fuel sargv sos) [] =
      (Some EXIT_SUCCESS, ses @ [(Out (''recv '' @ fmt_d n @ '' bytes'' @ nl), r3), (Close sfd, r4)])"
proof -
  obtain es r1 r2 where client: "run_state (vsock_client_main timing cargv cos) [] = (EXIT_SUCCESS,
      ch @ es @ [(Out (''total send '' @ fmt_d (sent cfd es) @ timing (nat (sent cfd es))), r1), (Close cfd, r2)])"
    and le: "sent cfd es \<le> int (DATAS * MAXLEN)"
    using vsock_client_reports_sent [OF assms(1-4), of timing] by blast
  have n: "n = sent cfd es"
    unfolding assms(8) client using set_up_counts(1) [OF assms(2)] by simp
  have nonneg: "0 \<le> n" unfolding n by (induction cfd es rule: sent.induct) (auto split: ucall.splits)
  obtain k where k: "k \<le> nat n" "\<forall>j<k. 0 < recv_at sos sfd sh j" "recv_at sos sfd sh k \<le> 0"
    "received sfd (recv_hist sos sfd sh k) = n"
    using delivers_ends [OF assms(9) nonneg] .
  have "received sfd (recv_hist sos sfd sh k) < 2 ^ 63"
    using le unfolding k(4) n by (simp add: DATAS_def MAXLEN_def)
  moreover have "k < fuel" using k(1) assms(10) by simp
  ultimately obtain r3 r4 where "run_state (vsock_server_main fuel sargv sos) [] = (Some EXIT_SUCCESS,
      sh @ recv_hist sos sfd sh (Suc k) @ [(Out (''recv '' @ fmt_d n @ '' bytes'' @ nl), r3), (Close sfd, r4)])"
    using vsock_server_reports_received [OF assms(5-7) k(2,3)] unfolding k(4) by blast
  with client show ?thesis unfolding n by (metis append_assoc)
qed

text \<open>A client whose calls take what is left of 5 bytes, and a peer that delivers \<open>n\<close> bytes one by one.\<close>

definition five_bytes :: user_os where
  "five_bytes h c = \<lparr>rv = (case c of Socket d \<Rightarrow> 3 | Send fd bs \<Rightarrow> min (int (length bs)) (5 - sent 3 h) | _ \<Rightarrow> 0),
     rdata = [], rfds = [], rerrno = 0, rpeer = InAddr 0 0\<rparr>"

definition byte_by_byte :: "int \<Rightarrow> user_os" where
  "byte_by_byte n h c = \<lparr>rv = (case c of Socket d \<Rightarrow> 3 | Accept fd \<Rightarrow> 4 | Recv fd m \<Rightarrow> if received 4 h < n then 1 else 0 | _ \<Rightarrow> 0),
     rdata = [], rfds = [], rerrno = 0, rpeer = InAddr 0 0\<rparr>"

theorem vsock_transfer_counts_agree_witness:
  "let n = sent 3 (snd (run_state (vsock_client_main (\<lambda>_. '''') [''c'', ''2'', ''2''] five_bytes) []))
   in fst (run_state (vsock_server_main (Suc (nat n)) [''s'', ''2''] (byte_by_byte n)) []) = Some EXIT_SUCCESS"
proof -
  define n where "n = sent 3 (snd (run_state (vsock_client_main (\<lambda>_. '''') [''c'', ''2'', ''2''] five_bytes) []))"
  have "\<exists>ch. run_state (vsock_connect (''2'', ''2'') five_bytes) [] = (3, ch)"
    by (simp add: vsock_connect_def parse_cid_def parse_port_def strtol_2 five_bytes_def)
  then obtain ch where ch: "run_state (vsock_connect (''2'', ''2'') five_bytes) [] = (3, ch)" by blast
  have "\<exists>sh. run_state (vsock_listen ''2'' (byte_by_byte n)) [] = (4, sh)"
    by (simp add: vsock_listen_def parse_port_def strtol_2 byte_by_byte_def)
  then obtain sh where sh: "run_state (vsock_listen ''2'' (byte_by_byte n)) [] = (4, sh)" by blast
  have "delivers (byte_by_byte n) 4 sh n"
    using set_up_counts(2) [OF sh] by (simp add: delivers_def byte_by_byte_def)
  then show ?thesis
    using vsock_transfer_counts_agree [of "[''c'', ''2'', ''2'']" five_bytes 3 ch "[''s'', ''2'']" "byte_by_byte n" 4 sh
        n "\<lambda>_. ''''" "Suc (nat n)"] ch sh
    unfolding Let_def n_def [symmetric] by (auto simp: five_bytes_def n_def)
qed

end
