(* ===== verification/TcpServer.thy ===== *)
theory TcpServer
  imports Sockets
begin

text \<open>
  The \<open>epoll\<close> server \<open>src/linux/socket/tcp/tcp_server.c\<close>: a listening socket and its connections
  in one event loop.

  The main lemma is a refinement: at every point between two rounds the watched and the open
  descriptors are the ones that the abstract server has, whose connections are those accepted and
  not yet hung up (\<open>connections\<close>).  The loop has no end; the fuel counts its rounds.
\<close>

definition do_use_fd :: "user_os \<Rightarrow> int \<Rightarrow> int uprog" where
  "do_use_fd os fd =
     do {
       n \<leftarrow> ucall_rv os (Recv fd 10240);
       if n \<noteq> 0 then do {
         _ \<leftarrow> call os (Out (''recv from '' @ fmt_d fd @ '' len:'' @ fmt_d n @ nl));
         State_Monad.return n
       } else State_Monad.return n
     }"

definition server_event :: "int \<times> int \<Rightarrow> user_os \<Rightarrow> int \<Rightarrow> int option uprog" where
  "server_event p os fd =
     (let (epollfd, listen_sock) = p in
      if fd = listen_sock then do {
        acc \<leftarrow> call os (Accept listen_sock);
        if rv acc = - 1 then do { _ \<leftarrow> call os (Perror ''accept''); State_Monad.return (Some EXIT_FAILURE) }
        else do {
          _ \<leftarrow> call os (Out (''accept from '' @ inet_ntoa (addr_of (rpeer acc)) @ '' fd:'' @ fmt_d (rv acc) @ nl));
          r \<leftarrow> ucall_rv os (EpollAdd epollfd (rv acc));
          if r = - 1 then do { _ \<leftarrow> call os (Perror ''epoll_ctl: conn_sock''); State_Monad.return (Some EXIT_FAILURE) }
          else State_Monad.return None
        }
      } else do {
        ret \<leftarrow> do_use_fd os fd;
        if ret = 0 then do {
          _ \<leftarrow> call os (Out (''close fd '' @ fmt_d fd @ nl));
          _ \<leftarrow> call os (EpollDel epollfd fd);
          _ \<leftarrow> call os (Close fd);
          State_Monad.return None
        } else State_Monad.return None
      })"

definition MAX_EVENTS :: nat where "MAX_EVENTS = 10"

fun server_loop :: "int \<times> int \<Rightarrow> user_os \<Rightarrow> nat \<Rightarrow> int option uprog" where
  "server_loop p os 0 = State_Monad.return None"
| "server_loop p os (Suc fuel) =
     do {
       r \<leftarrow> call os (EpollWait (fst p) MAX_EVENTS);
       if rv r = - 1 then do { _ \<leftarrow> call os (Perror ''epoll_wait''); State_Monad.return (Some EXIT_FAILURE) }
       else do {
         x \<leftarrow> for_events (server_event p) os (take (nat (rv r)) (rfds r));
         (case x of None \<Rightarrow> server_loop p os fuel | Some s \<Rightarrow> State_Monad.return (Some s))
       }
     }"

definition tcp_server_main :: "nat \<Rightarrow> string list \<Rightarrow> user_os \<Rightarrow> int option uprog" where
  "tcp_server_main fuel argv os =
     do {
       epollfd \<leftarrow> ucall_rv os EpollCreate;
       if epollfd = - 1 then do { _ \<leftarrow> call os (Perror ''epoll_create1''); State_Monad.return (Some EXIT_FAILURE) }
       else do {
         listen_sock \<leftarrow> ucall_rv os (Socket ''AF_INET'');
         if listen_sock = - 1 then do { _ \<leftarrow> call os (Perror ''socket SOCK_STREAM''); State_Monad.return (Some EXIT_FAILURE) }
         else do {
           addr \<leftarrow> server_addr argv os;
           r \<leftarrow> ucall_rv os (Bind listen_sock (InAddr (nat addr) TCP_PORT));
           if r = - 1 then do { _ \<leftarrow> call os (Perror ''bind''); State_Monad.return (Some EXIT_FAILURE) }
           else do {
             r \<leftarrow> ucall_rv os (Listen listen_sock 10);
             if r = - 1 then do { _ \<leftarrow> call os (Perror ''listen''); State_Monad.return (Some EXIT_FAILURE) }
             else do {
               r \<leftarrow> ucall_rv os (EpollAdd epollfd listen_sock);
               if r = - 1 then do { _ \<leftarrow> call os (Perror ''epoll_ctl''); State_Monad.return (Some EXIT_FAILURE) }
               else server_loop (epollfd, listen_sock) os fuel
             }
           }
         }
       }
     }"

section \<open>The abstract server\<close>

fun connection_step :: "int set \<Rightarrow> ucall \<times> reply \<Rightarrow> int set" where
  "connection_step S (Accept fd, r) = (if 0 \<le> rv r then insert (rv r) S else S)"
| "connection_step S (Recv fd n, r) = (if rv r = 0 then S - {fd} else S)"
| "connection_step S (c, r) = S"

definition connections :: "utrace \<Rightarrow> int set" where
  "connections h = foldl connection_step {} h"

lemma connections_Nil [simp]: "connections [] = {}"
  by (simp add: connections_def)

lemma connections_append [simp]: "connections (h @ es) = foldl connection_step (connections h) es"
  by (simp add: connections_def)

definition server_inv :: "int \<times> int \<Rightarrow> int list \<Rightarrow> utrace \<Rightarrow> bool" where
  "server_inv p pending h \<longleftrightarrow>
     (let (ep, ls) = p; S = connections h in
      finite S \<and> ls \<notin> S \<and> ep \<notin> S \<and> ep \<noteq> ls
      \<and> watched ep h = insert ls S \<and> live h = {#ep, ls#} + mset_set S
      \<and> distinct pending \<and> set pending \<subseteq> watched ep h)"

lemma accept_fresh:
  "epoll_kernel os \<Longrightarrow> rv (os h (Accept fd)) \<noteq> - 1 \<Longrightarrow>
   0 \<le> rv (os h (Accept fd)) \<and> rv (os h (Accept fd)) \<notin># live h"
  unfolding epoll_kernel_def by blast

lemma epoll_add_cases: "epoll_kernel os \<Longrightarrow> rv (os h (EpollAdd ep fd)) \<noteq> - 1 \<Longrightarrow> rv (os h (EpollAdd ep fd)) = 0"
  unfolding epoll_kernel_def by blast

interpretation server: event_handler server_event server_inv epoll_kernel
proof
  fix os p fd fds h h'
  assume os: "epoll_kernel os" and inv: "server_inv p (fd # fds) h"
    and run: "run_state (server_event p os fd) h = (None, h')"
  obtain ep ls where p: "p = (ep, ls)" by fastforce
  let ?S = "connections h"
  have I: "finite ?S" "ls \<notin> ?S" "ep \<notin> ?S" "ep \<noteq> ls" "watched ep h = insert ls ?S"
    "live h = {#ep, ls#} + mset_set ?S" "distinct (fd # fds)" "set (fd # fds) \<subseteq> watched ep h"
    using inv by (auto simp: server_inv_def p Let_def)
  show "server_inv p fds h'"
  proof (cases "fd = ls")
    case True
    let ?c = "rv (os h (Accept ls))"
    have c: "?c \<noteq> - 1" using run True by (auto simp: server_event_def p split: if_splits)
    then have fresh: "0 \<le> ?c" "?c \<notin># live h" using accept_fresh [OF os] by auto
    then have "?c \<noteq> ep" "?c \<noteq> ls" "?c \<notin> ?S" using I(1,6) by auto
    with run True c fresh I epoll_add_cases [OF os] show ?thesis
      by (auto simp: server_event_def server_inv_def p Let_def split: if_splits)
  next
    case False
    then have "fd \<in> ?S" using I(5,8) by auto
    have hung: "watched ep h - {fd} = insert ls (?S - {fd})" "mset_set (?S - {fd}) = mset_set ?S - {#fd#}"
      using I False \<open>fd \<in> ?S\<close> by (auto simp: mset_set_Diff)
    show ?thesis
    proof (cases "rv (os h (Recv fd 10240)) = 0")
      case True
      have "connections h' = ?S - {fd}" "live h' = live h - {#fd#}" "watched ep h' = watched ep h - {fd}"
        using run False True by (auto simp: server_event_def p do_use_fd_def split: if_splits)
      moreover have "{#ep, ls#} + mset_set ?S - {#fd#} = {#ep, ls#} + (mset_set ?S - {#fd#})"
        using I(1) \<open>fd \<in> ?S\<close> by (intro multiset_diff_union_assoc) simp
      ultimately show ?thesis
        using I hung False \<open>fd \<in> ?S\<close> unfolding server_inv_def p by (auto simp: Let_def)
    next
      case nonzero: False
      have "connections h' = ?S" "live h' = live h" "watched ep h' = watched ep h"
        using run False nonzero by (auto simp: server_event_def p do_use_fd_def split: if_splits)
      with I show ?thesis by (simp add: server_inv_def p Let_def)
    qed
  qed
qed

lemma server_loop_inv:
  assumes "epoll_kernel os"
  shows "server_inv p [] h \<Longrightarrow> run_state (server_loop p os fuel) h = (None, h') \<Longrightarrow> server_inv p [] h'"
proof (induction fuel arbitrary: h)
  case (Suc fuel)
  let ?c = "EpollWait (fst p) MAX_EVENTS"
  let ?r = "os h ?c"
  let ?h = "h @ [(?c, ?r)]"
  have r: "rv ?r \<noteq> - 1" using Suc.prems(2) by (auto split: if_splits)
  have ev: "distinct (rfds ?r)" "set (rfds ?r) \<subseteq> watched (fst p) h"
    using assms r unfolding epoll_kernel_def by blast+
  have "server_inv p (take (nat (rv ?r)) (rfds ?r)) ?h"
    using Suc.prems(1) ev set_take_subset [of "nat (rv ?r)" "rfds ?r"]
    by (auto simp: server_inv_def Let_def case_prod_beta)
  moreover obtain x h2 where x: "run_state (for_events (server_event p) os (take (nat (rv ?r)) (rfds ?r))) ?h = (x, h2)"
    by fastforce
  moreover have "x = None" and rest: "run_state (server_loop p os fuel) h2 = (None, h')"
    using Suc.prems(2) r x by (auto split: option.splits)
  ultimately have "server_inv p [] h2" using server.for_events_inv [OF assms] by blast
  with Suc.IH rest show ?case by blast
qed simp

lemma server_addr_state:
  "run_state (server_addr argv os) h = (a, h') \<Longrightarrow>
   connections h' = connections h \<and> live h' = live h \<and> watched ep h' = watched ep h"
  by (auto simp: server_addr_def split: if_splits)

section \<open>Properties\<close>

text \<open>
  C5: As long as the server runs, whatever the clients do, the open descriptors are the \<open>epoll\<close>
  instance, the listening socket and exactly the connections accepted and not yet hung up, each
  once, and these and the listening socket are exactly what is watched: no connection leaks and
  no closed descriptor is waited for.
\<close>

theorem tcp_server_tracks_connections:
  assumes "epoll_kernel os" "run_state (tcp_server_main fuel argv os) [] = (None, h)"
  shows "\<exists>ep ls. live h = {#ep, ls#} + mset_set (connections h) \<and> watched ep h = insert ls (connections h)
    \<and> ep \<notin> connections h \<and> ls \<notin> connections h"
proof -
  let ?ep = "rv (os [] EpollCreate)"
  let ?h1 = "[(EpollCreate, os [] EpollCreate)]"
  let ?ls = "rv (os ?h1 (Socket ''AF_INET''))"
  have e: "?ep \<noteq> - 1" and l: "?ls \<noteq> - 1"
    using assms(2) by (auto simp: tcp_server_main_def split: if_splits)
  then have fresh: "0 \<le> ?ep" "0 \<le> ?ls" "?ls \<notin># live ?h1"
    using assms(1) unfolding epoll_kernel_def by blast+
  then have ne: "?ep \<noteq> ?ls" by (simp add: live_def)
  obtain a h2 where a: "run_state (server_addr argv os) (?h1 @ [(Socket ''AF_INET'', os ?h1 (Socket ''AF_INET''))]) = (a, h2)"
    by fastforce
  have h2: "connections h2 = {}" "live h2 = {#?ep, ?ls#}" "watched ?ep h2 = {}"
    using server_addr_state [OF a, of ?ep] fresh by (simp_all add: connections_def live_def watched_def)
  obtain h3 where h3: "run_state (server_loop (?ep, ?ls) os fuel) h3 = (None, h)"
    "connections h3 = connections h2" "live h3 = live h2" "watched ?ep h3 = insert ?ls (watched ?ep h2)"
    using assms(2) e l a epoll_add_cases [OF assms(1)]
    by (auto simp: tcp_server_main_def split: if_splits)
  then have "server_inv (?ep, ?ls) [] h3" using h2 ne by (simp add: server_inv_def)
  from server_loop_inv [OF assms(1) this h3(1)] show ?thesis
    by (auto simp: server_inv_def Let_def)
qed

definition idle_kernel :: user_os where
  "idle_kernel h c = \<lparr>rv = (case c of EpollCreate \<Rightarrow> if 3 \<in># live h then - 1 else 3
     | Socket d \<Rightarrow> if 4 \<in># live h then - 1 else 4 | Accept fd \<Rightarrow> - 1 | _ \<Rightarrow> 0), rdata = [], rfds = [], rerrno = 0, rpeer = InAddr 0 0\<rparr>"

lemma idle_kernel_ok: "epoll_kernel idle_kernel"
  unfolding epoll_kernel_def idle_kernel_def by auto

theorem tcp_server_tracks_connections_witness:
  "\<exists>h ep ls. run_state (tcp_server_main 2 [''tcp_server''] idle_kernel) [] = (None, h) \<and>
     watched ep h = insert ls (connections h)"
proof -
  have "\<exists>h. run_state (tcp_server_main 2 [''tcp_server''] idle_kernel) [] = (None, h)"
    by (simp add: tcp_server_main_def server_addr_def idle_kernel_def live_def numeral_2_eq_2)
  then show ?thesis using tcp_server_tracks_connections [OF idle_kernel_ok] by blast
qed

text \<open>
  A connection whose \<open>recv\<close> fails is never given up: the handler treats \<open>-1\<close> like data, so the
  descriptor stays open and watched, and an error that persists is delivered again and again.
\<close>

theorem tcp_server_keeps_failed_connection:
  assumes "fd \<noteq> ls" "rv (os h (Recv fd 10240)) = - 1"
  shows "\<exists>r. run_state (server_event (ep, ls) os fd) h =
      (None, h @ [(Recv fd 10240, os h (Recv fd 10240)), (Out (''recv from '' @ fmt_d fd @ '' len:-1'' @ nl), r)])
    \<and> live (snd (run_state (server_event (ep, ls) os fd) h)) = live h
    \<and> watched ep (snd (run_state (server_event (ep, ls) os fd) h)) = watched ep h"
proof -
  have "fmt_d (- 1) = ''-1''" by (simp add: fmt_d_def fmt_u_def to_base_small digit_char_def char_of_def bit_iff_odd)
  then show ?thesis using assms by (simp add: server_event_def do_use_fd_def)
qed

theorem tcp_server_keeps_failed_connection_witness:
  "watched 3 (snd (run_state (server_event (3, 4) (\<lambda>_ _. \<lparr>rv = - 1, rdata = [], rfds = [], rerrno = 0, rpeer = InAddr 0 0\<rparr>) 5)
     [(EpollAdd 3 5, \<lparr>rv = 0, rdata = [], rfds = [], rerrno = 0, rpeer = InAddr 0 0\<rparr>)])) = {5}"
  using tcp_server_keeps_failed_connection [of 5 4 "\<lambda>_ _. \<lparr>rv = - 1, rdata = [], rfds = [], rerrno = 0, rpeer = InAddr 0 0\<rparr>"
      "[(EpollAdd 3 5, \<lparr>rv = 0, rdata = [], rfds = [], rerrno = 0, rpeer = InAddr 0 0\<rparr>)]" 3]
  by (auto simp: watched_def)

end
