(* ===== verification/Pmon.thy ===== *)
theory Pmon
  imports Posix
begin





text \<open>
  Reading the buffer: \<open>what\<close> is at 36, the event data at 52; \<open>%d\<close> reads 32 bits as an \<open>int\<close>.
\<close>

definition u32_at :: "bytes \<Rightarrow> nat \<Rightarrow> nat" where
  "u32_at buf off = le_nat (take 4 (drop off buf))"

definition d_at :: "bytes \<Rightarrow> nat \<Rightarrow> string" where
  "d_at buf off = fmt_d (c_int (int (u32_at buf off)))"

definition PROC_EVENT_NONE :: nat where "PROC_EVENT_NONE = 0"
definition PROC_EVENT_FORK :: nat where "PROC_EVENT_FORK = 1"
definition PROC_EVENT_EXEC :: nat where "PROC_EVENT_EXEC = 2"
definition PROC_EVENT_UID :: nat where "PROC_EVENT_UID = 4"
definition PROC_EVENT_GID :: nat where "PROC_EVENT_GID = 64"
definition PROC_EVENT_EXIT :: nat where "PROC_EVENT_EXIT = 2147483648"

lemmas proc_events = PROC_EVENT_NONE_def PROC_EVENT_FORK_def PROC_EVENT_EXEC_def PROC_EVENT_UID_def
  PROC_EVENT_GID_def PROC_EVENT_EXIT_def

definition event_text :: "bytes \<Rightarrow> string" where
  "event_text buf =
     (let what = u32_at buf 36 in
      if what = PROC_EVENT_NONE then ''set mcast listen ok'' @ nl
      else if what = PROC_EVENT_FORK then
        ''fork: parent tid='' @ d_at buf 52 @ '' pid='' @ d_at buf 56 @ '' -> child tid='' @ d_at buf 60 @
        '' pid='' @ d_at buf 64 @ nl
      else if what = PROC_EVENT_EXEC then
        ''exec: tid='' @ d_at buf 52 @ '' pid='' @ d_at buf 56 @ nl
      else if what = PROC_EVENT_UID then
        ''uid change: tid='' @ d_at buf 52 @ '' pid='' @ d_at buf 56 @ '' from '' @ d_at buf 60 @
        '' to '' @ d_at buf 64 @ nl
      else if what = PROC_EVENT_GID then
        ''gid change: tid='' @ d_at buf 52 @ '' pid='' @ d_at buf 56 @ '' from '' @ d_at buf 60 @
        '' to '' @ d_at buf 64 @ nl
      else if what = PROC_EVENT_EXIT then
        ''exit: tid='' @ d_at buf 52 @ '' pid='' @ d_at buf 56 @ '' exit_code='' @ d_at buf 60 @ nl
      else ''unhandled proc event'' @ nl)"




section \<open>The connection\<close>






section \<open>Properties\<close>

fun sent_msgs :: "utrace \<Rightarrow> bytes list" where
  "sent_msgs [] = []"
| "sent_msgs ((c, r) # es) = (case c of Send fd bs \<Rightarrow> bs # sent_msgs es | _ \<Rightarrow> sent_msgs es)"

lemma sent_msgs_append [simp]: "sent_msgs (xs @ ys) = sent_msgs xs @ sent_msgs ys"
  by (induction xs rule: sent_msgs.induct) (auto split: ucall.split)











definition receives :: "utrace \<Rightarrow> nat" where
  "receives h = length (filter (\<lambda>e. case fst e of Recv fd n \<Rightarrow> True | _ \<Rightarrow> False) h)"

lemma receives_append [simp]: "receives (h @ es) = receives h + receives es"
  by (simp add: receives_def)

lemma receives_simps [simp]:
  "receives [] = 0" "receives ((Recv fd n, r) # h) = Suc (receives h)"
  "receives ((Out s, r) # h) = receives h" "receives ((ReadFlag s, r) # h) = receives h"
  by (simp_all add: receives_def)




definition event_msg :: "bytes \<Rightarrow> nat \<Rightarrow> bytes \<Rightarrow> int list \<Rightarrow> bytes" where
  "event_msg hdr what mid args = hdr @ le_bytes 4 what @ mid @ concat (map (le_bytes 4 \<circ> c_uint) args)"

lemma u32_at_le_bytes:
  "length pre = off \<Longrightarrow> n < 2 ^ 32 \<Longrightarrow> u32_at (pre @ le_bytes 4 n @ rest) off = n"
  by (simp add: u32_at_def le_nat_le_bytes)

lemma c_int_c_uint: "- (2 ^ 31) \<le> i \<Longrightarrow> i < 2 ^ 31 \<Longrightarrow> c_int (int (c_uint i)) = i"
proof -
  assume i: "- (2 ^ 31) \<le> i" "i < 2 ^ 31"
  have "int (c_uint i) = i mod 2 ^ 32" by (simp add: c_uint_def)
  moreover have "(i mod 2 ^ 32 + 2 ^ 31) mod 2 ^ 32 = (i + 2 ^ 31) mod 2 ^ 32" by (simp add: mod_add_left_eq)
  moreover have "(i + 2 ^ 31) mod 2 ^ 32 = i + 2 ^ 31" using i by simp
  ultimately show ?thesis by (simp add: c_int_eq_mod)
qed

lemma event_msg_fields:
  assumes "length hdr = 36" "length mid = 12" "what < 2 ^ 32" "length args = n"
    and "\<forall>a\<in>set args. - (2 ^ 31) \<le> a \<and> a < 2 ^ 31"
  shows "u32_at (event_msg hdr what mid args @ rest) 36 = what"
    and "i < n \<Longrightarrow> d_at (event_msg hdr what mid args @ rest) (52 + 4 * i) = fmt_d (args ! i)"
proof -
  show "u32_at (event_msg hdr what mid args @ rest) 36 = what"
    using assms(1,3) u32_at_le_bytes [of hdr 36 what] by (simp add: event_msg_def)
  assume i: "i < n"
  let ?enc = "\<lambda>as. concat (map (le_bytes 4 \<circ> c_uint) as)"
  have len: "length (?enc as) = 4 * length as" for as :: "int list" by (induction as) simp_all
  have "args = take i args @ args ! i # drop (Suc i) args" using i assms(4) by (simp add: id_take_nth_drop)
  then have "?enc args = ?enc (take i args) @ le_bytes 4 (c_uint (args ! i)) @ ?enc (drop (Suc i) args)"
    by (metis concat.simps(2) concat_append list.map(2) map_append o_apply)
  then have "u32_at (event_msg hdr what mid args @ rest) (52 + 4 * i) = c_uint (args ! i)"
    using assms(1,2,4) i len [of "take i args"] c_uint_less [of "args ! i"]
      u32_at_le_bytes [of "hdr @ le_bytes 4 what @ mid @ ?enc (take i args)" "52 + 4 * i"]
    by (simp add: event_msg_def)
  with assms(4,5) i show "d_at (event_msg hdr what mid args @ rest) (52 + 4 * i) = fmt_d (args ! i)"
    by (simp add: d_at_def c_int_c_uint)
qed

lemma event_texts:
  "u32_at buf 36 = PROC_EVENT_FORK \<Longrightarrow> event_text buf =
     ''fork: parent tid='' @ d_at buf 52 @ '' pid='' @ d_at buf 56 @ '' -> child tid='' @ d_at buf 60 @
     '' pid='' @ d_at buf 64 @ nl"
  "u32_at buf 36 = PROC_EVENT_EXEC \<Longrightarrow> event_text buf =
     ''exec: tid='' @ d_at buf 52 @ '' pid='' @ d_at buf 56 @ nl"
  "u32_at buf 36 = PROC_EVENT_UID \<Longrightarrow> event_text buf =
     ''uid change: tid='' @ d_at buf 52 @ '' pid='' @ d_at buf 56 @ '' from '' @ d_at buf 60 @ '' to '' @ d_at buf 64 @ nl"
  "u32_at buf 36 = PROC_EVENT_GID \<Longrightarrow> event_text buf =
     ''gid change: tid='' @ d_at buf 52 @ '' pid='' @ d_at buf 56 @ '' from '' @ d_at buf 60 @ '' to '' @ d_at buf 64 @ nl"
  "u32_at buf 36 = PROC_EVENT_EXIT \<Longrightarrow> event_text buf =
     ''exit: tid='' @ d_at buf 52 @ '' pid='' @ d_at buf 56 @ '' exit_code='' @ d_at buf 60 @ nl"
  by (simp_all add: event_text_def proc_events)

lemma event_args:
  assumes "length hdr = 36" "length mid = 12" "w < 2 ^ 32" "\<forall>x\<in>set args. - (2 ^ 31) \<le> x \<and> x < 2 ^ 31"
    and "buf' = patch buf 0 (event_msg hdr w mid args)"
  shows "u32_at buf' 36 = w"
    and "0 < length args \<Longrightarrow> d_at buf' 52 = fmt_d (args ! 0)"
    and "1 < length args \<Longrightarrow> d_at buf' 56 = fmt_d (args ! 1)"
    and "2 < length args \<Longrightarrow> d_at buf' 60 = fmt_d (args ! 2)"
    and "3 < length args \<Longrightarrow> d_at buf' 64 = fmt_d (args ! 3)"
proof -
  let ?m = "event_msg hdr w mid args"
  have p: "buf' = ?m @ drop (length ?m) buf" using assms(5) by (simp add: patch_def)
  note f = event_msg_fields [OF assms(1-3) refl assms(4), where rest = "drop (length ?m) buf", folded p]
  show "u32_at buf' 36 = w" by (rule f(1))
  show "0 < length args \<Longrightarrow> d_at buf' 52 = fmt_d (args ! 0)" using f(2) [of 0] by simp
  show "1 < length args \<Longrightarrow> d_at buf' 56 = fmt_d (args ! 1)" using f(2) [of 1] by simp
  show "2 < length args \<Longrightarrow> d_at buf' 60 = fmt_d (args ! 2)" using f(2) [of 2] by simp
  show "3 < length args \<Longrightarrow> d_at buf' 64 = fmt_d (args ! 3)" using f(2) [of 3] by simp
qed

lemma event_codes: "PROC_EVENT_FORK < 2 ^ 32" "PROC_EVENT_EXEC < 2 ^ 32" "PROC_EVENT_UID < 2 ^ 32"
  "PROC_EVENT_GID < 2 ^ 32" "PROC_EVENT_EXIT < 2 ^ 32"
  by (simp_all add: proc_events)

text \<open>
  C20: The five kinds of event are decoded at their place: for a message with any header, processor
  and time, the printed numbers are the kernel's, negative ones included, and nothing that an
  earlier and longer message left in the buffer shows.
\<close>

theorem pmon_decodes_events:
  assumes "length hdr = 36" "length mid = 12" "\<forall>x\<in>{a, b, c, d}. - (2 ^ 31) \<le> x \<and> x < 2 ^ 31" "length buf = 76"
  shows "event_text (patch buf 0 (event_msg hdr PROC_EVENT_FORK mid [a, b, c, d])) =
      ''fork: parent tid='' @ fmt_d a @ '' pid='' @ fmt_d b @ '' -> child tid='' @ fmt_d c @ '' pid='' @ fmt_d d @ nl
    \<and> event_text (patch buf 0 (event_msg hdr PROC_EVENT_EXEC mid [a, b])) =
      ''exec: tid='' @ fmt_d a @ '' pid='' @ fmt_d b @ nl
    \<and> event_text (patch buf 0 (event_msg hdr PROC_EVENT_UID mid [a, b, c, d])) =
      ''uid change: tid='' @ fmt_d a @ '' pid='' @ fmt_d b @ '' from '' @ fmt_d c @ '' to '' @ fmt_d d @ nl
    \<and> event_text (patch buf 0 (event_msg hdr PROC_EVENT_GID mid [a, b, c, d])) =
      ''gid change: tid='' @ fmt_d a @ '' pid='' @ fmt_d b @ '' from '' @ fmt_d c @ '' to '' @ fmt_d d @ nl
    \<and> event_text (patch buf 0 (event_msg hdr PROC_EVENT_EXIT mid [a, b, c])) =
      ''exit: tid='' @ fmt_d a @ '' pid='' @ fmt_d b @ '' exit_code='' @ fmt_d c @ nl"
proof -
  have r: "\<forall>x\<in>set [a, b, c, d]. - (2 ^ 31) \<le> x \<and> x < 2 ^ 31" "\<forall>x\<in>set [a, b, c]. - (2 ^ 31) \<le> x \<and> x < 2 ^ 31"
    "\<forall>x\<in>set [a, b]. - (2 ^ 31) \<le> x \<and> x < 2 ^ 31"
    using assms(3) by auto
  note args = event_args [OF assms(1,2) _ _ refl]
  show ?thesis
    by (intro conjI)
      (simp_all add: event_texts args [OF event_codes(1) r(1)] args [OF event_codes(2) r(3)]
        args [OF event_codes(3) r(1)] args [OF event_codes(4) r(1)] args [OF event_codes(5) r(2)])
qed

lemma event_msg_short: "fmt_d 7 = ''7''"
  by (simp add: fmt_d_def fmt_u_def to_base_small digit_char_def char_of_def bit_iff_odd)

theorem pmon_decodes_events_witness:
  "event_text (patch (replicate 76 0) 0 (event_msg (replicate 36 0) PROC_EVENT_EXEC (replicate 12 0) [7, 7])) =
     ''exec: tid=7 pid=7'' @ nl"
  using pmon_decodes_events [of "replicate 36 0" "replicate 12 0" 7 7 7 7 "replicate 76 0"]
  by (simp add: event_msg_short)

end
