(* ===== verification/ProcMem.thy ===== *)
theory ProcMem
  imports Posix
begin

text \<open>
  \<open>src/kernel/linux_memory/user_task_page/proc_mem.c\<close>: read the memory of a process through
  \<open>/proc/PID/mem\<close> while it is stopped by \<open>ptrace\<close>.

  \<open>addr\<close> and \<open>len\<close> are not initialised: \<open>sscanf\<close> leaves them as they are when the argument is no
  number, so their first values are arguments of the model.  The block that \<open>malloc\<close> delivers holds
  arbitrary bytes, given by the answer's data.
\<close>

definition BUFLEN :: nat where "BUFLEN = 32"



text \<open>The block before \<open>read\<close>, and after it.\<close>

definition block :: "nat \<Rightarrow> bytes \<Rightarrow> bytes" where
  "block n bs = map (\<lambda>i. if i < length bs then bs ! i else 0) [0..<n]"

definition read_into :: "bytes \<Rightarrow> reply \<Rightarrow> bytes" where
  "read_into buf r = patch buf 0 (take (length buf) (take (nat (rv r)) (rdata r)))"

fun print_bytes :: "user_os \<Rightarrow> bytes \<Rightarrow> unit uprog" where
  "print_bytes os [] = State_Monad.return ()"
| "print_bytes os (b # bs) = do { _ \<leftarrow> call os (Out (''0x'' @ fmt_x (unat b) @ '' '')); print_bytes os bs }"

definition mem_name :: "int \<Rightarrow> string" where
  "mem_name pid = take (BUFLEN - 1) (''/proc/'' @ fmt_u (c_uint pid) @ ''/mem'')"

text \<open>From \<open>malloc\<close> to \<open>free\<close>; a failed allocation goes on at \<open>out2\<close>.\<close>

definition show_memory :: "user_os \<Rightarrow> int \<Rightarrow> int \<Rightarrow> int \<Rightarrow> int \<Rightarrow> unit uprog" where
  "show_memory os mem_fd pid addr len =
     do {
       m \<leftarrow> call os (Malloc (c_ulong len));
       if rv m = 0 then do { _ \<leftarrow> call os (Perror ''malloc''); State_Monad.return () }
       else do {
         r \<leftarrow> call os (Read mem_fd (c_ulong len));
         _ \<leftarrow> call os (Out (''['' @ fmt_d pid @ ''] 0x'' @ fmt_x (c_ulong addr) @ '' data:'' @ nl));
         _ \<leftarrow> print_bytes os (read_into (block (nat len) (rdata m)) r);
         _ \<leftarrow> call os (Out nl);
         _ \<leftarrow> call os Free;
         State_Monad.return ()
       }
     }"



section \<open>Results\<close>

lemma mem_name_fits: "mem_name pid = ''/proc/'' @ fmt_u (c_uint pid) @ ''/mem''"
proof -
  have "length (fmt_u (c_uint pid)) \<le> 10" by (rule length_fmt_u) (use c_uint_less [of pid] in simp_all)
  then show ?thesis by (simp add: mem_name_def BUFLEN_def)
qed



















text \<open>A system that has the process's memory, and one on which \<open>read\<close> fails.\<close>

definition mem_sample :: "int \<Rightarrow> bytes \<Rightarrow> user_os" where
  "mem_sample n bs h c = \<lparr>rv = (case c of Read fd k \<Rightarrow> n | Open p \<Rightarrow> 3 | Malloc k \<Rightarrow> 1 | _ \<Rightarrow> 0),
     rdata = (case c of Read fd k \<Rightarrow> bs | _ \<Rightarrow> [255, 255]), rfds = [], rerrno = 0, rpeer = InAddr 0 0\<rparr>"



text \<open>What a run prints on standard output.\<close>

fun out_text :: "ucall \<times> reply \<Rightarrow> string" where
  "out_text (Out t, r) = t"
| "out_text (c, r) = []"

definition outs :: "utrace \<Rightarrow> string" where
  "outs h = concat (map out_text h)"

lemma outs_append [simp]: "outs [] = []" "outs (h @ es) = outs h @ outs es" "outs (e # h) = out_text e @ outs h"
  by (simp_all add: outs_def)

definition byte_text :: "byte \<Rightarrow> string" where
  "byte_text b = ''0x'' @ fmt_x (unat b) @ '' ''"

lemma print_bytes_outs: "outs (snd (run_state (print_bytes os bs) h)) = outs h @ concat (map byte_text bs)"
  by (induction bs arbitrary: h) (simp_all add: byte_text_def)

text \<open>
  The program prints as many bytes as it was asked for, whether it could read them or not: after
  the bytes that \<open>read\<close> delivered come the bytes that the block from \<open>malloc\<close> happened to hold, and all
  of them when \<open>read\<close> failed.
\<close>

theorem proc_mem_prints_block:
  assumes "0 \<le> len" "len < 2 ^ 31" "\<And>h. rv (os h (Malloc (nat len))) \<noteq> 0 \<and> rdata (os h (Malloc (nat len))) = junk"
    and "\<And>h. os h (Read fd (nat len)) = r" "(rv r = - 1 \<and> data = []) \<or> rv r = int (length data)" "take (length data) (rdata r) = data"
    and "length data \<le> nat len"
  shows "outs (snd (run_state (show_memory os fd pid addr len) h)) =
    outs h @ ''['' @ fmt_d pid @ ''] 0x'' @ fmt_x (c_ulong addr) @ '' data:'' @ nl
      @ concat (map byte_text (data @ drop (length data) (block (nat len) junk))) @ nl"
proof -
  have len: "c_ulong len = nat len" using assms(1,2) by simp
  have "length (block (nat len) junk) = nat len" by (simp add: block_def)
  then have "read_into (block (nat len) junk) r = data @ drop (length data) (block (nat len) junk)"
    using assms(5-7) by (auto simp: read_into_def patch_def) (metis length_take)
  then show ?thesis
    by (simp add: show_memory_def len assms(3,4) print_bytes_outs split_beta)
qed

theorem proc_mem_prints_block_witness:
  "outs (snd (run_state (show_memory (mem_sample (- 1) []) 3 5 16 2) [])) =
     ''['' @ fmt_d 5 @ ''] 0x'' @ fmt_x 16 @ '' data:'' @ nl @ byte_text 255 @ byte_text 255 @ nl"
proof -
  have "block 2 [255, 255] = [255, 255]" by (simp add: block_def numeral_2_eq_2)
  then show ?thesis
    using proc_mem_prints_block [of 2 "mem_sample (- 1) []" "[255, 255]" 3 "mem_sample (- 1) [] [] (Read 3 2)" "[]" 5 16 "[]"]
    by (simp add: mem_sample_def)
qed

end
