(* ===== verification/Kvm.thy ===== *)
theory Kvm
  imports Prelude CLib
begin

text \<open>
  The virtual-machine programs \<open>src/virtual/kvm/kvm_run_test1.c\<close>, \<open>kvm_run_test2.c\<close> and
  \<open>kvm_api_test.c\<close>: they set up a virtual machine with one page of memory and one processor, run
  it, and print the bytes that the guest writes to the serial port.

  The calls of the KVM interface are values of \<open>kvm_call\<close>; their answers carry the reason why a
  run came back.  The guest is modelled as well, as far as the machine code in the source needs it:
  the six instructions it consists of, in the meaning of the processor's manual.  \<open>honest_kvm\<close> says
  that \<open>KVM_RUN\<close> runs the guest in the memory and from the registers that the program has set.
\<close>

section \<open>The KVM interface\<close>

record kvm_sregs =
  cs_base :: nat
  cs_selector :: nat

record kvm_regs =
  rip :: nat
  rax :: nat
  rbx :: nat
  rflags :: nat

record kvm_region =
  slot :: nat
  guest_phys_addr :: nat
  memory_size :: nat
  contents :: bytes

datatype kvm_exit =
    ExitHlt
  | ExitIo nat nat nat nat byte     \<comment> \<open>direction (1 is out), size, port, count, data\<close>
  | ExitFailEntry nat
  | ExitInternalError nat
  | ExitOther nat

datatype kvm_call =
    KOpen string
  | GetApiVersion int
  | CheckExtension int string
  | CreateVm int
  | KMmap nat
  | SetUserMemory int kvm_region
  | CreateVcpu int
  | GetVcpuMmapSize int
  | GetSregs int
  | SetSregs int kvm_sregs
  | SetRegs int kvm_regs
  | KvmRun int
  | Fopen string
  | Fseek string
  | Ftell
  | Fclose
  | KMalloc nat
  | Fread nat
  | KFree
  | Putchar byte
  | KOut string
  | KErr string
  | KPerror string

record kvm_reply =
  krv :: int
  kexit :: kvm_exit
  ksregs :: kvm_sregs
  kdata :: bytes

type_synonym kvm_os = "(kvm_call, kvm_reply) os"
type_synonym 'a vprog = "(kvm_call, kvm_reply, 'a) prog"

text \<open>
  How a program ends: it returns from \<open>main\<close>, or it stores through a pointer that is no memory.
\<close>

datatype ending = Returned int | Crashed

text \<open>
  \<open>err_exit\<close> after a call: print the message and return 1.
\<close>

definition kcheck :: "kvm_os \<Rightarrow> kvm_call \<Rightarrow> (int \<Rightarrow> string option) \<Rightarrow> (kvm_reply \<Rightarrow> (ending + 'b) vprog) \<Rightarrow>
    (ending + 'b) vprog" where
  "kcheck os c bad k =
     do {
       r \<leftarrow> call os c;
       (case bad (krv r) of
          Some msg \<Rightarrow> do { _ \<leftarrow> call os (KPerror msg); State_Monad.return (Inl (Returned 1)) }
        | None \<Rightarrow> k r)
     }"

definition minus1 :: "string \<Rightarrow> int \<Rightarrow> string option" where
  "minus1 msg r = (if r = - 1 then Some msg else None)"

definition null :: "string \<Rightarrow> int \<Rightarrow> string option" where
  "null msg r = (if r = 0 then Some msg else None)"

text \<open>The second program gives the block with the code back once it is copied.\<close>

definition kfree_if :: "bool \<Rightarrow> kvm_os \<Rightarrow> (ending + 'b) vprog \<Rightarrow> (ending + 'b) vprog" where
  "kfree_if from_file os m = (if from_file then do { _ \<leftarrow> call os KFree; m } else m)"

text \<open>
  From opening \<open>/dev/kvm\<close> to \<open>KVM_SET_REGS\<close>; the result is the processor's descriptor.  \<open>run_size\<close> is
  \<open>sizeof(struct kvm_run)\<close>.  \<open>mmap\<close> fails with the pointer \<open>-1\<close>, which the test for a null pointer
  lets through; \<open>memcpy\<close> then crashes, as it does when the code is longer than the page.
\<close>

definition kvm_setup :: "bool \<Rightarrow> nat \<Rightarrow> bytes \<Rightarrow> nat \<Rightarrow> kvm_os \<Rightarrow> (ending + int) vprog" where
  "kvm_setup from_file run_size code addr os =
     kcheck os (KOpen ''/dev/kvm'') (minus1 (''Open /dev/kvm failed!'' @ nl)) (\<lambda>kvm.
     kcheck os (GetApiVersion (krv kvm))
       (\<lambda>r. if r = - 1 then Some ''KVM_GET_API_VERSION''
            else if r \<noteq> 12 then Some ''KVM_GET_API_VERSION not 12'' else None) (\<lambda>_.
     kcheck os (CheckExtension (krv kvm) ''KVM_CAP_USER_MEMORY'')
       (\<lambda>r. if r = - 1 then Some ''KVM_CHECK_EXTENSION''
            else if r = 0 then Some ''Required extension KVM_CAP_USER_MEM not available'' else None) (\<lambda>_.
     kcheck os (CreateVm (krv kvm)) (minus1 ''KVM_CREATE_VM'') (\<lambda>vmfd.
     kcheck os (KMmap 4096) (null ''allocation guest memory'') (\<lambda>mem.
     if krv mem = - 1 \<or> 4096 < length code then State_Monad.return (Inl Crashed)
     else kfree_if from_file os (
     kcheck os (SetUserMemory (krv vmfd) \<lparr>slot = 0, guest_phys_addr = addr, memory_size = 4096, contents = code\<rparr>)
       (minus1 ''KVM_SET_USER_MEMORY_REGION'') (\<lambda>_.
     kcheck os (CreateVcpu (krv vmfd)) (minus1 ''KVM_CREATE_VCPU'') (\<lambda>vcpufd.
     kcheck os (GetVcpuMmapSize (krv kvm))
       (\<lambda>r. if r = - 1 then Some ''KVM_GET_VCPU_MMAP_SIZE''
            else if c_ulong r < run_size then Some ''KVM_GET_VCPU_MMAP_SIZE unexpectedly small'' else None) (\<lambda>msz.
     kcheck os (KMmap (c_ulong (krv msz))) (null ''mmap vcpu'') (\<lambda>run.
     kcheck os (GetSregs (krv vcpufd)) (minus1 ''KVM_GET_SREGS'') (\<lambda>sregs.
     kcheck os (SetSregs (krv vcpufd) ((ksregs sregs)\<lparr>cs_base := 0, cs_selector := 0\<rparr>)) (minus1 ''KVM_SET_SREGS'') (\<lambda>_.
     kcheck os (SetRegs (krv vcpufd) \<lparr>rip = addr, rax = 2, rbx = 2, rflags = 2\<rparr>) (minus1 ''KVM_SET_REGS'') (\<lambda>_.
     if krv run = - 1 then State_Monad.return (Inl Crashed)
     else State_Monad.return (Inr (krv vcpufd)))))))))))))))"

text \<open>
  The run loop.  The first program also prints the parameters of an unhandled access (\<open>verbose\<close>).
\<close>

fun kvm_loop :: "bool \<Rightarrow> kvm_os \<Rightarrow> int \<Rightarrow> nat \<Rightarrow> ending option vprog" where
  "kvm_loop verbose os vcpufd 0 = State_Monad.return None"
| "kvm_loop verbose os vcpufd (Suc fuel) =
     do {
       r \<leftarrow> call os (KvmRun vcpufd);
       if krv r = - 1 then do { _ \<leftarrow> call os (KPerror ''KVM_RUN''); State_Monad.return (Some (Returned 1)) }
       else (case kexit r of
           ExitHlt \<Rightarrow> do { _ \<leftarrow> call os (KOut (''KVM_EXIT_HLT'' @ nl)); State_Monad.return (Some (Returned 0)) }
         | ExitIo direction sz port cnt data \<Rightarrow>
             if direction = 1 \<and> sz = 1 \<and> port = 0x3f8 \<and> cnt = 1 then do {
               _ \<leftarrow> call os (Putchar data);
               kvm_loop verbose os vcpufd fuel
             } else do {
               _ \<leftarrow> call os (KErr (''unhandled KVM_EXIT_IO'' @ nl));
               if verbose then do {
                 _ \<leftarrow> call os (KOut (''KVM_EXIT_IO size:'' @ fmt_u sz @ '' port:0x'' @ fmt_x port @ '' count:'' @ fmt_u cnt @ nl));
                 State_Monad.return (Some (Returned 1))
               } else State_Monad.return (Some (Returned 1))
             }
         | ExitFailEntry reason \<Rightarrow> do {
             _ \<leftarrow> call os (KErr (''KVM_EXIT_FAIL_ENTRY: hardware_entry_failure_reason=0x'' @ fmt_x reason @ nl));
             State_Monad.return (Some (Returned 1))
           }
         | ExitInternalError suberror \<Rightarrow> do {
             _ \<leftarrow> call os (KErr (''KVM_EXIT_INTERNAL_ERROR: suberror=0x'' @ fmt_x suberror @ nl));
             State_Monad.return (Some (Returned 1))
           }
         | ExitOther reason \<Rightarrow> do {
             _ \<leftarrow> call os (KErr (''exit_reason=0x'' @ fmt_x reason @ nl));
             State_Monad.return (Some (Returned 0))
           })
     }"

definition kvm_run :: "bool \<Rightarrow> nat \<Rightarrow> bytes \<Rightarrow> nat \<Rightarrow> nat \<Rightarrow> kvm_os \<Rightarrow> ending option vprog" where
  "kvm_run verbose run_size code addr fuel os =
     do {
       s \<leftarrow> kvm_setup (\<not> verbose) run_size code addr os;
       (case s of Inl e \<Rightarrow> State_Monad.return (Some e) | Inr vcpufd \<Rightarrow> kvm_loop verbose os vcpufd fuel)
     }"

text \<open>The first program: the code is in the source, at guest address \<open>0x1000\<close>.\<close>

definition test1_code :: bytes where
  "test1_code =
     [0xba, 0xf8, 0x03,
      0x00, 0xd8,
      0x04, 48,
      0xee,
      0xb0, 10,
      0xee,
      0xf4]"

definition kvm_test1_main :: "nat \<Rightarrow> nat \<Rightarrow> kvm_os \<Rightarrow> ending option vprog" where
  "kvm_test1_main run_size fuel os = kvm_run True run_size test1_code 0x1000 fuel os"

text \<open>
  The second: the code is read from a file, and placed at guest address 0.  A \<open>malloc\<close> that fails is
  not noticed; \<open>fread\<close> then stores through the null pointer.
\<close>

definition kvm_test2_main :: "nat \<Rightarrow> nat \<Rightarrow> string list \<Rightarrow> kvm_os \<Rightarrow> ending option vprog" where
  "kvm_test2_main run_size fuel argv os =
     (if length argv \<noteq> 2 then do {
        _ \<leftarrow> call os (KErr (''Parameter error, need machine code input!'' @ nl));
        State_Monad.return (Some (Returned 1))
      } else do {
        fc \<leftarrow> call os (Fopen (argv ! 1));
        if krv fc = 0 then do { _ \<leftarrow> call os (KPerror ''fopen''); State_Monad.return (Some (Returned 1)) }
        else do {
          _ \<leftarrow> call os (Fseek ''SEEK_END'');
          len \<leftarrow> call os Ftell;
          _ \<leftarrow> call os (Fseek ''SEEK_SET'');
          buf \<leftarrow> call os (KMalloc (c_ulong (c_int (krv len))));
          if krv buf = 0 then State_Monad.return (Some Crashed)
          else do {
            code \<leftarrow> call os (Fread (c_ulong (c_int (krv len))));
            _ \<leftarrow> call os Fclose;
            kvm_run False run_size (kdata code) 0 fuel os
          }
        }
      })"

text \<open>The third prints what the interface offers.\<close>

definition kvm_api_main :: "kvm_os \<Rightarrow> int vprog" where
  "kvm_api_main os =
     do {
       dev \<leftarrow> call os (KOpen ''/dev/kvm'');
       if krv dev = - 1 then do { _ \<leftarrow> call os (KPerror ''Open /dev/kvm''); State_Monad.return (- 1) }
       else do {
         v \<leftarrow> call os (GetApiVersion (krv dev));
         _ \<leftarrow> call os (KOut (''KVM api version:'' @ fmt_d (krv v) @ nl));
         n \<leftarrow> call os (CheckExtension (krv dev) ''KVM_CAP_NR_VCPUS'');
         _ \<leftarrow> (if krv n = - 1 then call os (KPerror ''KVM KVM_CAP_NR_VCPUS'')
               else call os (KOut (''KVM recommended max_vcpus:'' @ fmt_d (krv n) @ nl)));
         m \<leftarrow> call os (CheckExtension (krv dev) ''KVM_CAP_MAX_VCPUS'');
         _ \<leftarrow> (if krv m = - 1 then call os (KPerror ''KVM KVM_CAP_MAX_VCPUS'')
               else call os (KOut (''KVM maximum possible value of max_vcpus:'' @ fmt_d (krv m) @ nl)));
         State_Monad.return 0
       }
     }"

section \<open>The guest\<close>

record cpu =
  ip :: "16 word"
  al :: byte
  bl :: byte
  dx :: "16 word"

datatype guest_event = Silent | OutByte "16 word" byte | Halted

type_synonym guest_mem = "nat \<Rightarrow> byte"

text \<open>
  One instruction: \<open>mov $imm16,%dx\<close>, \<open>add %bl,%al\<close>, \<open>add $imm8,%al\<close>, \<open>out %al,(%dx)\<close>, \<open>mov $imm8,%al\<close>
  and \<open>hlt\<close>; \<open>None\<close> for every other opcode.
\<close>

definition guest_step :: "guest_mem \<Rightarrow> cpu \<Rightarrow> (guest_event \<times> cpu) option" where
  "guest_step mem c =
     (let i = unat (ip c); op = mem i; b1 = mem (i + 1); b2 = mem (i + 2) in
      if op = 0xba then Some (Silent, c\<lparr>ip := ip c + 3, dx := ucast b1 + 256 * ucast b2\<rparr>)
      else if op = 0x00 \<and> b1 = 0xd8 then Some (Silent, c\<lparr>ip := ip c + 2, al := al c + bl c\<rparr>)
      else if op = 0x04 then Some (Silent, c\<lparr>ip := ip c + 2, al := al c + b1\<rparr>)
      else if op = 0xee then Some (OutByte (dx c) (al c), c\<lparr>ip := ip c + 1\<rparr>)
      else if op = 0xb0 then Some (Silent, c\<lparr>ip := ip c + 2, al := b1\<rparr>)
      else if op = 0xf4 then Some (Halted, c\<lparr>ip := ip c + 1\<rparr>)
      else None)"

text \<open>Run to the next event, within \<open>k\<close> instructions.\<close>

fun guest_exit :: "nat \<Rightarrow> guest_mem \<Rightarrow> cpu \<Rightarrow> (guest_event \<times> cpu) option" where
  "guest_exit 0 mem c = None"
| "guest_exit (Suc k) mem c =
     (case guest_step mem c of
        None \<Rightarrow> None
      | Some (Silent, c') \<Rightarrow> guest_exit k mem c'
      | Some (ev, c') \<Rightarrow> Some (ev, c'))"

text \<open>What the guest sends to the serial port until it halts, within \<open>n\<close> events.\<close>

fun guest_output :: "nat \<Rightarrow> nat \<Rightarrow> guest_mem \<Rightarrow> cpu \<Rightarrow> bytes option" where
  "guest_output 0 k mem c = None"
| "guest_output (Suc n) k mem c =
     (case guest_exit k mem c of
        Some (Halted, c') \<Rightarrow> Some []
      | Some (OutByte p b, c') \<Rightarrow> if p = 0x3f8 then map_option (Cons b) (guest_output n k mem c') else None
      | _ \<Rightarrow> None)"

section \<open>The machine the calls set up\<close>

record vm =
  vm_mem :: guest_mem
  vm_cpu :: cpu

text \<open>The region is an anonymous mapping, zero behind what was copied into it.\<close>

definition mem_of :: "kvm_region \<Rightarrow> guest_mem" where
  "mem_of r = (\<lambda>a. if guest_phys_addr r \<le> a \<and> a - guest_phys_addr r < length (contents r)
                   then contents r ! (a - guest_phys_addr r) else 0)"

definition cpu_of :: "kvm_regs \<Rightarrow> cpu" where
  "cpu_of r = \<lparr>ip = of_nat (rip r), al = of_nat (rax r), bl = of_nat (rbx r), dx = 0\<rparr>"

fun vm_step :: "nat \<Rightarrow> vm \<Rightarrow> kvm_call \<times> kvm_reply \<Rightarrow> vm" where
  "vm_step k v (SetUserMemory fd r, _) = v\<lparr>vm_mem := mem_of r\<rparr>"
| "vm_step k v (SetRegs fd r, _) = v\<lparr>vm_cpu := cpu_of r\<rparr>"
| "vm_step k v (KvmRun fd, _) =
     (case guest_exit k (vm_mem v) (vm_cpu v) of None \<Rightarrow> v | Some (ev, c) \<Rightarrow> v\<lparr>vm_cpu := c\<rparr>)"
| "vm_step k v (c, _) = v"

definition vm_start :: vm where
  "vm_start = \<lparr>vm_mem = \<lambda>_. 0, vm_cpu = \<lparr>ip = 0, al = 0, bl = 0, dx = 0\<rparr>\<rparr>"

definition vm_after :: "nat \<Rightarrow> (kvm_call, kvm_reply) trace \<Rightarrow> vm" where
  "vm_after k h = foldl (vm_step k) vm_start h"

lemma vm_after_Nil [simp]: "vm_after k [] = vm_start"
  by (simp add: vm_after_def)

lemma vm_after_append [simp]: "vm_after k (h @ es) = foldl (vm_step k) (vm_after k h) es"
  by (simp add: vm_after_def)

fun exit_of :: "guest_event \<Rightarrow> kvm_exit" where
  "exit_of (OutByte p b) = ExitIo 1 1 (unat p) 1 b"
| "exit_of Halted = ExitHlt"
| "exit_of Silent = ExitOther 0"

definition honest_kvm :: "nat \<Rightarrow> kvm_os \<Rightarrow> bool" where
  "honest_kvm k os \<longleftrightarrow>
     (\<forall>h fd. case guest_exit k (vm_mem (vm_after k h)) (vm_cpu (vm_after k h)) of
        None \<Rightarrow> True
      | Some (ev, c) \<Rightarrow> krv (os h (KvmRun fd)) = 0 \<and> kexit (os h (KvmRun fd)) = exit_of ev)"

text \<open>The set-up calls succeed; the mappings are a matter of their own.\<close>

definition kvm_available :: "nat \<Rightarrow> kvm_os \<Rightarrow> bool" where
  "kvm_available run_size os \<longleftrightarrow>
     (\<forall>h fd. krv (os h (KOpen ''/dev/kvm'')) > 0 \<and> krv (os h (GetApiVersion fd)) = 12
       \<and> krv (os h (CheckExtension fd ''KVM_CAP_USER_MEMORY'')) = 1 \<and> krv (os h (CreateVm fd)) > 0
       \<and> (\<forall>r. krv (os h (SetUserMemory fd r)) = 0)
       \<and> krv (os h (CreateVcpu fd)) > 0 \<and> krv (os h (GetVcpuMmapSize fd)) = int run_size
       \<and> krv (os h (GetSregs fd)) = 0 \<and> (\<forall>s. krv (os h (SetSregs fd s)) = 0)
       \<and> (\<forall>r. krv (os h (SetRegs fd r)) = 0))"

definition maps_memory :: "kvm_os \<Rightarrow> bool" where
  "maps_memory os \<longleftrightarrow> (\<forall>h n. 0 < krv (os h (KMmap n)))"

text \<open>What a run has printed on the standard output.\<close>

fun printed :: "(kvm_call, kvm_reply) trace \<Rightarrow> string" where
  "printed [] = ''''"
| "printed ((Putchar b, r) # h) = char_of (unat b) # printed h"
| "printed ((KOut s, r) # h) = s @ printed h"
| "printed ((c, r) # h) = printed h"

lemma printed_append [simp]: "printed (h @ h') = printed h @ printed h'"
  by (induction h rule: printed.induct) simp_all


section \<open>Running the guest\<close>

lemma honestD:
  assumes "honest_kvm k os" "guest_exit k (vm_mem (vm_after k h)) (vm_cpu (vm_after k h)) = Some (ev, c)"
  shows "krv (os h (KvmRun fd)) = 0 \<and> kexit (os h (KvmRun fd)) = exit_of ev"
proof -
  have "case guest_exit k (vm_mem (vm_after k h)) (vm_cpu (vm_after k h)) of
      None \<Rightarrow> True
    | Some (ev, c) \<Rightarrow> krv (os h (KvmRun fd)) = 0 \<and> kexit (os h (KvmRun fd)) = exit_of ev"
    using assms(1) unfolding honest_kvm_def by blast
  then show ?thesis unfolding assms(2) by simp
qed

lemma kvm_loop_prints:
  assumes "honest_kvm k os"
  shows "guest_output n k (vm_mem (vm_after k h)) (vm_cpu (vm_after k h)) = Some bs \<Longrightarrow>
    \<exists>h'. run_state (kvm_loop verbose os fd n) h = (Some (Returned 0), h') \<and>
      printed h' = printed h @ map (\<lambda>b. char_of (unat b)) bs @ ''KVM_EXIT_HLT'' @ nl"
proof (induction n arbitrary: h bs)
  case (Suc n)
  let ?v = "vm_after k h"
  from Suc.prems obtain ev c where e: "guest_exit k (vm_mem ?v) (vm_cpu ?v) = Some (ev, c)"
    by (auto split: option.splits)
  have r: "krv (os h (KvmRun fd)) = 0" "kexit (os h (KvmRun fd)) = exit_of ev"
    using honestD [OF assms e] by simp_all
  show ?case
  proof (cases ev)
    case Silent
    with Suc.prems e show ?thesis by simp
  next
    case Halted
    with Suc.prems e r show ?thesis by simp
  next
    case (OutByte p b)
    with Suc.prems e obtain bs' where p: "p = 0x3f8" and bs: "bs = b # bs'"
      "guest_output n k (vm_mem ?v) c = Some bs'"
      by (auto split: if_splits)
    let ?h1 = "h @ [(KvmRun fd, os h (KvmRun fd))]"
    let ?h2 = "?h1 @ [(Putchar b, os ?h1 (Putchar b))]"
    have "vm_after k ?h2 = ?v\<lparr>vm_cpu := c\<rparr>" using e by simp
    with Suc.IH [of ?h2 bs'] bs(2) obtain h' where
      "run_state (kvm_loop verbose os fd n) ?h2 = (Some (Returned 0), h')"
      "printed h' = printed ?h2 @ map (\<lambda>b. char_of (unat b)) bs' @ ''KVM_EXIT_HLT'' @ nl"
      by auto
    then show ?thesis using OutByte p r bs(1) by simp
  qed
qed simp

text \<open>
  The set-up as a chain of calls: each one that answers well passes on to the next, with the machine
  as it has left it and nothing printed.
\<close>

definition reaches :: "nat \<Rightarrow> vm \<Rightarrow> (ending + int) vprog \<Rightarrow> (kvm_call, kvm_reply) trace \<Rightarrow> bool" where
  "reaches k v m h \<longleftrightarrow> (\<exists>fd h'. run_state m h = (Inr fd, h') \<and> printed h' = '''' \<and> vm_after k h' = v)"

lemma reaches_kcheck:
  assumes "printed h = ''''" "vm_after k h = v" "printed [(c, os h c)] = ''''" "vm_step k v (c, os h c) = v'"
    and "bad (krv (os h c)) = None"
    and "\<And>h'. printed h' = '''' \<Longrightarrow> vm_after k h' = v' \<Longrightarrow> reaches k w (f (os h c)) h'"
  shows "reaches k w (kcheck os c bad f) h"
proof -
  have "reaches k w (f (os h c)) (h @ [(c, os h c)])"
    using assms(1-4) by (intro assms(6)) simp_all
  then show ?thesis using assms(5) by (simp add: reaches_def kcheck_def)
qed

lemma reaches_kfree_if:
  assumes "printed h = ''''" "vm_after k h = v" "\<And>h'. printed h' = '''' \<Longrightarrow> vm_after k h' = v \<Longrightarrow> reaches k w m h'"
  shows "reaches k w (kfree_if from_file os m) h"
proof (cases from_file)
  case True
  have "reaches k w m (h @ [(KFree, os h KFree)])" using assms(1,2) by (intro assms(3)) simp_all
  with True show ?thesis by (simp add: reaches_def kfree_if_def)
qed (use assms in \<open>simp add: kfree_if_def\<close>)

lemma reaches_return:
  "printed h = '''' \<Longrightarrow> vm_after k h = w \<Longrightarrow> reaches k w (State_Monad.return (Inr fd)) h"
  by (simp add: reaches_def)

lemma kvm_setup_ready:
  assumes "kvm_available run_size os" "maps_memory os" "run_size < 2 ^ 31" "length code \<le> 4096"
  shows "\<exists>fd h. run_state (kvm_setup from_file run_size code addr os) [] = (Inr fd, h) \<and> printed h = '''' \<and>
    vm_after k h = \<lparr>vm_mem = mem_of \<lparr>slot = 0, guest_phys_addr = addr, memory_size = 4096, contents = code\<rparr>,
      vm_cpu = \<lparr>ip = of_nat addr, al = 2, bl = 2, dx = 0\<rparr>\<rparr>"
proof -
  have a: "0 < krv (os h (KOpen ''/dev/kvm''))" "krv (os h (GetApiVersion fd)) = 12"
    "krv (os h (CheckExtension fd ''KVM_CAP_USER_MEMORY'')) = 1" "0 < krv (os h (CreateVm fd))"
    "0 < krv (os h (KMmap n))" "krv (os h (SetUserMemory fd r)) = 0"
    "0 < krv (os h (CreateVcpu fd))" "krv (os h (GetVcpuMmapSize fd)) = int run_size"
    "krv (os h (GetSregs fd)) = 0" "krv (os h (SetSregs fd s)) = 0" "krv (os h (SetRegs fd g)) = 0" for h fd n r s g
    using assms(1,2) unfolding kvm_available_def maps_memory_def by blast+
  have b: "krv (os h (KOpen ''/dev/kvm'')) \<noteq> - 1" "krv (os h (CreateVm fd)) \<noteq> - 1"
    "krv (os h (KMmap n)) \<noteq> - 1" "krv (os h (KMmap n)) \<noteq> 0" "krv (os h (CreateVcpu fd)) \<noteq> - 1" for h fd n
    using a(1) [of h] a(4) [of h fd] a(5) [of h n] a(7) [of h fd] by simp_all
  have c: "int run_size \<noteq> - 1" "c_ulong (int run_size) = run_size" using assms(3) by simp_all
  have "\<not> 4096 < length code" using assms(4) by simp
  note ok = minus1_def null_def a b c this
  have "reaches k \<lparr>vm_mem = mem_of \<lparr>slot = 0, guest_phys_addr = addr, memory_size = 4096, contents = code\<rparr>,
      vm_cpu = \<lparr>ip = of_nat addr, al = 2, bl = 2, dx = 0\<rparr>\<rparr> (kvm_setup from_file run_size code addr os) []"
    unfolding kvm_setup_def
    by (intro reaches_kcheck [OF _ refl _ refl] reaches_return)
      (simp_all add: ok cpu_of_def vm_start_def reaches_kcheck reaches_kfree_if reaches_return)
  then show ?thesis unfolding reaches_def .
qed

lemma kvm_run_returns:
  assumes "kvm_available run_size os" "maps_memory os" "run_size < 2 ^ 31" "length code \<le> 4096" "honest_kvm k os"
    and "guest_output n k (mem_of \<lparr>slot = 0, guest_phys_addr = addr, memory_size = 4096, contents = code\<rparr>)
      \<lparr>ip = of_nat addr, al = 2, bl = 2, dx = 0\<rparr> = Some bs"
  shows "\<exists>h. run_state (kvm_run verbose run_size code addr n os) [] = (Some (Returned 0), h) \<and>
    printed h = map (\<lambda>b. char_of (unat b)) bs @ ''KVM_EXIT_HLT'' @ nl"
proof -
  obtain fd h where s: "run_state (kvm_setup (\<not> verbose) run_size code addr os) [] = (Inr fd, h)" "printed h = ''''"
    "vm_after k h = \<lparr>vm_mem = mem_of \<lparr>slot = 0, guest_phys_addr = addr, memory_size = 4096, contents = code\<rparr>,
      vm_cpu = \<lparr>ip = of_nat addr, al = 2, bl = 2, dx = 0\<rparr>\<rparr>"
    using kvm_setup_ready [OF assms(1-4)] by blast
  have "guest_output n k (vm_mem (vm_after k h)) (vm_cpu (vm_after k h)) = Some bs"
    using assms(6) s(3) by simp
  from kvm_loop_prints [OF assms(5) this] s show ?thesis by (simp add: kvm_run_def)
qed

section \<open>Properties\<close>


text \<open>The guest of the first program.\<close>

lemma test1_fetch:
  "mem_of \<lparr>slot = 0, guest_phys_addr = 4096, memory_size = 4096, contents = test1_code\<rparr> a =
     (if 4096 \<le> a \<and> a < 4108 then test1_code ! (a - 4096) else 0)"
  by (auto simp: mem_of_def test1_code_def)

lemma test1_bytes:
  defines "M \<equiv> mem_of \<lparr>slot = 0, guest_phys_addr = 4096, memory_size = 4096, contents = test1_code\<rparr>"
  shows "M 4096 = 0xba" "M 4097 = 0xf8" "M 4098 = 3" "M 4099 = 0" "M 4100 = 0xd8" "M 4101 = 4" "M 4102 = 48"
    "M 4103 = 0xee" "M 4104 = 0xb0" "M 4105 = 10" "M 4106 = 0xee" "M 4107 = 0xf4"
  by (simp_all add: M_def test1_fetch) (simp_all add: test1_code_def)

lemma test1_steps:
  defines "M \<equiv> mem_of \<lparr>slot = 0, guest_phys_addr = 4096, memory_size = 4096, contents = test1_code\<rparr>"
  shows "guest_step M \<lparr>ip = 4096, al = a, bl = b, dx = d\<rparr> = Some (Silent, \<lparr>ip = 4099, al = a, bl = b, dx = 0x3f8\<rparr>)"
    and "guest_step M \<lparr>ip = 4099, al = a, bl = b, dx = d\<rparr> = Some (Silent, \<lparr>ip = 4101, al = a + b, bl = b, dx = d\<rparr>)"
    and "guest_step M \<lparr>ip = 4101, al = a, bl = b, dx = d\<rparr> = Some (Silent, \<lparr>ip = 4103, al = a + 48, bl = b, dx = d\<rparr>)"
    and "guest_step M \<lparr>ip = 4103, al = a, bl = b, dx = d\<rparr> = Some (OutByte d a, \<lparr>ip = 4104, al = a, bl = b, dx = d\<rparr>)"
    and "guest_step M \<lparr>ip = 4104, al = a, bl = b, dx = d\<rparr> = Some (Silent, \<lparr>ip = 4106, al = 10, bl = b, dx = d\<rparr>)"
    and "guest_step M \<lparr>ip = 4106, al = a, bl = b, dx = d\<rparr> = Some (OutByte d a, \<lparr>ip = 4107, al = a, bl = b, dx = d\<rparr>)"
    and "guest_step M \<lparr>ip = 4107, al = a, bl = b, dx = d\<rparr> = Some (Halted, \<lparr>ip = 4108, al = a, bl = b, dx = d\<rparr>)"
  by (simp_all add: guest_step_def Let_def test1_bytes [folded M_def] del: add_2_eq_Suc add_2_eq_Suc')

lemma test1_guest:
  "guest_output 3 4 (mem_of \<lparr>slot = 0, guest_phys_addr = 4096, memory_size = 4096, contents = test1_code\<rparr>)
     \<lparr>ip = 4096, al = 2, bl = 2, dx = 0\<rparr> = Some [52, 10]"
proof -
  have n: "(4 :: nat) = Suc (Suc (Suc (Suc 0)))" by simp
  show ?thesis by (simp only: n numeral_3_eq_3) (simp add: test1_steps)
qed

text \<open>
  The first program adds 2 and 2: run on the code of the source, it prints \<open>4\<close>, a new line and the
  final message, and returns 0.
\<close>

theorem kvm_test1_prints_four:
  assumes "kvm_available run_size os" "maps_memory os" "run_size < 2 ^ 31" "honest_kvm 4 os"
  shows "\<exists>h. run_state (kvm_test1_main run_size 3 os) [] = (Some (Returned 0), h) \<and>
    printed h = ''4'' @ nl @ ''KVM_EXIT_HLT'' @ nl"
proof -
  have "length test1_code \<le> 4096" by (simp add: test1_code_def)
  moreover have "char_of (52 :: nat) = CHR ''4''" "char_of (10 :: nat) = CHR 0x0A"
    by (simp_all add: char_of_def bit_iff_odd)
  ultimately show ?thesis
    using kvm_run_returns [OF assms(1-3) _ assms(4), of test1_code 3 4096 "[52, 10]" True] test1_guest
    by (simp add: kvm_test1_main_def nl_def)
qed

text \<open>A machine that does what the manual says.\<close>

definition sample_kvm :: "nat \<Rightarrow> nat \<Rightarrow> kvm_os" where
  "sample_kvm run_size k h c =
     \<lparr>krv = (case c of GetApiVersion fd \<Rightarrow> 12 | KOpen s \<Rightarrow> 3 | CheckExtension fd s \<Rightarrow> 1 | CreateVm fd \<Rightarrow> 4
        | KMmap n \<Rightarrow> 65536 | CreateVcpu fd \<Rightarrow> 5 | GetVcpuMmapSize fd \<Rightarrow> int run_size | _ \<Rightarrow> 0),
      kexit = (case guest_exit k (vm_mem (vm_after k h)) (vm_cpu (vm_after k h)) of
        None \<Rightarrow> ExitOther 0 | Some (ev, c) \<Rightarrow> exit_of ev),
      ksregs = \<lparr>cs_base = 0, cs_selector = 0\<rparr>, kdata = []\<rparr>"

lemma sample_kvm_available: "kvm_available run_size (sample_kvm run_size k)"
  by (simp add: kvm_available_def sample_kvm_def)

lemma sample_kvm_maps: "maps_memory (sample_kvm run_size k)"
  by (simp add: maps_memory_def sample_kvm_def)

lemma sample_kvm_honest: "honest_kvm k (sample_kvm run_size k)"
  by (auto simp: honest_kvm_def sample_kvm_def split: option.splits)

theorem kvm_test1_prints_four_witness:
  "\<exists>h. run_state (kvm_test1_main 2352 3 (sample_kvm 2352 4)) [] = (Some (Returned 0), h) \<and>
    printed h = ''4'' @ nl @ ''KVM_EXIT_HLT'' @ nl"
  by (rule kvm_test1_prints_four [OF sample_kvm_available sample_kvm_maps _ sample_kvm_honest]) simp


lemma kcheck_passes:
  assumes "bad (krv (os h c)) = None" "\<And>h'. fst (run_state (f (os h c)) h') = x"
  shows "fst (run_state (kcheck os c bad f) h) = x"
  using assms by (simp add: kcheck_def)

text \<open>
  A mapping that fails is not noticed by either program: \<open>mmap\<close> answers \<open>-1\<close>, not a null pointer,
  and copying the code there crashes; so does a code longer than the page, which nothing checks.
\<close>

theorem kvm_setup_crashes:
  assumes "kvm_available run_size os"
    and "(\<forall>h. krv (os h (KMmap 4096)) = - 1) \<or> maps_memory os \<and> 4096 < length code"
  shows "fst (run_state (kvm_run verbose run_size code addr fuel os) []) = Some Crashed"
proof -
  have a: "0 < krv (os h (KOpen ''/dev/kvm''))" "krv (os h (GetApiVersion fd)) = 12"
    "krv (os h (CheckExtension fd ''KVM_CAP_USER_MEMORY'')) = 1" "0 < krv (os h (CreateVm fd))"
    "krv (os h (KMmap 4096)) = - 1 \<or> 0 < krv (os h (KMmap 4096)) \<and> 4096 < length code" for h fd
    using assms unfolding kvm_available_def maps_memory_def by blast+
  have b: "krv (os h (KOpen ''/dev/kvm'')) \<noteq> - 1" "krv (os h (CreateVm fd)) \<noteq> - 1" "krv (os h (KMmap 4096)) \<noteq> 0" for h fd
    using a(1) [of h] a(4) [of h fd] a(5) [of h] by auto
  have "fst (run_state (kvm_setup (\<not> verbose) run_size code addr os) []) = Inl Crashed"
    unfolding kvm_setup_def
    by (intro kcheck_passes) (use a(5) in \<open>auto simp: minus1_def null_def a(1-4) b\<close>)
  then show ?thesis by (auto simp: kvm_run_def split: prod.splits)
qed

theorem kvm_setup_crashes_witness:
  "fst (run_state (kvm_run True 2352 (replicate 5000 0) 0 9 (sample_kvm 2352 1)) []) = Some Crashed"
  using kvm_setup_crashes [OF sample_kvm_available [of 2352 1], of "replicate 5000 0" True 0 9]
    sample_kvm_maps by simp

end
