(* ===== verification/Threads.thy ===== *)
theory Threads
  imports Posix
begin

text \<open>
  Programs of several threads, for \<open>src/linux/eventfd/foo.c\<close>,
  \<open>src/linux/pthread/simple_pthread/spthread.c\<close>, \<open>src/linux/linux-inside/ztest_usr.c\<close> and
  \<open>src/python/cgroup/cpu_use.c\<close>.

  A thread is a state machine: \<open>code pc\<close> is what it does at program point \<open>pc\<close>, a call of the
  system, a step in the memory the threads share, or one of the thread calls.  The threads are named
  by the variable that holds their handle.  \<open>sys_step\<close> lets any one thread do its next action, so a
  run is any interleaving of them; what the system answers to a call is any answer that
  \<open>env\<close>, a parameter, allows after the history so far.  \<open>exec\<close> performs one chosen step, so
  that a run can be computed from a schedule.
\<close>

section \<open>Thread code\<close>

datatype ('t, 'm, 'pc) action =
    Sys ucall "reply \<Rightarrow> 'm \<Rightarrow> 'm \<times> 'pc"
  | Mem "'m \<Rightarrow> 'm \<times> 'pc"
  | Spawn 't 'pc "int \<Rightarrow> 'm \<Rightarrow> 'm \<times> 'pc"
  | Join 't "int \<Rightarrow> 'm \<Rightarrow> 'm \<times> 'pc"
  | Exit int
  | Ended

record ('t, 'm, 'pc) sys =
  mem :: 'm
  pool :: "'t \<Rightarrow> 'pc option"
  hist :: "('t \<times> ucall \<times> reply) list"
  exited :: "int option"

definition goes :: "('t, 'm, 'pc) sys \<Rightarrow> 't \<Rightarrow> 'm \<times> 'pc \<Rightarrow> ('t, 'm, 'pc) sys" where
  "goes s t mp = s\<lparr>mem := fst mp, pool := (pool s)(t \<mapsto> snd mp)\<rparr>"

lemma goes_fields [simp]:
  "mem (goes s t mp) = fst mp" "pool (goes s t mp) = (pool s)(t \<mapsto> snd mp)"
  "hist (goes s t mp) = hist s" "exited (goes s t mp) = exited s"
  by (simp_all add: goes_def)

text \<open>
  \<open>pthread_create\<close> gives 0 and a new thread, or an error number; \<open>pthread_join\<close> gives 0 when the
  thread has ended, after which the handle is free again, and an error number when the handle
  names no thread.  \<open>exit\<close>, and a return from \<open>main\<close>, ends all threads.
\<close>

inductive sys_step :: "('pc \<Rightarrow> ('t, 'm, 'pc) action) \<Rightarrow> (('t \<times> ucall \<times> reply) list \<Rightarrow> 't \<times> ucall \<times> reply \<Rightarrow> bool) \<Rightarrow>
    ('t, 'm, 'pc) sys \<Rightarrow> ('t, 'm, 'pc) sys \<Rightarrow> bool"
  for code and env where
  sys: "exited s = None \<Longrightarrow> pool s t = Some pc \<Longrightarrow> code pc = Sys c k \<Longrightarrow> env (hist s) (t, c, r) \<Longrightarrow>
    sys_step code env s (goes (s\<lparr>hist := hist s @ [(t, c, r)]\<rparr>) t (k r (mem s)))"
| mem: "exited s = None \<Longrightarrow> pool s t = Some pc \<Longrightarrow> code pc = Mem f \<Longrightarrow>
    sys_step code env s (goes s t (f (mem s)))"
| spawn: "exited s = None \<Longrightarrow> pool s t = Some pc \<Longrightarrow> code pc = Spawn u start k \<Longrightarrow> pool s u = None \<Longrightarrow>
    sys_step code env s (goes (s\<lparr>pool := (pool s)(u \<mapsto> start)\<rparr>) t (k 0 (mem s)))"
| spawn_fails: "exited s = None \<Longrightarrow> pool s t = Some pc \<Longrightarrow> code pc = Spawn u start k \<Longrightarrow> e \<noteq> 0 \<Longrightarrow>
    sys_step code env s (goes s t (k e (mem s)))"
| join: "exited s = None \<Longrightarrow> pool s t = Some pc \<Longrightarrow> code pc = Join u k \<Longrightarrow> u \<noteq> t \<Longrightarrow>
    pool s u = Some pc' \<Longrightarrow> code pc' = Ended \<Longrightarrow>
    sys_step code env s (goes (s\<lparr>pool := (pool s)(u := None)\<rparr>) t (k 0 (mem s)))"
| join_fails: "exited s = None \<Longrightarrow> pool s t = Some pc \<Longrightarrow> code pc = Join u k \<Longrightarrow> pool s u = None \<Longrightarrow> e \<noteq> 0 \<Longrightarrow>
    sys_step code env s (goes s t (k e (mem s)))"
| exits: "exited s = None \<Longrightarrow> pool s t = Some pc \<Longrightarrow> code pc = Exit rc \<Longrightarrow>
    sys_step code env s (s\<lparr>exited := Some rc\<rparr>)"

inductive_cases sys_stepE: "sys_step code env s s'"

inductive reachable :: "('pc \<Rightarrow> ('t, 'm, 'pc) action) \<Rightarrow> (('t \<times> ucall \<times> reply) list \<Rightarrow> 't \<times> ucall \<times> reply \<Rightarrow> bool) \<Rightarrow>
    ('t, 'm, 'pc) sys \<Rightarrow> ('t, 'm, 'pc) sys \<Rightarrow> bool"
  for code and env and s0 where
  start: "reachable code env s0 s0"
| step: "reachable code env s0 s \<Longrightarrow> sys_step code env s s' \<Longrightarrow> reachable code env s0 s'"

lemma reachable_run: "reachable code env s0 s \<Longrightarrow> \<exists>n. (sys_step code env ^^ n) s0 s"
proof (induction rule: reachable.induct)
  case start
  then show ?case by (intro exI [of _ 0]) simp
next
  case (step s s')
  then show ?case by (meson relpowp_Suc_I)
qed

text \<open>The state a program starts in: one thread, nothing done yet.\<close>

definition boot :: "'t \<Rightarrow> 'pc \<Rightarrow> 'm \<Rightarrow> ('t, 'm, 'pc) sys" where
  "boot t pc m = \<lparr>mem = m, pool = [t \<mapsto> pc], hist = [], exited = None\<rparr>"

section \<open>Computing a run\<close>

text \<open>One step of thread \<open>t\<close>; \<open>rv r\<close> is also the answer to a thread call.\<close>

fun exec :: "('pc \<Rightarrow> ('t, 'm, 'pc) action) \<Rightarrow> ('t, 'm, 'pc) sys \<Rightarrow> 't \<times> reply \<Rightarrow> ('t, 'm, 'pc) sys option" where
  "exec code s (t, r) =
     (case (exited s, pool s t) of
        (None, Some pc) \<Rightarrow>
          (case code pc of
             Sys c k \<Rightarrow> Some (goes (s\<lparr>hist := hist s @ [(t, c, r)]\<rparr>) t (k r (mem s)))
           | Mem f \<Rightarrow> Some (goes s t (f (mem s)))
           | Spawn u start k \<Rightarrow>
               (if rv r \<noteq> 0 then Some (goes s t (k (rv r) (mem s)))
                else if pool s u = None then Some (goes (s\<lparr>pool := (pool s)(u \<mapsto> start)\<rparr>) t (k 0 (mem s)))
                else None)
           | Join u k \<Rightarrow>
               (case pool s u of
                  None \<Rightarrow> if rv r \<noteq> 0 then Some (goes s t (k (rv r) (mem s))) else None
                | Some pc' \<Rightarrow>
                    (case code pc' of
                       Ended \<Rightarrow> if u \<noteq> t then Some (goes (s\<lparr>pool := (pool s)(u := None)\<rparr>) t (k 0 (mem s))) else None
                     | _ \<Rightarrow> None))
           | Exit rc \<Rightarrow> Some (s\<lparr>exited := Some rc\<rparr>)
           | Ended \<Rightarrow> None)
      | _ \<Rightarrow> None)"

fun exec_all :: "('pc \<Rightarrow> ('t, 'm, 'pc) action) \<Rightarrow> ('t, 'm, 'pc) sys \<Rightarrow> ('t \<times> reply) list \<Rightarrow> ('t, 'm, 'pc) sys option" where
  "exec_all code s [] = Some s"
| "exec_all code s (x # xs) = (case exec code s x of None \<Rightarrow> None | Some s' \<Rightarrow> exec_all code s' xs)"

text \<open>The calls a history holds are answered as the system may.\<close>

fun allowed :: "(('t \<times> ucall \<times> reply) list \<Rightarrow> 't \<times> ucall \<times> reply \<Rightarrow> bool) \<Rightarrow>
    ('t \<times> ucall \<times> reply) list \<Rightarrow> ('t \<times> ucall \<times> reply) list \<Rightarrow> bool" where
  "allowed env h [] = True"
| "allowed env h (e # es) = (env h e \<and> allowed env (h @ [e]) es)"

lemma exec_sys_step:
  assumes "exec code s x = Some s'" "\<And>e. hist s' = hist s @ [e] \<Longrightarrow> env (hist s) e"
  shows "sys_step code env s s'"
proof -
  obtain t r where x: "x = (t, r)" by (cases x)
  with assms(1) obtain pc where pc: "exited s = None" "pool s t = Some pc"
    by (auto split: option.splits)
  show ?thesis
  proof (cases "code pc")
    case (Sys c k)
    with assms x pc show ?thesis by (auto intro!: sys_step.sys [where code = code and pc = pc, OF pc Sys])
  next
    case (Mem f)
    with assms x pc show ?thesis by (auto intro!: sys_step.mem [where code = code and pc = pc, OF pc Mem])
  next
    case (Spawn u start k)
    with assms(1) x pc show ?thesis
      by (auto split: if_splits intro: sys_step.spawn [where code = code and pc = pc, OF pc Spawn] sys_step.spawn_fails [where code = code and pc = pc, OF pc Spawn])
  next
    case (Join u k)
    with assms(1) x pc show ?thesis
      by (auto split: if_splits option.splits action.splits
               intro: sys_step.join [where code = code and pc = pc, OF pc Join] sys_step.join_fails [where code = code and pc = pc, OF pc Join])
  next
    case (Exit rc)
    with assms(1) x pc show ?thesis by (auto intro!: sys_step.exits [where code = code and pc = pc, OF pc Exit])
  next
    case Ended
    with assms(1) x pc show ?thesis by simp
  qed
qed

lemma exec_hist: "exec code s x = Some s' \<Longrightarrow> hist s' = hist s \<or> (\<exists>e. hist s' = hist s @ [e])"
  by (cases x) (auto split: option.splits action.splits if_splits)

lemma exec_all_hist: "exec_all code s xs = Some s' \<Longrightarrow> \<exists>es. hist s' = hist s @ es"
proof (induction xs arbitrary: s)
  case (Cons x xs)
  then obtain s1 where s1: "exec code s x = Some s1" "exec_all code s1 xs = Some s'" by (auto split: option.splits)
  from Cons.IH [OF s1(2)] exec_hist [OF s1(1)] show ?case by auto
qed simp

lemma exec_all_reachable:
  assumes "exec_all code s xs = Some s'" "reachable code env s0 s"
    and "allowed env (hist s) (drop (length (hist s)) (hist s'))"
  shows "reachable code env s0 s'"
  using assms
proof (induction xs arbitrary: s)
  case (Cons x xs)
  then obtain s1 where s1: "exec code s x = Some s1" "exec_all code s1 xs = Some s'" by (auto split: option.splits)
  obtain es where es: "hist s' = hist s1 @ es" using exec_all_hist [OF s1(2)] by blast
  have st: "sys_step code env s s1"
  proof (rule exec_sys_step [OF s1(1)])
    fix e assume "hist s1 = hist s @ [e]"
    with es Cons.prems(3) show "env (hist s) e" by simp
  qed
  moreover have "allowed env (hist s1) (drop (length (hist s1)) (hist s'))"
    using exec_hist [OF s1(1)] Cons.prems(3) es by auto
  ultimately show ?case using Cons.IH [OF s1(2)] Cons.prems(2) reachable.step by blast
qed simp

lemma run_reachable:
  "exec_all code (boot t pc m) xs = Some s \<Longrightarrow> allowed env [] (hist s) \<Longrightarrow> reachable code env (boot t pc m) s"
  using exec_all_reachable [OF _ reachable.start, of code "boot t pc m" xs s env] by (simp add: boot_def)

text \<open>
  An invariant of all interleavings: it holds at the start, and every step of every thread keeps it.
\<close>

locale thread_system =
  fixes code :: "'pc \<Rightarrow> ('t, 'm, 'pc) action"
    and env :: "('t \<times> ucall \<times> reply) list \<Rightarrow> 't \<times> ucall \<times> reply \<Rightarrow> bool"
    and s0 :: "('t, 'm, 'pc) sys"
    and inv :: "('t, 'm, 'pc) sys \<Rightarrow> bool"
  assumes init: "inv s0"
    and kept: "inv s \<Longrightarrow> sys_step code env s s' \<Longrightarrow> inv s'"
begin

lemma always: "reachable code env s0 s \<Longrightarrow> inv s"
  by (induction rule: reachable.induct) (auto intro: init kept)

end

section \<open>Programs that can always end\<close>

text \<open>One step that makes the count smaller, by the kind of action.\<close>

lemma nearer_by:
  assumes "exited s = None" "pool s t = Some pc"
  shows "code pc = Sys c k \<Longrightarrow> good (hist s) (t, c, r) \<Longrightarrow>
      left (goes (s\<lparr>hist := hist s @ [(t, c, r)]\<rparr>) t (k r (mem s))) < (left s :: nat) \<Longrightarrow>
      \<exists>s'. sys_step code good s s' \<and> left s' < left s"
    and "code pc = Mem f \<Longrightarrow> left (goes s t (f (mem s))) < left s \<Longrightarrow>
      \<exists>s'. sys_step code good s s' \<and> left s' < left s"
    and "code pc = Spawn u start k' \<Longrightarrow> pool s u = None \<Longrightarrow>
      left (goes (s\<lparr>pool := (pool s)(u \<mapsto> start)\<rparr>) t (k' 0 (mem s))) < left s \<Longrightarrow>
      \<exists>s'. sys_step code good s s' \<and> left s' < left s"
    and "code pc = Join u k' \<Longrightarrow> u \<noteq> t \<Longrightarrow> pool s u = Some pc' \<Longrightarrow> code pc' = Ended \<Longrightarrow>
      left (goes (s\<lparr>pool := (pool s)(u := None)\<rparr>) t (k' 0 (mem s))) < left s \<Longrightarrow>
      \<exists>s'. sys_step code good s s' \<and> left s' < left s"
    and "code pc = Exit rc \<Longrightarrow> left (s\<lparr>exited := Some rc\<rparr>) < left s \<Longrightarrow>
      \<exists>s'. sys_step code good s s' \<and> left s' < left s"
  by (rule exI, rule conjI, rule sys_step.intros(1) [OF assms], assumption+,
      rule exI, rule conjI, rule sys_step.intros(2) [OF assms], assumption+,
      rule exI, rule conjI, rule sys_step.intros(3) [OF assms], assumption+,
      rule exI, rule conjI, rule sys_step.intros(5) [OF assms], assumption+,
      rule exI, rule conjI, rule sys_step.intros(7) [OF assms], assumption+)

text \<open>
  A run is not stuck: as long as the program has not ended, some thread can do a step that the system
  answers as it does when all is well (\<open>good\<close>), and that brings the program nearer to its end
  (\<open>steps_left\<close>).  Then from every state the invariant allows, after whatever failures, the end can be
  reached.
\<close>

locale ending_system =
  fixes code :: "'pc \<Rightarrow> ('t, 'm, 'pc) action"
    and good :: "('t \<times> ucall \<times> reply) list \<Rightarrow> 't \<times> ucall \<times> reply \<Rightarrow> bool"
    and inv :: "('t, 'm, 'pc) sys \<Rightarrow> bool"
    and steps_left :: "('t, 'm, 'pc) sys \<Rightarrow> nat"
  assumes kept: "inv s \<Longrightarrow> sys_step code good s s' \<Longrightarrow> inv s'"
    and progress: "inv s \<Longrightarrow> exited s = None \<Longrightarrow> \<exists>s'. sys_step code good s s' \<and> steps_left s' < steps_left s"
begin

lemma can_end: "inv s \<Longrightarrow> \<exists>s'. (sys_step code good)\<^sup>*\<^sup>* s s' \<and> exited s' \<noteq> None \<and> inv s'"
proof (induction "steps_left s" arbitrary: s rule: less_induct)
  case less
  show ?case
  proof (cases "exited s")
    case None
    from progress [OF less.prems None] obtain s1 where s1: "sys_step code good s s1" "steps_left s1 < steps_left s" by blast
    from less.hyps [OF s1(2) kept [OF less.prems s1(1)]] s1(1) show ?thesis
      by (meson converse_rtranclp_into_rtranclp)
  qed (use less.prems in blast)
qed

end

text \<open>
  When moreover every step, whatever the system answers (\<open>env\<close>), makes the count smaller, there is no
  run without end: the first count bounds the length of every run, and a run that cannot go on although
  all is well has ended.
\<close>

locale terminating_system = ending_system +
  fixes env :: "('t \<times> ucall \<times> reply) list \<Rightarrow> 't \<times> ucall \<times> reply \<Rightarrow> bool"
  assumes env_kept: "inv s \<Longrightarrow> sys_step code env s s' \<Longrightarrow> inv s'"
    and decreases: "inv s \<Longrightarrow> sys_step code env s s' \<Longrightarrow> steps_left s' < steps_left s"
begin

lemma run_bounded: "(sys_step code env ^^ n) s s' \<Longrightarrow> inv s \<Longrightarrow> inv s' \<and> n + steps_left s' \<le> steps_left s"
proof (induction n arbitrary: s')
  case (Suc n)
  then obtain s1 where s1: "(sys_step code env ^^ n) s s1" "sys_step code env s1 s'" by auto
  with Suc.IH Suc.prems(2) have "inv s1" "n + steps_left s1 \<le> steps_left s" by blast+
  with env_kept decreases s1(2) show ?case by fastforce
qed simp

lemma stuck_ended: "inv s \<Longrightarrow> \<nexists>s'. sys_step code good s s' \<Longrightarrow> exited s \<noteq> None"
  using progress by blast

lemma no_infinite_run: "inv (f 0) \<Longrightarrow> \<not> (\<forall>i. sys_step code env (f i) (f (Suc i)))"
proof
  assume inv: "inv (f 0)" and run: "\<forall>i. sys_step code env (f i) (f (Suc i))"
  have "(sys_step code env ^^ n) (f 0) (f n)" for n
    using run by (induction n) auto
  from run_bounded [OF this inv, of "Suc (steps_left (f 0))"] show False by simp
qed

end

text \<open>What the system may answer in \<open>good\<close> it may answer.\<close>

lemma sys_step_mono:
  "sys_step code good s s' \<Longrightarrow> (\<And>h e. good h e \<Longrightarrow> env h e) \<Longrightarrow> sys_step code env s s'"
  by (induction rule: sys_step.induct) (auto intro: sys_step.intros)

end
