(* ===== verification/Eventfd.thy ===== *)
theory Eventfd
  imports Threads
begin

text \<open>
  \<open>src/linux/eventfd/foo.c\<close>: three threads write to one \<open>eventfd\<close> each, a fourth waits for all of
  them with \<open>epoll\<close> and reads the counters.

  The program points of \<open>main\<close>, \<open>thread_read\<close> and \<open>thread_write\<close> are the constructors of \<open>main_pc\<close>,
  \<open>reader_pc\<close> and \<open>writer_pc\<close>, with the local variables that are alive there as arguments; \<open>foo_code\<close> is what the code does at
  each.  The arrays that the threads reach through their arguments are in the shared memory
  \<open>foo_mem\<close>.  All results hold for every interleaving of the threads, and for every answer that the
  documentation of \<open>eventfd\<close> and \<open>epoll\<close> allows (\<open>eventfd_system\<close>).
\<close>

section \<open>The program\<close>

definition MAX_EVENTS_foo :: nat where "MAX_EVENTS_foo = 10"
definition efd_num :: nat where "efd_num = 3"
definition write_num :: nat where "write_num = 10"

record write_param =
  wp_efd :: int
  wp_interval :: int
  wp_write_num :: int

record foo_mem =
  efds :: "int list"
  read_num :: int
  write_params :: "write_param list"

datatype foo_thread = Main | Reader | Writer nat

datatype main_pc =
    M_malloc nat
  | M_eventfd nat
  | M_params
  | M_reader
  | M_set nat
  | M_writer nat
  | M_joinw nat
  | M_joinr
  | M_close nat
  | M_close_fd nat int
  | M_perror string nat
  | M_free nat int

datatype reader_pc =
    R_enter
  | R_too_many int
  | R_create
  | R_add int nat
  | R_ctl int nat int
  | R_wait int bytes
  | R_read int bytes "int list"
  | R_time int bytes "int list" int int
  | R_print int bytes "int list" int int bytes
  | R_timeout int
  | R_close int
  | R_perror string
  | R_end

datatype writer_pc =
    W_enter nat
  | W_hello nat int
  | W_hello_print nat int int
  | W_test nat int nat
  | W_write nat int nat
  | W_time nat int nat int
  | W_print nat int nat int bytes
  | W_pause nat int nat
  | W_sleep nat int nat nat
  | W_perror nat int
  | W_bye nat int
  | W_bye_print nat int int
  | W_end

datatype foo_pc = M main_pc | R reader_pc | W writer_pc

text \<open>\<open>struct timeval\<close>, and the lines the threads print.\<close>

definition tv_sec :: "bytes \<Rightarrow> int" where "tv_sec tv = c_long (int (le_nat (take 8 tv)))"
definition tv_usec :: "bytes \<Rightarrow> int" where "tv_usec tv = c_long (int (le_nat (take 8 (drop 8 tv))))"

definition read_line :: "int \<Rightarrow> int \<Rightarrow> nat \<Rightarrow> bytes \<Rightarrow> string" where
  "read_line fd ret cnt tv = ''fd '' @ fmt_d fd @ '' read '' @ fmt_d ret @ '' bytes('' @ fmt_u cnt @ '') at '' @
     fmt_d (tv_sec tv) @ ''s '' @ fmt_d (tv_usec tv) @ ''us'' @ nl"

definition write_line :: "int \<Rightarrow> int \<Rightarrow> nat \<Rightarrow> bytes \<Rightarrow> nat \<Rightarrow> string" where
  "write_line fd ret cnt tv i = ''fd '' @ fmt_d fd @ '' write '' @ fmt_d ret @ '' bytes('' @ fmt_u cnt @ '') at '' @
     fmt_d (tv_sec tv) @ ''s '' @ fmt_d (tv_usec tv) @ ''us i:'' @ fmt_d (int i) @ nl"

definition thread_line :: "string \<Rightarrow> int \<Rightarrow> int \<Rightarrow> string" where
  "thread_line what self fd = ''thread '' @ fmt_u (c_ulong self) @ what @ fmt_d fd @ nl"

text \<open>
  The allocations of \<open>main\<close>, for \<open>n\<close> from 0; when the \<open>n\<close>th fails, \<open>n\<close> blocks are given back.
\<close>

definition malloc_size :: "nat \<Rightarrow> nat" where
  "malloc_size n = (if n = 0 then 4 * efd_num else if n = 1 then 8 * efd_num else 12 * efd_num)"

definition malloc_msg :: "nat \<Rightarrow> string" where
  "malloc_msg n = (if n = 0 then ''malloc efds'' else if n = 1 then ''malloc pid_writes'' else ''malloc write_params'')"

text \<open>\<open>count\<close> of a writer is its descriptor, as an unsigned number.\<close>

definition write_count :: "int \<Rightarrow> nat" where "write_count fd = c_ulong fd"

primrec main_code :: "main_pc \<Rightarrow> (foo_thread, foo_mem, foo_pc) action" where
  "main_code (M_malloc n) = Sys (Malloc (malloc_size n)) (\<lambda>r m. (m, M (
     if rv r = 0 then M_perror (malloc_msg n) n else if n < 2 then M_malloc (Suc n) else M_eventfd 0)))"
| "main_code (M_eventfd i) = Sys (Eventfd 0) (\<lambda>r m. (m\<lparr>efds := (efds m)[i := rv r]\<rparr>, M (
     if rv r = - 1 then M_perror ''eventfd'' 3 else if Suc i < efd_num then M_eventfd (Suc i) else M_params)))"
| "main_code M_params = Mem (\<lambda>m. (m\<lparr>read_num := int efd_num\<rparr>, M M_reader))"
| "main_code M_reader = Spawn Reader (R R_enter) (\<lambda>ret m. (m, M (
     if ret \<noteq> 0 then M_perror ''pthread_create'' 3 else M_set 0)))"
| "main_code (M_set i) = Mem (\<lambda>m. (m\<lparr>write_params := (write_params m)
     [i := \<lparr>wp_efd = efds m ! i, wp_interval = 2 * int i + 1, wp_write_num = int write_num\<rparr>]\<rparr>, M (M_writer i)))"
| "main_code (M_writer i) = Spawn (Writer i) (W (W_enter i)) (\<lambda>ret m. (m, M (
     if Suc i < efd_num then M_set (Suc i) else M_joinw 0)))"
| "main_code (M_joinw i) = Join (Writer i) (\<lambda>ret m. (m, M (if Suc i < efd_num then M_joinw (Suc i) else M_joinr)))"
| "main_code M_joinr = Join Reader (\<lambda>ret m. (m, M (M_close 0)))"
| "main_code (M_close i) = Mem (\<lambda>m. (m, M (if i < efd_num then M_close_fd i (efds m ! i) else M_free 3 0)))"
| "main_code (M_close_fd i fd) = Sys (Close fd) (\<lambda>r m. (m, M (M_close (Suc i))))"
| "main_code (M_perror msg n) = Sys (Perror msg) (\<lambda>r m. (m, M (M_free n 1)))"
| "main_code (M_free n rc) = (case n of 0 \<Rightarrow> Exit rc | Suc k \<Rightarrow> Sys Free (\<lambda>r m. (m, M (M_free k rc))))"

primrec reader_code :: "reader_pc \<Rightarrow> (foo_thread, foo_mem, reader_pc) action" where
  "reader_code R_enter = Mem (\<lambda>m. (m, if read_num m > int MAX_EVENTS_foo then R_too_many (read_num m) else R_create))"
| "reader_code (R_too_many k) = Sys (Err (''efd nums '' @ fmt_d k @ '' more than MAX_EVENTS '' @ fmt_d (int MAX_EVENTS_foo) @ nl))
     (\<lambda>r m. (m, R_end))"
| "reader_code R_create = Sys EpollCreate (\<lambda>r m. (m, if rv r = - 1 then R_perror ''epoll_create1'' else R_add (rv r) 0))"
| "reader_code (R_add ep i) = Mem (\<lambda>m. (m, if int i < read_num m then R_ctl ep i (efds m ! i) else R_wait ep (le_bytes 8 0)))"
| "reader_code (R_ctl ep i fd) = Sys (EpollAdd ep fd) (\<lambda>r m. (m, if rv r = - 1 then R_perror ''epoll_ctl'' else R_add ep (Suc i)))"
| "reader_code (R_wait ep buf) = Sys (EpollWaitMs ep MAX_EVENTS_foo 6000) (\<lambda>r m. (m,
     if 0 < rv r then R_read ep buf (take (nat (rv r)) (rfds r))
     else if rv r = 0 then R_timeout ep else R_perror ''epoll wait error''))"
| "reader_code (R_read ep buf fds) =
     (case fds of
        [] \<Rightarrow> Mem (\<lambda>m. (m, R_wait ep buf))
      | fd # rest \<Rightarrow> Sys (Read fd 8) (\<lambda>r m. (m,
          if rv r = - 1 then R_perror ''read event_fd'' else R_time ep (patch buf 0 (rdata r)) rest fd (rv r))))"
| "reader_code (R_time ep buf fds fd ret) = Sys Gettimeofday (\<lambda>r m. (m, R_print ep buf fds fd ret (rdata r)))"
| "reader_code (R_print ep buf fds fd ret tv) = Sys (Out (read_line fd ret (le_nat buf) tv)) (\<lambda>r m. (m, R_read ep buf fds))"
| "reader_code (R_timeout ep) = Sys (Out (''epoll wait timeout'' @ nl)) (\<lambda>r m. (m, R_close ep))"
| "reader_code (R_close ep) = Sys (Close ep) (\<lambda>r m. (m, R_end))"
| "reader_code (R_perror msg) = Sys (Perror msg) (\<lambda>r m. (m, R_end))"
| "reader_code R_end = Ended"

primrec writer_code :: "writer_pc \<Rightarrow> (foo_thread, foo_mem, writer_pc) action" where
  "writer_code (W_enter k) = Mem (\<lambda>m. (m, W_hello k (wp_efd (write_params m ! k))))"
| "writer_code (W_hello k fd) = Sys ThreadSelf (\<lambda>r m. (m, W_hello_print k fd (rv r)))"
| "writer_code (W_hello_print k fd self) = Sys (Out (thread_line '' enter efd:'' self fd)) (\<lambda>r m. (m, W_test k fd 0))"
| "writer_code (W_test k fd i) = Mem (\<lambda>m. (m,
     if int i < wp_write_num (write_params m ! k) then W_write k fd i else W_bye k fd))"
| "writer_code (W_write k fd i) = Sys (Write fd (le_bytes 8 (write_count fd))) (\<lambda>r m. (m,
     if rv r < 0 then W_perror k fd else W_time k fd i (rv r)))"
| "writer_code (W_time k fd i ret) = Sys Gettimeofday (\<lambda>r m. (m, W_print k fd i ret (rdata r)))"
| "writer_code (W_print k fd i ret tv) = Sys (Out (write_line fd ret (write_count fd) tv i)) (\<lambda>r m. (m, W_pause k fd i))"
| "writer_code (W_pause k fd i) = Mem (\<lambda>m. (m, W_sleep k fd i (c_uint (wp_interval (write_params m ! k)))))"
| "writer_code (W_sleep k fd i n) = Sys (Sleep n) (\<lambda>r m. (m, W_test k fd (Suc i)))"
| "writer_code (W_perror k fd) = Sys (Perror ''write eventfd'') (\<lambda>r m. (m, W_bye k fd))"
| "writer_code (W_bye k fd) = Sys ThreadSelf (\<lambda>r m. (m, W_bye_print k fd (rv r)))"
| "writer_code (W_bye_print k fd self) = Sys (Out (thread_line '' end efd:'' self fd)) (\<lambda>r m. (m, W_end))"
| "writer_code W_end = Ended"

primrec foo_code :: "foo_pc \<Rightarrow> (foo_thread, foo_mem, foo_pc) action" where
  "foo_code (M pc) = main_code pc"
| "foo_code (R pc) = map_action id R (reader_code pc)"
| "foo_code (W pc) = map_action id W (writer_code pc)"

type_synonym foo_sys = "(foo_thread, foo_mem, foo_pc) sys"
type_synonym foo_hist = "(foo_thread \<times> ucall \<times> reply) list"

text \<open>At the start the arrays hold whatever \<open>malloc\<close> delivers.\<close>

definition foo_start :: "foo_mem \<Rightarrow> foo_sys" where
  "foo_start m = boot Main (M (M_malloc 0)) m"

section \<open>The system\<close>

definition calls :: "('t \<times> ucall \<times> reply) list \<Rightarrow> utrace" where
  "calls h = map snd h"

lemma calls_append [simp]: "calls [] = []" "calls (h @ es) = calls h @ calls es" "calls ((t, e) # h) = e # calls h"
  by (simp_all add: calls_def)

text \<open>
  The counter of an \<open>eventfd\<close>, what was written to it and what was read from it.  A call moves a
  value when it answers 8.
\<close>

fun counter_step :: "int \<Rightarrow> nat \<Rightarrow> ucall \<times> reply \<Rightarrow> nat" where
  "counter_step fd n (Eventfd v, r) = (if rv r = fd then v else n)"
| "counter_step fd n (Write fd' bs, r) = (if fd' = fd \<and> rv r = 8 then n + le_nat bs else n)"
| "counter_step fd n (Read fd' len, r) = (if fd' = fd \<and> rv r = 8 then 0 else n)"
| "counter_step fd n (c, r) = n"

definition counter :: "int \<Rightarrow> utrace \<Rightarrow> nat" where "counter fd h = foldl (counter_step fd) 0 h"

fun written_by :: "int \<Rightarrow> ucall \<times> reply \<Rightarrow> nat" where
  "written_by fd (Write fd' bs, r) = (if fd' = fd \<and> rv r = 8 then le_nat bs else 0)"
| "written_by fd (c, r) = 0"

fun read_by :: "int \<Rightarrow> ucall \<times> reply \<Rightarrow> nat" where
  "read_by fd (Read fd' len, r) = (if fd' = fd \<and> rv r = 8 then le_nat (rdata r) else 0)"
| "read_by fd (c, r) = 0"

definition written :: "int \<Rightarrow> utrace \<Rightarrow> nat" where "written fd h = sum_list (map (written_by fd) h)"
definition taken :: "int \<Rightarrow> utrace \<Rightarrow> nat" where "taken fd h = sum_list (map (read_by fd) h)"

lemma counts_append [simp]:
  "counter fd [] = 0" "counter fd (h @ es) = foldl (counter_step fd) (counter fd h) es"
  "written fd [] = 0" "written fd (h @ es) = written fd h + written fd es" "written fd (e # h) = written_by fd e + written fd h"
  "taken fd [] = 0" "taken fd (h @ es) = taken fd h + taken fd es" "taken fd (e # h) = read_by fd e + taken fd h"
  by (simp_all add: counter_def written_def taken_def)

text \<open>
  The documented behaviour: a new descriptor is an \<open>int\<close> that is not open; \<open>read\<close> delivers the counter,
  which is not zero, and resets it; \<open>write\<close> adds and stays below \<open>2 ^ 64 - 1\<close>; \<open>epoll_wait\<close> reports
  watched descriptors with a nonzero counter, and that none has one when the time is over.
\<close>

fun eventfd_answer :: "utrace \<Rightarrow> ucall \<Rightarrow> reply \<Rightarrow> bool" where
  "eventfd_answer h (Eventfd n) r = (rv r = - 1 \<or> 0 \<le> rv r \<and> rv r < 2 ^ 31 \<and> rv r \<notin># live h)"
| "eventfd_answer h EpollCreate r = (rv r = - 1 \<or> 0 \<le> rv r \<and> rv r < 2 ^ 31 \<and> rv r \<notin># live h)"
| "eventfd_answer h (EpollAdd ep fd) r = (rv r = 0 \<or> rv r = - 1)"
| "eventfd_answer h (EpollWaitMs ep n ms) r =
     (rv r = - 1 \<or> rv r = 0 \<and> (\<forall>fd\<in>watched ep h. counter fd h = 0)
      \<or> 0 < rv r \<and> rv r \<le> int n \<and> length (rfds r) = nat (rv r) \<and> distinct (rfds r)
         \<and> (\<forall>fd\<in>set (rfds r). fd \<in> watched ep h \<and> 0 < counter fd h))"
| "eventfd_answer h (Read fd n) r =
     (rv r = - 1 \<or> rv r = 8 \<and> 0 < counter fd h \<and> rdata r = le_bytes 8 (counter fd h))"
| "eventfd_answer h (Write fd bs) r = (rv r = - 1 \<or> rv r = 8 \<and> counter fd h + le_nat bs < 2 ^ 64 - 1)"
| "eventfd_answer h c r = True"

definition eventfd_system :: "foo_hist \<Rightarrow> foo_thread \<times> ucall \<times> reply \<Rightarrow> bool" where
  "eventfd_system h e = eventfd_answer (calls h) (fst (snd e)) (snd (snd e))"

lemma eventfd_system_simp [simp]: "eventfd_system h (t, c, r) = eventfd_answer (calls h) c r"
  by (simp add: eventfd_system_def)

section \<open>The invariant\<close>

text \<open>The completed writes of a writer, and whether the reader has got as far as giving its instance back.\<close>

fun is_write :: "ucall \<times> reply \<Rightarrow> bool" where
  "is_write (Write fd bs, r) = (rv r = 8)"
| "is_write (c, r) = False"

definition writes :: "nat \<Rightarrow> foo_hist \<Rightarrow> nat" where
  "writes k h = length (filter (\<lambda>e. fst e = Writer k \<and> is_write (snd e)) h)"

definition reader_closed :: "foo_hist \<Rightarrow> bool" where
  "reader_closed h \<longleftrightarrow> (\<exists>ep r. (Reader, Close ep, r) \<in> set h)"

lemma writes_append [simp]:
  "writes k [] = 0"
  "writes k (h @ [(t, e)]) = (if t = Writer k \<and> is_write e then Suc (writes k h) else writes k h)"
  by (simp_all add: writes_def)

lemma reader_closed_append [simp]:
  "reader_closed [] = False"
  "reader_closed (h @ [(t, c, r)]) \<longleftrightarrow> reader_closed h \<or> t = Reader \<and> (\<exists>ep. c = Close ep)"
  by (auto simp: reader_closed_def)

text \<open>Which threads may exist besides \<open>main\<close>, which have not been created yet.\<close>

primrec may_run :: "main_pc \<Rightarrow> foo_thread set" where
  "may_run (M_malloc n) = {}"
| "may_run (M_eventfd i) = {}"
| "may_run M_params = {}"
| "may_run M_reader = {}"
| "may_run (M_set i) = insert Reader (Writer ` {..<i})"
| "may_run (M_writer i) = insert Reader (Writer ` {..<i})"
| "may_run (M_joinw i) = insert Reader (Writer ` {i..<efd_num})"
| "may_run M_joinr = {Reader}"
| "may_run (M_close i) = {}"
| "may_run (M_close_fd i fd) = {}"
| "may_run (M_perror msg n) = {}"
| "may_run (M_free n rc) = {}"

primrec to_come :: "main_pc \<Rightarrow> nat set" where
  "to_come (M_malloc n) = UNIV"
| "to_come (M_eventfd i) = UNIV"
| "to_come M_params = UNIV"
| "to_come M_reader = UNIV"
| "to_come (M_set i) = {i..}"
| "to_come (M_writer i) = {i..}"
| "to_come (M_joinw i) = {}"
| "to_come M_joinr = {}"
| "to_come (M_close i) = {}"
| "to_come (M_close_fd i fd) = {}"
| "to_come (M_perror msg n) = UNIV"
| "to_come (M_free n rc) = (if rc = 1 then UNIV else {})"

text \<open>Before the threads are created nothing is written.\<close>

primrec early :: "main_pc \<Rightarrow> bool" where
  "early (M_malloc n) = True"
| "early (M_eventfd i) = True"
| "early M_params = True"
| "early M_reader = True"
| "early (M_set i) = False"
| "early (M_writer i) = False"
| "early (M_joinw i) = False"
| "early M_joinr = False"
| "early (M_close i) = False"
| "early (M_close_fd i fd) = False"
| "early (M_perror msg n) = True"
| "early (M_free n rc) = (rc = 1)"

text \<open>The eventfds that are open, and what is known of the arrays.\<close>

definition fresh_efds :: "int list \<Rightarrow> bool" where
  "fresh_efds E \<longleftrightarrow> distinct E \<and> (\<forall>fd\<in>set E. 0 \<le> fd \<and> fd < 2 ^ 31)"

definition params_set :: "foo_mem \<Rightarrow> nat \<Rightarrow> bool" where
  "params_set m n \<longleftrightarrow> (\<forall>k<n. wp_efd (write_params m ! k) = efds m ! k \<and> wp_write_num (write_params m ! k) = int write_num)"

primrec main_ok :: "foo_mem \<Rightarrow> main_pc \<Rightarrow> int multiset \<Rightarrow> bool" where
  "main_ok m (M_malloc n) H = (H = {#})"
| "main_ok m (M_eventfd i) H = (i < efd_num \<and> H = mset (take i (efds m)) \<and> fresh_efds (take i (efds m)))"
| "main_ok m M_params H = (H = mset (efds m) \<and> fresh_efds (efds m))"
| "main_ok m M_reader H = (H = mset (efds m) \<and> fresh_efds (efds m) \<and> read_num m = int efd_num)"
| "main_ok m (M_set i) H = (H = mset (efds m) \<and> fresh_efds (efds m) \<and> read_num m = int efd_num \<and> i < efd_num \<and> params_set m i)"
| "main_ok m (M_writer i) H =
     (H = mset (efds m) \<and> fresh_efds (efds m) \<and> read_num m = int efd_num \<and> i < efd_num \<and> params_set m (Suc i))"
| "main_ok m (M_joinw i) H =
     (H = mset (efds m) \<and> fresh_efds (efds m) \<and> read_num m = int efd_num \<and> i < efd_num \<and> params_set m efd_num)"
| "main_ok m M_joinr H = (H = mset (efds m) \<and> fresh_efds (efds m) \<and> read_num m = int efd_num \<and> params_set m efd_num)"
| "main_ok m (M_close i) H = (i \<le> efd_num \<and> H = mset (drop i (efds m)))"
| "main_ok m (M_close_fd i fd) H = (i < efd_num \<and> fd = efds m ! i \<and> H = mset (drop i (efds m)))"
| "main_ok m (M_perror msg n) H = (\<exists>j\<le>efd_num. H = mset (take j (efds m)))"
| "main_ok m (M_free n rc) H = (rc = 1 \<and> (\<exists>j\<le>efd_num. H = mset (take j (efds m))) \<or> rc = 0 \<and> H = {#})"

text \<open>The reader watches the eventfds only; \<open>V\<close> is what its instance watches, \<open>C\<close> are the counters.\<close>

definition polls :: "int list \<Rightarrow> (int \<Rightarrow> int set) \<Rightarrow> (int \<Rightarrow> nat) \<Rightarrow> int \<Rightarrow> bytes \<Rightarrow> int list \<Rightarrow> bool" where
  "polls E V C ep buf fds \<longleftrightarrow> ep \<notin> set E \<and> V ep = set E \<and> length buf = 8 \<and> distinct fds
     \<and> (\<forall>fd\<in>set fds. fd \<in> set E \<and> 0 < C fd)"

primrec reader_ok :: "int list \<Rightarrow> (int \<Rightarrow> int set) \<Rightarrow> (int \<Rightarrow> nat) \<Rightarrow> reader_pc \<Rightarrow> bool" where
  "reader_ok E V C R_enter = (\<forall>ep. V ep = {})"
| "reader_ok E V C (R_too_many n) = (\<forall>ep. V ep = {})"
| "reader_ok E V C R_create = (\<forall>ep. V ep = {})"
| "reader_ok E V C (R_add ep i) = (i \<le> efd_num \<and> ep \<notin> set E \<and> V ep = set (take i E))"
| "reader_ok E V C (R_ctl ep i fd) = (i < efd_num \<and> fd = E ! i \<and> ep \<notin> set E \<and> V ep = set (take i E))"
| "reader_ok E V C (R_wait ep buf) = polls E V C ep buf []"
| "reader_ok E V C (R_read ep buf fds) = polls E V C ep buf fds"
| "reader_ok E V C (R_time ep buf fds fd ret) = polls E V C ep buf fds"
| "reader_ok E V C (R_print ep buf fds fd ret tv) = polls E V C ep buf fds"
| "reader_ok E V C (R_timeout ep) = (ep \<notin> set E)"
| "reader_ok E V C (R_close ep) = (ep \<notin> set E)"
| "reader_ok E V C (R_perror msg) = True"
| "reader_ok E V C R_end = True"

text \<open>What the reader has open, besides the eventfds.\<close>

primrec reader_left :: "bool \<Rightarrow> int multiset \<Rightarrow> reader_pc \<Rightarrow> bool" where
  "reader_left cl L R_enter = (L = {#} \<and> \<not> cl)"
| "reader_left cl L (R_too_many n) = (L = {#} \<and> \<not> cl)"
| "reader_left cl L R_create = (L = {#} \<and> \<not> cl)"
| "reader_left cl L (R_add ep i) = (L = {#ep#} \<and> \<not> cl)"
| "reader_left cl L (R_ctl ep i fd) = (L = {#ep#} \<and> \<not> cl)"
| "reader_left cl L (R_wait ep buf) = (L = {#ep#} \<and> \<not> cl)"
| "reader_left cl L (R_read ep buf fds) = (L = {#ep#} \<and> \<not> cl)"
| "reader_left cl L (R_time ep buf fds fd ret) = (L = {#ep#} \<and> \<not> cl)"
| "reader_left cl L (R_print ep buf fds fd ret tv) = (L = {#ep#} \<and> \<not> cl)"
| "reader_left cl L (R_timeout ep) = (L = {#ep#} \<and> \<not> cl)"
| "reader_left cl L (R_close ep) = (L = {#ep#} \<and> \<not> cl)"
| "reader_left cl L (R_perror msg) = True"
| "reader_left cl L R_end = True"

text \<open>A writer writes to its own eventfd; \<open>n\<close> is the number of its completed writes.\<close>

primrec writer_ok :: "int list \<Rightarrow> nat \<Rightarrow> nat \<Rightarrow> writer_pc \<Rightarrow> bool" where
  "writer_ok E k n (W_enter j) = (j = k \<and> n = 0)"
| "writer_ok E k n (W_hello j fd) = (j = k \<and> fd = E ! k \<and> n = 0)"
| "writer_ok E k n (W_hello_print j fd self) = (j = k \<and> fd = E ! k \<and> n = 0)"
| "writer_ok E k n (W_test j fd i) = (j = k \<and> fd = E ! k \<and> n = i \<and> i \<le> write_num)"
| "writer_ok E k n (W_write j fd i) = (j = k \<and> fd = E ! k \<and> n = i \<and> i < write_num)"
| "writer_ok E k n (W_time j fd i ret) = (j = k \<and> fd = E ! k \<and> n = Suc i \<and> i < write_num)"
| "writer_ok E k n (W_print j fd i ret tv) = (j = k \<and> fd = E ! k \<and> n = Suc i \<and> i < write_num)"
| "writer_ok E k n (W_pause j fd i) = (j = k \<and> fd = E ! k \<and> n = Suc i \<and> i < write_num)"
| "writer_ok E k n (W_sleep j fd i s) = (j = k \<and> fd = E ! k \<and> n = Suc i \<and> i < write_num)"
| "writer_ok E k n (W_perror j fd) = (j = k \<and> fd = E ! k)"
| "writer_ok E k n (W_bye j fd) = (j = k \<and> fd = E ! k)"
| "writer_ok E k n (W_bye_print j fd self) = (j = k \<and> fd = E ! k)"
| "writer_ok E k n W_end = True"

definition others_ok :: "foo_mem \<Rightarrow> (foo_thread \<Rightarrow> foo_pc option) \<Rightarrow> foo_hist \<Rightarrow> main_pc \<Rightarrow> int multiset \<Rightarrow> bool" where
  "others_ok m P h mpc L \<longleftrightarrow>
     (\<forall>t pc. P t = Some pc \<longrightarrow> t \<noteq> Main \<longrightarrow> t \<in> may_run mpc)
   \<and> (\<forall>pc. P Reader = Some pc \<longrightarrow> (\<exists>rpc. pc = R rpc \<and> reader_left (reader_closed h) L rpc \<and>
        reader_ok (efds m) (\<lambda>ep. watched ep (calls h)) (\<lambda>fd. counter fd (calls h)) rpc))
   \<and> (\<forall>k pc. P (Writer k) = Some pc \<longrightarrow> (\<exists>wpc. pc = W wpc \<and> writer_ok (efds m) k (writes k h) wpc))"

text \<open>What was read and what is still in the counter is what was written, each time the same number.\<close>

definition amounts_ok :: "foo_mem \<Rightarrow> foo_hist \<Rightarrow> main_pc \<Rightarrow> bool" where
  "amounts_ok m h mpc \<longleftrightarrow>
     (\<forall>fd. taken fd (calls h) + counter fd (calls h) = written fd (calls h))
   \<and> (\<forall>fd. counter fd (calls h) < 2 ^ 64)
   \<and> (early mpc \<longrightarrow> (\<forall>fd. written fd (calls h) = 0) \<and> (\<forall>ep. watched ep (calls h) = {}))
   \<and> (\<forall>k<efd_num. written (efds m ! k) (calls h) = writes k h * write_count (efds m ! k))
   \<and> (\<forall>k. writes k h \<le> write_num) \<and> (\<forall>k\<in>to_come mpc. writes k h = 0)"

definition foo_inv :: "foo_sys \<Rightarrow> bool" where
  "foo_inv s \<longleftrightarrow> (\<exists>mpc H L. pool s Main = Some (M mpc) \<and> length (efds (mem s)) = efd_num
     \<and> length (write_params (mem s)) = efd_num
     \<and> main_ok (mem s) mpc H \<and> live (calls (hist s)) = H + L \<and> size L \<le> 1 \<and> (reader_closed (hist s) \<longrightarrow> L = {#})
     \<and> (early mpc \<longrightarrow> L = {#} \<and> \<not> reader_closed (hist s))
     \<and> others_ok (mem s) (pool s) (hist s) mpc L \<and> amounts_ok (mem s) (hist s) mpc
     \<and> (\<forall>rc. exited s = Some rc \<longrightarrow> mpc = M_free 0 rc))"

section \<open>Every step keeps it\<close>

lemma le_nat_write_count [simp]: "le_nat (le_bytes 8 (write_count fd)) = write_count fd"
proof -
  have "write_count fd < 2 ^ 64" using c_ulong_less [of fd] by (simp add: write_count_def)
  then show ?thesis by (simp add: le_nat_le_bytes)
qed

lemma reader_ok_mono:
  "reader_ok E V C pc \<Longrightarrow> (\<And>ep. V' ep = V ep) \<Longrightarrow> (\<And>fd. C fd \<le> C' fd) \<Longrightarrow> reader_ok E V' C' pc"
proof -
  assume C: "\<And>fd. C fd \<le> C' fd"
  have pos: "0 < C fd \<Longrightarrow> 0 < C' fd" for fd using C [of fd] by simp
  assume "reader_ok E V C pc" "\<And>ep. V' ep = V ep"
  then show ?thesis by (cases pc) (auto simp: polls_def intro: pos)
qed


lemma foo_invI:
  assumes "pool s Main = Some (M mpc)" "length (efds (mem s)) = efd_num" "length (write_params (mem s)) = efd_num"
    and "main_ok (mem s) mpc H" "live (calls (hist s)) = H + L" "size L \<le> 1" "reader_closed (hist s) \<Longrightarrow> L = {#}"
    and "early mpc \<Longrightarrow> L = {#} \<and> \<not> reader_closed (hist s)"
    and "others_ok (mem s) (pool s) (hist s) mpc L" "amounts_ok (mem s) (hist s) mpc"
    and "exited s = None \<or> exited s = Some rc \<and> mpc = M_free 0 rc"
  shows "foo_inv s"
  unfolding foo_inv_def using assms by (intro exI [of _ mpc] exI [of _ H] exI [of _ L]) auto

lemma foo_inv_start: "length (efds m) = efd_num \<Longrightarrow> length (write_params m) = efd_num \<Longrightarrow> foo_inv (foo_start m)"
  by (rule foo_invI [of _ "M_malloc 0" "{#}" "{#}"])
     (simp_all add: foo_start_def boot_def others_ok_def amounts_ok_def)

text \<open>A writer's call and the point it leads to.\<close>

lemma writer_moves:
  "writer_code pc = Sys c f \<Longrightarrow> writer_ok E k n pc \<Longrightarrow> eventfd_answer h c r \<Longrightarrow>
   \<exists>pc'. f r m = (m, pc') \<and> writer_ok E k (if is_write (c, r) then Suc n else n) pc'
     \<and> (is_write (c, r) \<longrightarrow> n < write_num \<and> counter (E ! k) h + write_count (E ! k) < 2 ^ 64)
     \<and> (\<forall>fd. written_by fd (c, r) = (if is_write (c, r) \<and> fd = E ! k then write_count (E ! k) else 0))
     \<and> (\<forall>fd x. counter_step fd x (c, r) = x + written_by fd (c, r)) \<and> (\<forall>fd. read_by fd (c, r) = 0)
     \<and> (\<forall>ep V. watch_step ep V (c, r) = V) \<and> neutral c"
  by (cases pc) (auto split: if_splits)

lemma writer_mem_moves:
  "writer_code pc = Mem f \<Longrightarrow> writer_ok (efds m) k n pc \<Longrightarrow> params_set m (Suc k) \<Longrightarrow>
   \<exists>pc'. f m = (m, pc') \<and> writer_ok (efds m) k n pc'"
  by (cases pc) (auto simp: params_set_def)

lemma others_ok_update:
  assumes "others_ok m P h mpc L" "P t \<noteq> None" "t \<noteq> Main"
    and "t = Reader \<Longrightarrow> \<exists>rpc. pc' = R rpc \<and> reader_left (reader_closed h') L' rpc \<and>
          reader_ok (efds m) (\<lambda>ep. watched ep (calls h')) (\<lambda>fd. counter fd (calls h')) rpc"
    and "\<And>rpc. t \<noteq> Reader \<Longrightarrow> reader_ok (efds m) (\<lambda>ep. watched ep (calls h)) (\<lambda>fd. counter fd (calls h)) rpc \<Longrightarrow>
          reader_left (reader_closed h) L rpc \<Longrightarrow> reader_left (reader_closed h') L' rpc \<and>
          reader_ok (efds m) (\<lambda>ep. watched ep (calls h')) (\<lambda>fd. counter fd (calls h')) rpc"
    and "\<And>k. t = Writer k \<Longrightarrow> \<exists>wpc. pc' = W wpc \<and> writer_ok (efds m) k (writes k h') wpc"
    and "\<And>k. t \<noteq> Writer k \<Longrightarrow> writes k h' = writes k h"
  shows "others_ok m (P(t \<mapsto> pc')) h' mpc L'"
  using assms unfolding others_ok_def by (cases t) (auto; metis)+

lemma writer_context:
  assumes "others_ok m P h mpc L" "P (Writer k) = Some pc" "main_ok m mpc H"
  shows "k < efd_num" "fresh_efds (efds m)" "\<not> early mpc" "k \<notin> to_come mpc" "params_set m (Suc k)" "H = mset (efds m)"
proof -
  have k: "Writer k \<in> may_run mpc" using assms(1,2) by (auto simp: others_ok_def)
  show "k < efd_num" "fresh_efds (efds m)" "\<not> early mpc" "k \<notin> to_come mpc" "params_set m (Suc k)" "H = mset (efds m)"
    using k assms(3) by (cases mpc; auto simp: params_set_def)+
qed

lemma writer_step:
  assumes inv: "foo_inv s" and none: "exited s = None" and p: "pool s (Writer k) = Some (W pc)"
    and c: "writer_code pc = Sys c f" and ans: "eventfd_answer (calls (hist s)) c r"
  shows "foo_inv (goes (s\<lparr>hist := hist s @ [(Writer k, c, r)]\<rparr>) (Writer k) (map_prod id W (f r (mem s))))"
proof -
  let ?E = "efds (mem s)" and ?tr = "calls (hist s)"
  let ?h' = "hist s @ [(Writer k, c, r)]"
  from inv none obtain mpc H L where
    *: "pool s Main = Some (M mpc)" "length ?E = efd_num" "length (write_params (mem s)) = efd_num"
       "main_ok (mem s) mpc H" "live ?tr = H + L" "size L \<le> 1" "reader_closed (hist s) \<Longrightarrow> L = {#}"
       "early mpc \<Longrightarrow> L = {#} \<and> \<not> reader_closed (hist s)"
    and oth: "others_ok (mem s) (pool s) (hist s) mpc L" and am: "amounts_ok (mem s) (hist s) mpc"
    unfolding foo_inv_def by blast
  note ctx = writer_context [OF oth p *(4)]
  from oth p have w: "writer_ok ?E k (writes k (hist s)) pc" by (auto simp: others_ok_def)
  obtain pc' where
    pc': "f r (mem s) = (mem s, pc')" "writer_ok ?E k (if is_write (c, r) then Suc (writes k (hist s)) else writes k (hist s)) pc'"
    and wr: "is_write (c, r) \<longrightarrow> writes k (hist s) < write_num \<and> counter (?E ! k) ?tr + write_count (?E ! k) < 2 ^ 64"
    and eff: "\<forall>fd. written_by fd (c, r) = (if is_write (c, r) \<and> fd = ?E ! k then write_count (?E ! k) else 0)"
       "\<forall>fd x. counter_step fd x (c, r) = x + written_by fd (c, r)" "\<forall>fd. read_by fd (c, r) = 0"
       "\<forall>ep V. watch_step ep V (c, r) = V" "neutral c"
    using writer_moves [OF c w ans] by blast
  have other: "j < efd_num \<Longrightarrow> j \<noteq> k \<Longrightarrow> ?E ! j \<noteq> ?E ! k" for j
    using ctx(1,2) *(2) by (auto simp: fresh_efds_def nth_eq_iff_index_eq)
  have noclose: "\<nexists>ep. c = Close ep" using eff(5) by auto
  have live: "live (calls ?h') = live ?tr"
    using eff(5) neutral_opens [of c "rv r"] by simp
  have oth': "others_ok (mem s) ((pool s)(Writer k \<mapsto> W pc')) ?h' mpc L"
    by (rule others_ok_update [OF oth])
       (use p pc' eff noclose in \<open>auto elim!: reader_ok_mono\<close>)
  have am': "amounts_ok (mem s) ?h' mpc"
    unfolding amounts_ok_def
  proof (intro conjI allI impI ballI)
    fix fd
    show "taken fd (calls ?h') + counter fd (calls ?h') = written fd (calls ?h')"
      using am eff by (simp add: amounts_ok_def)
    show "counter fd (calls ?h') < 2 ^ 64" using am eff wr by (simp add: amounts_ok_def)
    assume "early mpc" with ctx(3) show "written fd (calls ?h') = 0" "watched fd (calls ?h') = {}" by simp_all
  next
    fix j assume j: "j < efd_num"
    with am have "written (?E ! j) ?tr = writes j (hist s) * write_count (?E ! j)" by (simp add: amounts_ok_def)
    then show "written (?E ! j) (calls ?h') = writes j ?h' * write_count (?E ! j)"
      using eff(1) other [OF j] by (cases "j = k") auto
  next
    fix j show "writes j ?h' \<le> write_num" using am wr by (auto simp: amounts_ok_def)
  next
    fix j assume "j \<in> to_come mpc" then show "writes j ?h' = 0" using am ctx(4) by (auto simp: amounts_ok_def)
  qed
  show ?thesis
    by (rule foo_invI [of _ mpc H L]) (use * oth' am' live none pc' noclose in auto)
qed

text \<open>A step of the reader: \<open>L\<close> is what it has open.\<close>

lemma reader_moves:
  assumes "reader_code pc = Sys c f" "reader_ok E (\<lambda>ep. watched ep h) (\<lambda>fd. counter fd h) pc" "reader_left cl L pc"
    and "eventfd_answer h c r" "length E = efd_num" "live h = mset E + L" "size L \<le> 1" "cl \<longrightarrow> L = {#}"
    and "\<forall>fd. counter fd h < 2 ^ 64"
  shows "\<exists>pc' L'. f r m = (m, pc') \<and> reader_ok E (\<lambda>ep. watched ep (h @ [(c, r)])) (\<lambda>fd. counter fd (h @ [(c, r)])) pc'
     \<and> reader_left (cl \<or> (\<exists>ep. c = Close ep)) L' pc' \<and> live (h @ [(c, r)]) = mset E + L' \<and> size L' \<le> 1
     \<and> (cl \<or> (\<exists>ep. c = Close ep) \<longrightarrow> L' = {#}) \<and> \<not> is_write (c, r) \<and> (\<forall>fd. written_by fd (c, r) = 0)
     \<and> (\<forall>fd. taken fd (h @ [(c, r)]) + counter fd (h @ [(c, r)]) = taken fd h + counter fd h)
     \<and> (\<forall>fd. counter fd (h @ [(c, r)]) \<le> counter fd h)"
proof (cases pc)
  case (R_create)
  show ?thesis
  proof (cases "rv r = - 1")
    case True with R_create assms show ?thesis by (intro exI [of _ "R_perror ''epoll_create1''"] exI [of _ L]) auto
  next
    case False
    with R_create assms have "rv r \<notin> set E" "0 \<le> rv r" by auto
    with False R_create assms show ?thesis by (intro exI [of _ "R_add (rv r) 0"] exI [of _ "{#rv r#}"]) auto
  qed
next
  case (R_ctl ep i fd)
  show ?thesis
  proof (cases "rv r = - 1")
    case True with R_ctl assms show ?thesis by (intro exI [of _ "R_perror ''epoll_ctl''"] exI [of _ L]) auto
  next
    case False
    with R_ctl assms show ?thesis
      by (intro exI [of _ "R_add ep (Suc i)"] exI [of _ L]) (auto simp: take_Suc_conv_app_nth)
  qed
next
  case (R_wait ep buf)
  then show ?thesis using assms
    by (intro exI [of _ "snd (f r m)"] exI [of _ L]) (auto simp: polls_def)
next
  case (R_read ep buf fds)
  then show ?thesis
  proof (cases fds)
    case Nil with R_read assms(1) show ?thesis by simp
  next
    case (Cons fd rest)
    with R_read assms show ?thesis
      by (intro exI [of _ "snd (f r m)"] exI [of _ L]) (auto simp: polls_def le_nat_le_bytes patch_def)
  qed
next
  case (R_close ep)
  with assms show ?thesis by (intro exI [of _ R_end] exI [of _ "{#}"]) auto
qed (use assms in \<open>auto intro!: exI [of _ L] simp: polls_def\<close>)

lemma reader_mem_moves:
  assumes "reader_code pc = Mem f" "reader_ok (efds m) V C pc" "reader_left cl L pc"
    and "length (efds m) = efd_num" "read_num m = int efd_num"
  shows "\<exists>pc'. f m = (m, pc') \<and> reader_ok (efds m) V C pc' \<and> reader_left cl L pc'"
proof -
  have "fst (f m) = m \<and> reader_ok (efds m) V C (snd (f m)) \<and> reader_left cl L (snd (f m))"
  proof (cases pc)
    case R_enter
    with assms(1) have f: "f = (\<lambda>m. (m, if read_num m > int MAX_EVENTS_foo then R_too_many (read_num m) else R_create))"
      by simp
    show ?thesis using assms(2,3) R_enter by (simp add: f)
  next
    case (R_add ep i)
    with assms(1) have f: "f = (\<lambda>m. (m, if int i < read_num m then R_ctl ep i (efds m ! i) else R_wait ep (le_bytes 8 0)))"
      by simp
    have le: "i \<le> efd_num" and V: "V ep = set (take i (efds m))" "ep \<notin> set (efds m)" using assms(2) R_add by simp_all
    show ?thesis
    proof (cases "i < efd_num")
      case True
      then show ?thesis using assms(3,5) R_add V by (simp add: f)
    next
      case False
      then have "take i (efds m) = efds m" using le assms(4) by simp
      then show ?thesis using False assms(3,5) R_add V by (simp add: f polls_def)
    qed
  next
    case (R_read ep buf fds)
    with assms show ?thesis by (cases fds) auto
  qed (use assms(1) in simp_all)
  then show ?thesis by (metis prod.collapse)
qed

lemma reader_context:
  assumes "others_ok m P h mpc L" "P Reader = Some pc" "main_ok m mpc H"
  shows "\<not> early mpc" "read_num m = int efd_num" "H = mset (efds m)"
proof -
  have k: "Reader \<in> may_run mpc" using assms(1,2) by (auto simp: others_ok_def)
  show "\<not> early mpc" "read_num m = int efd_num" "H = mset (efds m)"
    using k assms(3) by (cases mpc; auto)+
qed

lemma reader_step:
  assumes inv: "foo_inv s" and none: "exited s = None" and p: "pool s Reader = Some (R pc)"
    and c: "reader_code pc = Sys c f" and ans: "eventfd_answer (calls (hist s)) c r"
  shows "foo_inv (goes (s\<lparr>hist := hist s @ [(Reader, c, r)]\<rparr>) Reader (map_prod id R (f r (mem s))))"
proof -
  let ?E = "efds (mem s)" and ?tr = "calls (hist s)"
  let ?h' = "hist s @ [(Reader, c, r)]"
  from inv none obtain mpc H L where
    *: "pool s Main = Some (M mpc)" "length ?E = efd_num" "length (write_params (mem s)) = efd_num"
       "main_ok (mem s) mpc H" "live ?tr = H + L" "size L \<le> 1" "reader_closed (hist s) \<Longrightarrow> L = {#}"
       "early mpc \<Longrightarrow> L = {#} \<and> \<not> reader_closed (hist s)"
    and oth: "others_ok (mem s) (pool s) (hist s) mpc L" and am: "amounts_ok (mem s) (hist s) mpc"
    unfolding foo_inv_def by blast
  note ctx = reader_context [OF oth p *(4)]
  from oth p have w: "reader_ok ?E (\<lambda>ep. watched ep ?tr) (\<lambda>fd. counter fd ?tr) pc" "reader_left (reader_closed (hist s)) L pc"
    by (auto simp: others_ok_def)
  have lim: "\<forall>fd. counter fd ?tr < 2 ^ 64" using am by (simp add: amounts_ok_def)
  obtain pc' L' where
    pc': "f r (mem s) = (mem s, pc')"
       "reader_ok ?E (\<lambda>ep. watched ep (?tr @ [(c, r)])) (\<lambda>fd. counter fd (?tr @ [(c, r)])) pc'"
       "reader_left (reader_closed (hist s) \<or> (\<exists>ep. c = Close ep)) L' pc'"
    and L': "live (?tr @ [(c, r)]) = mset ?E + L'" "size L' \<le> 1"
       "reader_closed (hist s) \<or> (\<exists>ep. c = Close ep) \<longrightarrow> L' = {#}"
    and eff: "\<not> is_write (c, r)" "\<forall>fd. written_by fd (c, r) = 0"
       "\<forall>fd. taken fd (?tr @ [(c, r)]) + counter fd (?tr @ [(c, r)]) = taken fd ?tr + counter fd ?tr"
       "\<forall>fd. counter fd (?tr @ [(c, r)]) \<le> counter fd ?tr"
    using reader_moves [OF c w ans *(2) _ *(6) _ lim, of "mem s"] *(5,7) ctx(3) by blast
  have oth': "others_ok (mem s) ((pool s)(Reader \<mapsto> R pc')) ?h' mpc L'"
    by (rule others_ok_update [OF oth]) (use p pc' eff in auto)
  have am': "amounts_ok (mem s) ?h' mpc"
    using am eff ctx(1) le_less_trans [OF eff(4)[rule_format]] by (simp add: amounts_ok_def)
  show ?thesis
    by (rule foo_invI [of _ mpc "mset ?E" L']) (use * L' oth' am' none pc' ctx in auto)
qed

lemma writer_mem_step:
  assumes inv: "foo_inv s" and none: "exited s = None" and p: "pool s (Writer k) = Some (W pc)" and c: "writer_code pc = Mem f"
  shows "foo_inv (goes s (Writer k) (map_prod id W (f (mem s))))"
proof -
  from inv none obtain mpc H L where
    *: "pool s Main = Some (M mpc)" "length (efds (mem s)) = efd_num" "length (write_params (mem s)) = efd_num"
       "main_ok (mem s) mpc H" "live (calls (hist s)) = H + L" "size L \<le> 1" "reader_closed (hist s) \<Longrightarrow> L = {#}"
       "early mpc \<Longrightarrow> L = {#} \<and> \<not> reader_closed (hist s)"
    and oth: "others_ok (mem s) (pool s) (hist s) mpc L" and am: "amounts_ok (mem s) (hist s) mpc"
    unfolding foo_inv_def by blast
  from oth p have "writer_ok (efds (mem s)) k (writes k (hist s)) pc" by (auto simp: others_ok_def)
  from writer_mem_moves [OF c this writer_context(5) [OF oth p *(4)]]
  obtain pc' where pc': "f (mem s) = (mem s, pc')" "writer_ok (efds (mem s)) k (writes k (hist s)) pc'" by blast
  have "others_ok (mem s) ((pool s)(Writer k \<mapsto> W pc')) (hist s) mpc L"
    by (rule others_ok_update [OF oth]) (use p pc' in auto)
  then show ?thesis
    by (intro foo_invI [of _ mpc H L]) (use * am none pc' in auto)
qed

lemma reader_mem_step:
  assumes inv: "foo_inv s" and none: "exited s = None" and p: "pool s Reader = Some (R pc)" and c: "reader_code pc = Mem f"
  shows "foo_inv (goes s Reader (map_prod id R (f (mem s))))"
proof -
  from inv none obtain mpc H L where
    *: "pool s Main = Some (M mpc)" "length (efds (mem s)) = efd_num" "length (write_params (mem s)) = efd_num"
       "main_ok (mem s) mpc H" "live (calls (hist s)) = H + L" "size L \<le> 1" "reader_closed (hist s) \<Longrightarrow> L = {#}"
       "early mpc \<Longrightarrow> L = {#} \<and> \<not> reader_closed (hist s)"
    and oth: "others_ok (mem s) (pool s) (hist s) mpc L" and am: "amounts_ok (mem s) (hist s) mpc"
    unfolding foo_inv_def by blast
  from oth p have r: "reader_ok (efds (mem s)) (\<lambda>ep. watched ep (calls (hist s))) (\<lambda>fd. counter fd (calls (hist s))) pc"
    "reader_left (reader_closed (hist s)) L pc" by (auto simp: others_ok_def)
  from reader_mem_moves [OF c r *(2) reader_context(2) [OF oth p *(4)]]
  obtain pc' where pc': "f (mem s) = (mem s, pc')" "reader_left (reader_closed (hist s)) L pc'"
    "reader_ok (efds (mem s)) (\<lambda>ep. watched ep (calls (hist s))) (\<lambda>fd. counter fd (calls (hist s))) pc'" by blast
  have "others_ok (mem s) ((pool s)(Reader \<mapsto> R pc')) (hist s) mpc L"
    by (rule others_ok_update [OF oth]) (use p pc' in auto)
  then show ?thesis
    by (intro foo_invI [of _ mpc H L]) (use * am none pc' in auto)
qed


text \<open>The steps of \<open>main\<close>.\<close>

lemma alone: "may_run mpc = {} \<Longrightarrow> others_ok m P h mpc L \<Longrightarrow> t \<noteq> Main \<Longrightarrow> P t = None"
  unfolding others_ok_def by (metis empty_iff not_Some_eq)

lemma others_ok_alone: "(\<And>t. t \<noteq> Main \<Longrightarrow> P t = None) \<Longrightarrow> others_ok m P h mpc L"
  unfolding others_ok_def by (metis foo_thread.distinct(1,3) option.distinct(1))

lemma main_sys_alone: "main_code pc = Sys c f \<Longrightarrow> may_run pc = {} \<and> (\<forall>r m. \<exists>pc'. snd (f r m) = M pc' \<and> may_run pc' = {})"
  by (cases pc) (auto split: nat.splits)

lemma fresh_take_Suc:
  assumes "i < length E" "fresh_efds (take i E)" "0 \<le> fd \<and> fd < 2 ^ 31" "fd \<notin> set (take i E)"
  shows "fresh_efds (take (Suc i) (E[i := fd]))" "take (Suc i) (E[i := fd]) = take i E @ [fd]"
proof -
  show t: "take (Suc i) (E[i := fd]) = take i E @ [fd]" using assms(1) by (simp add: take_Suc_conv_app_nth)
  show "fresh_efds (take (Suc i) (E[i := fd]))" unfolding t using assms by (auto simp: fresh_efds_def)
qed

lemma amounts_early:
  assumes "amounts_ok m h pc" "early pc" "pc' \<noteq> M_free 3 0"
    and "\<forall>fd. written_by fd (c, r) = 0" "\<forall>fd. read_by fd (c, r) = 0" "\<forall>fd. counter_step fd 0 (c, r) = 0"
    and "\<forall>ep. watch_step ep {} (c, r) = {}"
  shows "amounts_ok m' (h @ [(Main, c, r)]) pc'"
proof -
  have w: "written fd (calls h) = 0" "taken fd (calls h) = 0" "counter fd (calls h) = 0" "watched fd (calls h) = {}" for fd
    using assms(1,2) unfolding amounts_ok_def by (metis add_is_0)+
  have "writes k h = 0" for k
    using assms(1,2) unfolding amounts_ok_def by (cases pc) auto
  then show ?thesis using w assms(4-7) by (simp add: amounts_ok_def)
qed

lemma mset_take_full: "length E = n \<Longrightarrow> mset E = mset (take n E)" by simp

lemma main_sys_step:
  assumes inv: "foo_inv s" and none: "exited s = None" and p: "pool s Main = Some (M pc)"
    and c: "main_code pc = Sys c f" and ans: "eventfd_answer (calls (hist s)) c r"
  shows "foo_inv (goes (s\<lparr>hist := hist s @ [(Main, c, r)]\<rparr>) Main (f r (mem s)))"
proof -
  let ?E = "efds (mem s)" and ?tr = "calls (hist s)" and ?h' = "hist s @ [(Main, c, r)]"
  let ?s' = "goes (s\<lparr>hist := hist s @ [(Main, c, r)]\<rparr>) Main (f r (mem s))"
  from inv p none obtain H L where
    *: "length ?E = efd_num" "length (write_params (mem s)) = efd_num"
       "main_ok (mem s) pc H" "live ?tr = H + L" "size L \<le> 1" "reader_closed (hist s) \<Longrightarrow> L = {#}"
       "early pc \<Longrightarrow> L = {#} \<and> \<not> reader_closed (hist s)"
    and oth: "others_ok (mem s) (pool s) (hist s) pc L" and am: "amounts_ok (mem s) (hist s) pc"
    unfolding foo_inv_def by auto
  have none': "pool s t = None" if "t \<noteq> Main" for t
    using alone [OF _ oth that] main_sys_alone [OF c] by blast
  have oth': "others_ok m' (pool ?s') h mpc' L'" for m' h mpc' L'
    by (rule others_ok_alone) (simp add: none')
  show ?thesis
  proof (cases pc)
    case (M_malloc n)
    with * c oth' amounts_early [OF am, of _ c r] show ?thesis
      by (intro foo_invI [of _ "if rv r = 0 then M_perror (malloc_msg n) n else if n < 2 then M_malloc (Suc n) else M_eventfd 0" "{#}" "{#}"])
         (auto simp: efd_num_def fresh_efds_def none)
  next
    case (M_eventfd i)
    show ?thesis
    proof (cases "rv r = - 1")
      case True
      with M_eventfd * c oth' amounts_early [OF am, of _ c r] show ?thesis
        by (intro foo_invI [of _ "M_perror ''eventfd'' 3" H "{#}"]) (auto simp: none intro!: exI [of _ i])
    next
      case False
      with M_eventfd * c ans have fd: "0 \<le> rv r \<and> rv r < 2 ^ 31" "rv r \<notin> set (take i ?E)" "i < length ?E" "fresh_efds (take i ?E)" by auto
      note t = fresh_take_Suc [OF fd(3,4,1,2)]
      show ?thesis
      proof (cases "Suc i < efd_num")
        case True
        with False M_eventfd * c t fd oth' amounts_early [OF am, of _ c r] show ?thesis
          by (intro foo_invI [of _ "M_eventfd (Suc i)" "H + {#rv r#}" "{#}"]) (auto simp: none)
      next
        case False
        with fd *(1) have "take (Suc i) (?E[i := rv r]) = ?E[i := rv r]" by simp
        with False \<open>rv r \<noteq> - 1\<close> M_eventfd * c t fd oth' amounts_early [OF am, of _ c r] show ?thesis
          by (intro foo_invI [of _ M_params "H + {#rv r#}" "{#}"]) (auto simp: none)
      qed
    qed
  next
    case (M_close_fd i fd)
    have "mset (drop i ?E) = mset (drop (Suc i) ?E) + {#fd#}" if "i < length ?E" "fd = ?E ! i"
      using that by (simp add: Cons_nth_drop_Suc [symmetric])
    with M_close_fd * c oth' am show ?thesis
      by (intro foo_invI [of _ "M_close (Suc i)" "mset (drop (Suc i) ?E)" L]) (auto simp: none amounts_ok_def)
  next
    case (M_perror msg n)
    with * c oth' amounts_early [OF am, of _ c r] show ?thesis
      by (intro foo_invI [of _ "M_free n 1" H "{#}"]) (auto simp: none)
  next
    case (M_free n rc)
    with c obtain k where n: "n = Suc k" by (auto split: nat.splits)
    with M_free * c oth' am show ?thesis
      by (intro foo_invI [of _ "M_free k rc" H L]) (auto simp: none amounts_ok_def)
  qed (use c in simp_all)
qed

lemma main_mem_step:
  assumes inv: "foo_inv s" and none: "exited s = None" and p: "pool s Main = Some (M pc)" and c: "main_code pc = Mem f"
  shows "foo_inv (goes s Main (f (mem s)))"
proof -
  from inv p none obtain H L where
    *: "length (efds (mem s)) = efd_num" "length (write_params (mem s)) = efd_num"
       "main_ok (mem s) pc H" "live (calls (hist s)) = H + L" "size L \<le> 1" "reader_closed (hist s) \<Longrightarrow> L = {#}"
       "early pc \<Longrightarrow> L = {#} \<and> \<not> reader_closed (hist s)"
    and oth: "others_ok (mem s) (pool s) (hist s) pc L" and am: "amounts_ok (mem s) (hist s) pc"
    unfolding foo_inv_def by auto
  show ?thesis
  proof (cases pc)
    case M_params
    have "others_ok m' ((pool s)(Main \<mapsto> x)) h M_reader L" for m' h x
      by (rule others_ok_alone) (use alone [OF _ oth] M_params in simp)
    with M_params * c am show ?thesis
      by (intro foo_invI [of _ M_reader H L]) (auto simp: none amounts_ok_def)
  next
    case (M_set i)
    let ?wp = "\<lparr>wp_efd = efds (mem s) ! i, wp_interval = 2 * int i + 1, wp_write_num = int write_num\<rparr>"
    have "params_set (mem s\<lparr>write_params := (write_params (mem s))[i := ?wp]\<rparr>) (Suc i)"
      using M_set * by (auto simp: params_set_def nth_list_update less_Suc_eq)
    with M_set * c am oth show ?thesis
      by (intro foo_invI [of _ "M_writer i" H L]) (auto simp: none amounts_ok_def others_ok_def)
  next
    case (M_close i)
    have o: "others_ok m' ((pool s)(Main \<mapsto> x)) h pc' L" for m' h x pc'
      by (rule others_ok_alone) (use alone [OF _ oth] M_close in simp)
    show ?thesis
    proof (cases "i < efd_num")
      case True
      with M_close * c am o show ?thesis
        by (intro foo_invI [of _ "M_close_fd i (efds (mem s) ! i)" H L]) (auto simp: none amounts_ok_def)
    next
      case False
      with M_close * c am o show ?thesis
        by (intro foo_invI [of _ "M_free 3 0" "{#}" L]) (auto simp: none amounts_ok_def)
    qed
  next
    case (M_free n rc)
    with c show ?thesis by (cases n) simp_all
  qed (use c in simp_all)
qed

lemma others_ok_more: "others_ok m P h pc L \<Longrightarrow> may_run pc \<subseteq> may_run pc' \<Longrightarrow> others_ok m P h pc' L"
  unfolding others_ok_def by blast

lemma others_ok_spawn:
  "others_ok m P h pc L \<Longrightarrow> Writer i \<in> may_run pc \<Longrightarrow> writes i h = 0 \<Longrightarrow>
   others_ok m (P(Writer i \<mapsto> W (W_enter i), Main \<mapsto> x)) h pc L"
  unfolding others_ok_def by auto

lemma others_ok_main: "others_ok m P h pc L \<Longrightarrow> others_ok m (P(Main \<mapsto> x)) h pc L"
  unfolding others_ok_def by auto

lemma main_spawn_step:
  assumes inv: "foo_inv s" and none: "exited s = None" and p: "pool s Main = Some (M pc)"
    and c: "main_code pc = Spawn u start f"
  shows "foo_inv (goes (s\<lparr>pool := (pool s)(u \<mapsto> start)\<rparr>) Main (f 0 (mem s)))"
    and "e \<noteq> 0 \<Longrightarrow> foo_inv (goes s Main (f e (mem s)))"
proof -
  from inv p none obtain H L where
    *: "length (efds (mem s)) = efd_num" "length (write_params (mem s)) = efd_num"
       "main_ok (mem s) pc H" "live (calls (hist s)) = H + L" "size L \<le> 1" "reader_closed (hist s) \<Longrightarrow> L = {#}"
       "early pc \<Longrightarrow> L = {#} \<and> \<not> reader_closed (hist s)"
    and oth: "others_ok (mem s) (pool s) (hist s) pc L" and am: "amounts_ok (mem s) (hist s) pc"
    unfolding foo_inv_def by auto
  have "foo_inv (goes (s\<lparr>pool := (pool s)(u \<mapsto> start)\<rparr>) Main (f 0 (mem s)))
      \<and> (e \<noteq> 0 \<longrightarrow> foo_inv (goes s Main (f e (mem s))))"
  proof (cases pc)
    case M_reader
    then have no: "pool s t = None" if "t \<noteq> Main" for t using alone [OF _ oth that] by simp
    then have "others_ok (mem s) ((pool s)(Reader \<mapsto> R R_enter, Main \<mapsto> x)) (hist s) (M_set 0) L" for x
      using M_reader *(7) am by (auto simp: others_ok_def amounts_ok_def no)
    moreover have "others_ok m' ((pool s)(Main \<mapsto> x)) h pc' L" for m' h x pc'
      by (rule others_ok_alone) (simp add: no)
    moreover have "\<exists>j\<le>efd_num. mset (efds (mem s)) = mset (take j (efds (mem s)))"
      using *(1) by (intro exI [of _ efd_num]) simp
    moreover have "amounts_ok (mem s) (hist s) (M_set 0)" "amounts_ok (mem s) (hist s) (M_perror msg 3)" for msg
      using am M_reader by (simp_all add: amounts_ok_def)
    moreover have "f 0 (mem s) = (mem s, M (M_set 0))" "e \<noteq> 0 \<longrightarrow> f e (mem s) = (mem s, M (M_perror ''pthread_create'' 3))"
      "u = Reader" "start = R R_enter" using M_reader c by auto
    ultimately have "foo_inv (goes (s\<lparr>pool := (pool s)(u \<mapsto> start)\<rparr>) Main (f 0 (mem s)))
      \<and> (e \<noteq> 0 \<longrightarrow> foo_inv (goes s Main (f e (mem s))))"
      using M_reader * none
      by (intro conjI impI foo_invI [of "goes (s\<lparr>pool := (pool s)(u \<mapsto> start)\<rparr>) Main (f 0 (mem s))" "M_set 0" H L]
            foo_invI [of "goes s Main (f e (mem s))" "M_perror ''pthread_create'' 3" H L])
         (simp_all add: efd_num_def params_set_def)
    then show ?thesis .
  next
    case (M_writer i)
    let ?pc' = "if Suc i < efd_num then M_set (Suc i) else M_joinw 0"
    have may: "may_run (M_writer i) \<subseteq> may_run ?pc'" "Writer i \<in> may_run ?pc'" "to_come ?pc' \<subseteq> to_come (M_writer i)"
      using M_writer * by (auto simp: less_Suc_eq)
    have w0: "writes i (hist s) = 0" using am M_writer by (simp add: amounts_ok_def)
    have o: "others_ok (mem s) (pool s) (hist s) ?pc' L"
      using others_ok_more [OF oth, of ?pc'] may(1) M_writer by simp
    note others_ok_spawn [OF o may(2) w0] others_ok_main [OF o]
    moreover have "amounts_ok (mem s) (hist s) ?pc'" using am may(3) M_writer by (auto simp: amounts_ok_def)
    moreover have "main_ok (mem s) ?pc' H"
    proof (cases "Suc i < efd_num")
      case False
      with *(3) M_writer have "efd_num = Suc i" by simp
      with *(3) M_writer show ?thesis by simp
    qed (use *(3) M_writer in simp)
    moreover have "\<not> early ?pc'" by simp
    ultimately have "foo_inv (goes (s\<lparr>pool := (pool s)(u \<mapsto> start)\<rparr>) Main (f 0 (mem s)))"
      "e \<noteq> 0 \<longrightarrow> foo_inv (goes s Main (f e (mem s)))"
      using M_writer * c none by (auto intro!: foo_invI [of _ ?pc' H L])
    then show ?thesis ..
  next
    case (M_free n rc)
    with c show ?thesis by (cases n) simp_all
  qed (use c in simp_all)
  then show "foo_inv (goes (s\<lparr>pool := (pool s)(u \<mapsto> start)\<rparr>) Main (f 0 (mem s)))"
    and "e \<noteq> 0 \<Longrightarrow> foo_inv (goes s Main (f e (mem s)))" by simp_all
qed

lemma others_ok_less:
  "others_ok m P h pc L \<Longrightarrow> P u = None \<Longrightarrow> may_run pc \<subseteq> insert u (may_run pc') \<Longrightarrow> others_ok m P h pc' L"
  unfolding others_ok_def by (metis insertE option.distinct(1) subsetD)

lemma main_join_step:
  assumes inv: "foo_inv s" and none: "exited s = None" and p: "pool s Main = Some (M pc)"
    and c: "main_code pc = Join u f"
  shows "foo_inv (goes (s\<lparr>pool := (pool s)(u := None)\<rparr>) Main (f e (mem s)))"
proof -
  from inv p none obtain H L where
    *: "length (efds (mem s)) = efd_num" "length (write_params (mem s)) = efd_num"
       "main_ok (mem s) pc H" "live (calls (hist s)) = H + L" "size L \<le> 1" "reader_closed (hist s) \<Longrightarrow> L = {#}"
       "early pc \<Longrightarrow> L = {#} \<and> \<not> reader_closed (hist s)"
    and oth: "others_ok (mem s) (pool s) (hist s) pc L" and am: "amounts_ok (mem s) (hist s) pc"
    unfolding foo_inv_def by auto
  have o: "others_ok (mem s) ((pool s)(u := None)) (hist s) pc L"
    using oth unfolding others_ok_def by auto
  show ?thesis
  proof (cases pc)
    case (M_joinw i)
    let ?pc' = "if Suc i < efd_num then M_joinw (Suc i) else M_joinr"
    have u: "u = Writer i" "f e (mem s) = (mem s, M ?pc')" using M_joinw c by auto
    have "may_run pc \<subseteq> insert u (may_run ?pc')" unfolding u M_joinw by (auto simp: less_Suc_eq_le)
    from others_ok_main [OF others_ok_less [OF o _ this]]
    moreover have "\<not> early ?pc'" by simp
    ultimately show ?thesis using u M_joinw * am none by (intro foo_invI [of _ ?pc' H L]) (auto simp: amounts_ok_def)
  next
    case M_joinr
    have u: "u = Reader" "f e (mem s) = (mem s, M (M_close 0))" using M_joinr c by auto
    have "may_run pc \<subseteq> insert u (may_run (M_close 0))" unfolding u M_joinr by simp
    from others_ok_main [OF others_ok_less [OF o _ this]]
    show ?thesis using u M_joinr * am none by (intro foo_invI [of _ "M_close 0" H L]) (auto simp: amounts_ok_def)
  next
    case (M_free n rc)
    with c show ?thesis by (cases n) simp_all
  qed (use c in simp_all)
qed

lemma foo_pool_kinds:
  assumes "foo_inv s" "pool s t = Some pc"
  shows "(\<exists>mpc. t = Main \<and> pc = M mpc) \<or> (\<exists>rpc. t = Reader \<and> pc = R rpc) \<or> (\<exists>k wpc. t = Writer k \<and> pc = W wpc)"
proof -
  from assms(1) obtain mpc H L where "pool s Main = Some (M mpc)" "others_ok (mem s) (pool s) (hist s) mpc L"
    unfolding foo_inv_def by auto
  then show ?thesis using assms(2) unfolding others_ok_def by (cases t) (auto; metis)+
qed

lemma map_action_inv:
  "map_action id g a = Sys c k \<Longrightarrow> \<exists>k'. a = Sys c k' \<and> (\<forall>r m. k r m = map_prod id g (k' r m))"
  "map_action id g a = Mem f \<Longrightarrow> \<exists>f'. a = Mem f' \<and> (\<forall>m. f m = map_prod id g (f' m))"
  by (cases a; auto)+

lemma reader_writer_actions:
  "map_action id R (reader_code rpc) \<noteq> Spawn u st j" "map_action id R (reader_code rpc) \<noteq> Join u k"
  "map_action id R (reader_code rpc) \<noteq> Exit rc"
  "map_action id W (writer_code wpc) \<noteq> Spawn u st j" "map_action id W (writer_code wpc) \<noteq> Join u k"
  "map_action id W (writer_code wpc) \<noteq> Exit rc"
  by (cases rpc; simp split: list.split; fail)+ (cases wpc; simp)+

lemma foo_inv_kept:
  assumes inv: "foo_inv s" and st: "sys_step foo_code eventfd_system s s'"
  shows "foo_inv s'"
  using st
proof cases
  case (sys t pc c k r)
  note g = foo_pool_kinds [OF inv sys(3)]
  from g show ?thesis
  proof (elim disjE exE conjE)
    fix mpc assume "t = Main" "pc = M mpc"
    with sys main_sys_step [OF inv sys(2), of mpc c k r] show ?thesis by simp
  next
    fix rpc assume r: "t = Reader" "pc = R rpc"
    with sys(4) map_action_inv(1) [of R "reader_code rpc" c k] obtain k' where
      k': "reader_code rpc = Sys c k'" "\<forall>r m. k r m = map_prod id R (k' r m)" by auto
    with r sys reader_step [OF inv sys(2) _ k'(1)] show ?thesis by simp
  next
    fix j wpc assume r: "t = Writer j" "pc = W wpc"
    with sys(4) map_action_inv(1) [of W "writer_code wpc" c k] obtain k' where
      k': "writer_code wpc = Sys c k'" "\<forall>r m. k r m = map_prod id W (k' r m)" by auto
    with r sys writer_step [OF inv sys(2) _ k'(1)] show ?thesis by simp
  qed
next
  case (mem t pc f)
  from foo_pool_kinds [OF inv mem(3)] show ?thesis
  proof (elim disjE exE conjE)
    fix mpc assume "t = Main" "pc = M mpc"
    with mem main_mem_step [OF inv mem(2), of mpc f] show ?thesis by simp
  next
    fix rpc assume r: "t = Reader" "pc = R rpc"
    with mem(4) map_action_inv(2) [of R "reader_code rpc" f] obtain f' where
      f': "reader_code rpc = Mem f'" "\<forall>m. f m = map_prod id R (f' m)" by auto
    with r mem reader_mem_step [OF inv mem(2) _ f'(1)] show ?thesis by simp
  next
    fix j wpc assume r: "t = Writer j" "pc = W wpc"
    with mem(4) map_action_inv(2) [of W "writer_code wpc" f] obtain f' where
      f': "writer_code wpc = Mem f'" "\<forall>m. f m = map_prod id W (f' m)" by auto
    with r mem writer_mem_step [OF inv mem(2) _ f'(1)] show ?thesis by simp
  qed
next
  case (spawn t pc u start k)
  with foo_pool_kinds [OF inv spawn(3)] reader_writer_actions obtain mpc where "t = Main" "pc = M mpc" by fastforce
  with spawn main_spawn_step(1) [OF inv spawn(2), of mpc u start k] show ?thesis by simp
next
  case (spawn_fails t pc u start k e)
  with foo_pool_kinds [OF inv spawn_fails(3)] reader_writer_actions obtain mpc where "t = Main" "pc = M mpc" by fastforce
  with spawn_fails main_spawn_step(2) [OF inv spawn_fails(2), of mpc u start k e] show ?thesis by simp
next
  case (join t pc u k pc')
  with foo_pool_kinds [OF inv join(3)] reader_writer_actions obtain mpc where "t = Main" "pc = M mpc" by fastforce
  with join main_join_step [OF inv join(2), of mpc u k 0] show ?thesis by simp
next
  case (join_fails t pc u k e)
  with foo_pool_kinds [OF inv join_fails(3)] reader_writer_actions obtain mpc where t: "t = Main" "pc = M mpc" by fastforce
  have "s\<lparr>pool := (pool s)(u := None)\<rparr> = s" using join_fails(5) by (cases s) (simp add: fun_upd_idem)
  with t join_fails main_join_step [OF inv join_fails(2), of mpc u k e] show ?thesis by simp
next
  case (exits t pc rc)
  with foo_pool_kinds [OF inv exits(3)] reader_writer_actions obtain mpc where t: "t = Main" "pc = M mpc" by fastforce
  with exits have "mpc = M_free 0 rc" by (cases mpc) (auto split: nat.splits)
  with inv t exits show ?thesis unfolding foo_inv_def by auto
qed

interpretation foo: thread_system foo_code eventfd_system "foo_start m"
    "\<lambda>s. length (efds m) = efd_num \<and> length (write_params m) = efd_num \<longrightarrow> foo_inv s" for m
  by unfold_locales (auto intro: foo_inv_start foo_inv_kept)


section \<open>Results\<close>

lemma foo_reached:
  "length (efds m) = 3 \<Longrightarrow> length (write_params m) = 3 \<Longrightarrow> reachable foo_code eventfd_system (foo_start m) s \<Longrightarrow> foo_inv s"
  using foo.always [of m s] by (simp add: efd_num_def)

lemma reader_times_out:
  assumes "sys_step foo_code eventfd_system s s'"
    and "pool s Reader = Some (R (R_wait ep buf))" "pool s' Reader = Some (R (R_timeout ep'))"
  obtains r where "rv r = 0" "hist s' = hist s @ [(Reader, EpollWaitMs ep MAX_EVENTS_foo 6000, r)]" "mem s' = mem s"
    "\<forall>fd\<in>watched ep (calls (hist s)). counter fd (calls (hist s)) = 0"
  using assms(1)
proof cases
  case (sys t pc c k r)
  then have "t = Reader" using assms(2,3) by (auto split: if_splits)
  with sys assms(2,3) that [of r] show ?thesis by (auto split: if_splits)
qed (use assms(2,3) reader_writer_actions in \<open>auto split: if_splits\<close>)

text \<open>
  A run in which the third writer writes once and the reader reads it; \<open>main\<close> is at its first join.
\<close>

definition sample_mem :: foo_mem where
  "sample_mem = \<lparr>efds = [0, 0, 0], read_num = 0, write_params = replicate 3 \<lparr>wp_efd = 0, wp_interval = 0, wp_write_num = 0\<rparr>\<rparr>"

definition gives :: "int \<Rightarrow> bytes \<Rightarrow> int list \<Rightarrow> reply" where
  "gives n bs fds = \<lparr>rv = n, rdata = bs, rfds = fds, rerrno = 0, rpeer = InAddr 0 0\<rparr>"

abbreviation says :: "int \<Rightarrow> reply" where "says n \<equiv> gives n [] []"

definition sample_start :: "(foo_thread \<times> reply) list" where
  "sample_start = map (\<lambda>n. (Main, says n)) [1, 2, 3, 3, 4, 5, 0, 0, 0, 0, 0, 0, 0, 0]
     @ map (\<lambda>n. (Reader, says n)) [0, 6, 0, 0, 0, 0, 0, 0, 0]
     @ map (\<lambda>n. (Writer 2, says n)) [0, 0, 0, 0, 8]
     @ [(Reader, gives 1 [] [5]), (Reader, gives 8 (le_bytes 8 5) []), (Reader, says 0), (Reader, says 0), (Reader, says 0)]"

lemmas sample_defs = sample_start_def foo_start_def boot_def sample_mem_def gives_def efd_num_def MAX_EVENTS_foo_def write_num_def

lemma patch_all: "length bs = 8 \<Longrightarrow> patch (le_bytes 8 n) 0 bs = bs"
  by (simp add: patch_def)

definition sample_hist :: foo_hist where
  "sample_hist = [(Main, Malloc 12, says 1), (Main, Malloc 24, says 2), (Main, Malloc 36, says 3),
      (Main, Eventfd 0, says 3), (Main, Eventfd 0, says 4), (Main, Eventfd 0, says 5),
      (Reader, EpollCreate, says 6), (Reader, EpollAdd 6 3, says 0), (Reader, EpollAdd 6 4, says 0), (Reader, EpollAdd 6 5, says 0),
      (Writer 2, ThreadSelf, says 0), (Writer 2, Out (thread_line '' enter efd:'' 0 5), says 0),
      (Writer 2, Write 5 (le_bytes 8 (write_count 5)), says 8),
      (Reader, EpollWaitMs 6 10 6000, gives 1 [] [5]), (Reader, Read 5 8, gives 8 (le_bytes 8 5) []),
      (Reader, Gettimeofday, says 0), (Reader, Out (read_line 5 8 (le_nat (le_bytes 8 5)) []), says 0)]"

lemma write_count_5 [simp]: "write_count 5 = 5"
  by (simp add: write_count_def)

lemma sample_allowed: "allowed eventfd_system [] sample_hist"
  unfolding sample_hist_def
  by (simp add: gives_def live_def watched_def counter_def le_nat_le_bytes)

lemma sample_waits:
  "\<exists>s. reachable foo_code eventfd_system (foo_start sample_mem) s \<and> efds (mem s) = [3, 4, 5]
     \<and> pool s Reader = Some (R (R_wait 6 (le_bytes 8 5))) \<and> exited s = None \<and> hist s = sample_hist"
proof -
  let ?s = "the (exec_all foo_code (foo_start sample_mem) sample_start)"
  have run: "exec_all foo_code (foo_start sample_mem) sample_start = Some ?s"
    by (simp add: sample_defs)
  have h: "hist ?s = sample_hist"
    by (simp add: sample_defs malloc_size_def sample_hist_def patch_all)
  with run sample_allowed have "reachable foo_code eventfd_system (foo_start sample_mem) ?s"
    unfolding foo_start_def by (intro run_reachable) simp_all
  moreover have "efds (mem ?s) = [3, 4, 5]" "pool ?s Reader = Some (R (R_wait 6 (le_bytes 8 5)))" "exited ?s = None"
    by (simp_all add: sample_defs patch_all)
  ultimately show ?thesis using h by blast
qed

text \<open>
  C3: Nothing that was written gets lost: when the reader's wait ends without an event, the numbers it
  has read from each \<open>eventfd\<close> add up to that descriptor's number times the completed writes of its
  writer, in every interleaving of the four threads.
\<close>

theorem eventfd_reader_complete:
  assumes "length (efds m) = 3" "length (write_params m) = 3"
    and "reachable foo_code eventfd_system (foo_start m) s" "sys_step foo_code eventfd_system s s'"
    and "pool s Reader = Some (R (R_wait ep buf))" "pool s' Reader = Some (R (R_timeout ep'))" "k < 3"
  shows "taken (efds (mem s') ! k) (calls (hist s')) = writes k (hist s') * write_count (efds (mem s') ! k)"
proof -
  note inv = foo_reached [OF assms(1-3)]
  from inv obtain mpc L where l: "length (efds (mem s)) = efd_num"
    and o: "others_ok (mem s) (pool s) (hist s) mpc L" "amounts_ok (mem s) (hist s) mpc"
    unfolding foo_inv_def by auto
  from o(1) assms(5) have W: "watched ep (calls (hist s)) = set (efds (mem s))" by (auto simp: others_ok_def polls_def)
  obtain r where r: "rv r = 0" "hist s' = hist s @ [(Reader, EpollWaitMs ep MAX_EVENTS_foo 6000, r)]" "mem s' = mem s"
    "\<forall>fd\<in>watched ep (calls (hist s)). counter fd (calls (hist s)) = 0"
    using reader_times_out [OF assms(4-6)] by blast
  have "efds (mem s) ! k \<in> set (efds (mem s))" using l assms(7) by (simp add: efd_num_def)
  with r W have "counter (efds (mem s) ! k) (calls (hist s)) = 0" by simp
  then have "taken (efds (mem s) ! k) (calls (hist s)) = written (efds (mem s) ! k) (calls (hist s))"
    using o(2) unfolding amounts_ok_def by (metis add.right_neutral)
  also have "\<dots> = writes k (hist s) * write_count (efds (mem s) ! k)"
    using o(2) assms(7) by (simp add: amounts_ok_def efd_num_def)
  finally show ?thesis using r by simp
qed

theorem eventfd_reader_complete_witness:
  "\<exists>s' :: foo_sys. pool s' Reader = Some (R (R_timeout 6)) \<and> efds (mem s') = [3, 4, 5]
     \<and> taken 5 (calls (hist s')) = writes 2 (hist s') * write_count 5 \<and> writes 2 (hist s') = 1"
proof -
  obtain s where s: "reachable foo_code eventfd_system (foo_start sample_mem) s" "efds (mem s) = [3, 4, 5]"
    "pool s Reader = Some (R (R_wait 6 (le_bytes 8 5)))" "exited s = None" "hist s = sample_hist" using sample_waits by blast
  let ?c = "EpollWaitMs 6 MAX_EVENTS_foo 6000"
  let ?s = "goes (s\<lparr>hist := hist s @ [(Reader, ?c, says 0)]\<rparr>) Reader (mem s, R (R_timeout 6))"
  have "sys_step foo_code eventfd_system s (goes (s\<lparr>hist := hist s @ [(Reader, ?c, says 0)]\<rparr>) Reader
      ((\<lambda>r m. (m, if 0 < rv r then R (R_read 6 (le_bytes 8 5) (take (nat (rv r)) (rfds r)))
         else if rv r = 0 then R (R_timeout 6) else R (R_perror ''epoll wait error''))) (says 0) (mem s)))"
    by (rule sys_step.sys [OF s(4,3)])
       (use s(5) in \<open>auto simp: gives_def fun_eq_iff sample_hist_def watched_def counter_def\<close>)
  then have "sys_step foo_code eventfd_system s ?s" by (simp add: gives_def)
  from eventfd_reader_complete [OF _ _ s(1) this s(3), of 6 2]
  have "taken (efds (mem ?s) ! 2) (calls (hist ?s)) = writes 2 (hist ?s) * write_count (efds (mem ?s) ! 2)"
    by (simp add: sample_mem_def)
  moreover have "writes 2 (hist ?s) = 1" using s(5) by (simp add: sample_hist_def writes_def gives_def)
  ultimately show ?thesis using s(2) by - (rule exI [of _ ?s], simp)
qed

fun uses :: "ucall \<Rightarrow> int set" where
  "uses (Read fd n) = {fd}"
| "uses (Write fd bs) = {fd}"
| "uses (EpollAdd ep fd) = {ep, fd}"
| "uses (EpollWaitMs ep n ms) = {ep}"
| "uses (Close fd) = {fd}"
| "uses c = {}"

lemma writer_uses: "writer_code pc = Sys c f \<Longrightarrow> writer_ok E k n pc \<Longrightarrow> fd \<in> uses c \<Longrightarrow> fd = E ! k"
  by (cases pc) auto

lemma reader_uses:
  assumes "reader_code pc = Sys c f" "reader_ok E V C pc" "reader_left cl L pc" "length E = efd_num" "fd \<in> uses c"
  shows "fd \<in> set E \<or> fd \<in># L"
proof (cases pc)
  case (R_ctl ep i x)
  then have "c = EpollAdd ep x" "x = E ! i" "i < length E" "L = {#ep#}" using assms(1-4) by simp_all
  then show ?thesis using assms(5) by auto
next
  case (R_read ep buf fds)
  with assms(1,2,5) show ?thesis by (cases fds) (auto simp: polls_def)
qed (use assms(1,3,5) in auto)

lemma main_uses:
  assumes "main_code pc = Sys c f" "main_ok m pc H" "length (efds m) = efd_num" "fd \<in> uses c"
  shows "fd \<in># H"
proof (cases pc)
  case (M_close_fd i x)
  then have "fd = efds m ! i" "i < length (efds m)" "H = mset (drop i (efds m))" using assms by auto
  moreover have "drop i (efds m) = efds m ! i # drop (Suc i) (efds m)"
    using calculation(2) by (rule Cons_nth_drop_Suc [symmetric])
  ultimately show ?thesis by simp
next
  case (M_free n rc)
  with assms(1,4) show ?thesis by (cases n) auto
qed (use assms(1,4) in auto)

text \<open>
  C9: No thread ever uses a descriptor that is not open, and none is closed twice: whatever the
  interleaving, every descriptor passed to \<open>read\<close>, \<open>write\<close>, \<open>epoll_ctl\<close>, \<open>epoll_wait\<close> or \<open>close\<close> is
  open at that moment, although \<open>main\<close> closes the eventfds that its threads use.
\<close>

theorem eventfd_used_while_open:
  assumes "length (efds m) = 3" "length (write_params m) = 3"
    and "reachable foo_code eventfd_system (foo_start m) s" "sys_step foo_code eventfd_system s s'"
    and "hist s' = hist s @ [(t, c, r)]" "fd \<in> uses c"
  shows "fd \<in># live (calls (hist s))"
proof -
  note inv = foo_reached [OF assms(1-3)]
  then obtain mpc H L where l: "length (efds (mem s)) = efd_num" "pool s Main = Some (M mpc)"
    and o: "main_ok (mem s) mpc H" "live (calls (hist s)) = H + L" "others_ok (mem s) (pool s) (hist s) mpc L"
    unfolding foo_inv_def by auto
  from assms(4) show ?thesis
  proof cases
    case (sys t' pc c' k r')
    with assms(5) have [simp]: "t' = t" "c' = c" by auto
    from foo_pool_kinds [OF inv sys(3)] show ?thesis
    proof (elim disjE exE conjE)
      fix pc' assume "t' = Main" "pc = M pc'"
      with sys l(2) have "main_code mpc = Sys c k" by simp
      from main_uses [OF this o(1) l(1) assms(6)] o(2) show ?thesis by simp
    next
      fix rpc assume r: "t' = Reader" "pc = R rpc"
      with sys(4) map_action_inv(1) [of R "reader_code rpc" c k] obtain k' where k': "reader_code rpc = Sys c k'" by auto
      have "reader_ok (efds (mem s)) (\<lambda>ep. watched ep (calls (hist s))) (\<lambda>fd. counter fd (calls (hist s))) rpc"
        "reader_left (reader_closed (hist s)) L rpc" using o(3) sys(3) r by (auto simp: others_ok_def)
      from reader_uses [OF k' this l(1) assms(6)] reader_context(3) [OF o(3) _ o(1)] sys(3) r o(2)
      show ?thesis by auto
    next
      fix j wpc assume r: "t' = Writer j" "pc = W wpc"
      with sys(4) map_action_inv(1) [of W "writer_code wpc" c k] obtain k' where k': "writer_code wpc = Sys c k'" by auto
      have "writer_ok (efds (mem s)) j (writes j (hist s)) wpc" using o(3) sys(3) r by (auto simp: others_ok_def)
      from writer_uses [OF k' this assms(6)] writer_context(1,6) [OF o(3) _ o(1)] sys(3) r o(2) l(1)
      show ?thesis by auto
    qed
  qed (use assms(5) in auto)
qed

theorem eventfd_used_while_open_witness: "6 \<in># live (calls sample_hist)"
proof -
  obtain s where s: "reachable foo_code eventfd_system (foo_start sample_mem) s" "efds (mem s) = [3, 4, 5]"
    "pool s Reader = Some (R (R_wait 6 (le_bytes 8 5)))" "exited s = None" "hist s = sample_hist" using sample_waits by blast
  let ?c = "EpollWaitMs 6 MAX_EVENTS_foo 6000"
  have "sys_step foo_code eventfd_system s (goes (s\<lparr>hist := hist s @ [(Reader, ?c, says (- 1))]\<rparr>) Reader
      ((\<lambda>r m. (m, if 0 < rv r then R (R_read 6 (le_bytes 8 5) (take (nat (rv r)) (rfds r)))
         else if rv r = 0 then R (R_timeout 6) else R (R_perror ''epoll wait error''))) (says (- 1)) (mem s)))"
    by (rule sys_step.sys [OF s(4,3)])
       (use s(5) in \<open>auto simp: gives_def fun_eq_iff sample_hist_def watched_def counter_def\<close>)
  from eventfd_used_while_open [OF _ _ s(1) this, of Reader ?c "says (- 1)" 6] s(5) show ?thesis
    by (simp add: sample_mem_def)
qed






end
