(* ===== verification/EventfdEnds.thy ===== *)
theory EventfdEnds
  imports Eventfd
begin

text \<open>
  \<open>src/linux/eventfd/foo.c\<close> ends: no run of its threads is longer than a fixed number of steps, and
  only a state in which the program has exited cannot go on, whatever failed on the way there.  The model
  and its invariant are in \<open>Eventfd\<close>; here is how far a state is from the end, and the proof that every
  step brings it nearer.
\<close>

section \<open>A system without failures\<close>

text \<open>Calls are answered as documented, and none fails.\<close>

fun succeeds :: "ucall \<Rightarrow> reply \<Rightarrow> bool" where
  "succeeds (Malloc n) r = (rv r \<noteq> 0)"
| "succeeds c r = (rv r \<noteq> - 1)"

definition eventfd_works :: "foo_hist \<Rightarrow> foo_thread \<times> ucall \<times> reply \<Rightarrow> bool" where
  "eventfd_works h e \<longleftrightarrow> eventfd_system h e \<and> succeeds (fst (snd e)) (snd (snd e))"

section \<open>The distance from the end\<close>

primrec main_left :: "main_pc \<Rightarrow> nat" where
  "main_left (M_malloc n) = (if n < 2 then 64 - n else 60 + n)"
| "main_left (M_eventfd i) = 50 - i"
| "main_left M_params = 45"
| "main_left M_reader = 44"
| "main_left (M_set i) = 40 - 2 * i"
| "main_left (M_writer i) = 39 - 2 * i"
| "main_left (M_joinw i) = 30 - i"
| "main_left M_joinr = 25"
| "main_left (M_close i) = 20 - 2 * i"
| "main_left (M_close_fd i fd) = 19 - 2 * i"
| "main_left (M_perror msg n) = n + 2"
| "main_left (M_free n rc) = n + 1"

text \<open>
  A round of a writer counts 30: its own steps, and 20 for what the reader has to do about the value
  that it writes.
\<close>

definition rounds :: "nat \<Rightarrow> nat" where "rounds i = 30 * (write_num - i)"

primrec writer_left :: "writer_pc \<Rightarrow> nat" where
  "writer_left (W_enter k) = 309"
| "writer_left (W_hello k fd) = 308"
| "writer_left (W_hello_print k fd self) = 307"
| "writer_left (W_test k fd i) = 6 + rounds i"
| "writer_left (W_write k fd i) = 5 + rounds i"
| "writer_left (W_time k fd i ret) = rounds i - 20"
| "writer_left (W_print k fd i ret tv) = rounds i - 21"
| "writer_left (W_pause k fd i) = rounds i - 22"
| "writer_left (W_sleep k fd i n) = rounds i - 23"
| "writer_left (W_perror k fd) = 4"
| "writer_left (W_bye k fd) = 3"
| "writer_left (W_bye_print k fd self) = 2"
| "writer_left W_end = 0"

primrec reader_steps :: "reader_pc \<Rightarrow> nat" where
  "reader_steps R_enter = 21"
| "reader_steps (R_too_many n) = 1"
| "reader_steps R_create = 20"
| "reader_steps (R_add ep i) = 12 + 2 * (efd_num - i)"
| "reader_steps (R_ctl ep i fd) = 11 + 2 * (efd_num - i)"
| "reader_steps (R_wait ep buf) = 10"
| "reader_steps (R_read ep buf fds) = (if fds = [] then 11 else 9)"
| "reader_steps (R_time ep buf fds fd ret) = 13"
| "reader_steps (R_print ep buf fds fd ret tv) = 12"
| "reader_steps (R_timeout ep) = 3"
| "reader_steps (R_close ep) = 2"
| "reader_steps (R_perror msg) = 1"
| "reader_steps R_end = 0"

definition pc_left :: "foo_pc option \<Rightarrow> nat" where
  "pc_left p = (case p of Some (W pc) \<Rightarrow> writer_left pc | Some (R pc) \<Rightarrow> reader_steps pc | _ \<Rightarrow> 0)"

text \<open>The eventfds that the reader still has to read.\<close>

definition filled :: "foo_sys \<Rightarrow> nat" where
  "filled s = card {fd \<in> set (efds (mem s)). 0 < counter fd (calls (hist s))}"

definition threads_left :: "foo_sys \<Rightarrow> nat" where
  "threads_left s = pc_left (pool s (Writer 0)) + pc_left (pool s (Writer 1)) + pc_left (pool s (Writer 2))
     + pc_left (pool s Reader) + 20 * filled s"

definition foo_left :: "foo_sys \<Rightarrow> nat" where
  "foo_left s = (case exited s of Some rc \<Rightarrow> 0 | None \<Rightarrow>
     Suc (2000 * (case pool s Main of Some (M pc) \<Rightarrow> main_left pc | _ \<Rightarrow> 0) + threads_left s))"

lemma pc_left_simps [simp]:
  "pc_left None = 0" "pc_left (Some (W wpc)) = writer_left wpc" "pc_left (Some (R rpc)) = reader_steps rpc" "pc_left (Some (M mpc)) = 0"
  by (simp_all add: pc_left_def)

lemma filled_le: "filled s \<le> length (efds (mem s))"
  unfolding filled_def by (rule le_trans [OF card_mono card_length]) auto

section \<open>The writers\<close>

lemma writer_nearer:
  "writer_code pc = Sys c f \<Longrightarrow> writer_ok E k n pc \<Longrightarrow> eventfd_answer h c r \<Longrightarrow>
     writer_left (snd (f r m)) + (if is_write (c, r) then 20 else 0) < writer_left pc"
  "writer_code pc = Mem g \<Longrightarrow> writer_ok (efds m) k n pc \<Longrightarrow> params_set m (Suc k) \<Longrightarrow>
     writer_left (snd (g m)) < writer_left pc"
  by (cases pc; auto simp: rounds_def write_num_def params_set_def)+

lemma writer_has_action: "pc \<noteq> W_end \<Longrightarrow> (\<exists>c f. writer_code pc = Sys c f) \<or> (\<exists>g. writer_code pc = Mem g)"
  by (cases pc) auto

lemma writer_calls:
  "writer_code pc = Sys c f \<Longrightarrow> writer_ok E k n pc \<Longrightarrow>
     c \<in> {ThreadSelf, Gettimeofday} \<or> (\<exists>t. c = Out t) \<or> (\<exists>t. c = Perror t) \<or> (\<exists>i. c = Sleep i)
     \<or> c = Write (E ! k) (le_bytes 8 (write_count (E ! k))) \<and> n < write_num"
  by (cases pc) auto

text \<open>A value of a descriptor fits into its counter ten times over.\<close>

lemma room_to_write:
  assumes "amounts_ok m h mpc" "k < efd_num" "length (efds m) = efd_num" "fresh_efds (efds m)"
  shows "counter (efds m ! k) (calls h) + write_count (efds m ! k) < 2 ^ 64 - 1"
proof -
  let ?fd = "efds m ! k"
  have "0 \<le> ?fd" "?fd < 2 ^ 31" using assms(2-4) by (auto simp: fresh_efds_def)
  then have v: "write_count ?fd < 2 ^ 31" by (simp add: write_count_def c_ulong_def take_bit_eq_mod nat_less_iff)
  have "counter ?fd (calls h) \<le> writes k h * write_count ?fd" "writes k h \<le> 10"
    using assms(1,2) unfolding amounts_ok_def write_num_def by (metis le_add2, blast)
  then have "counter ?fd (calls h) \<le> 10 * write_count ?fd" by (meson le_trans mult_le_mono1)
  with v show ?thesis by simp
qed

definition calm :: "ucall \<Rightarrow> nat \<Rightarrow> reply" where
  "calm c cnt = (case c of Write fd bs \<Rightarrow> says 8 | Read fd n \<Rightarrow> gives 8 (le_bytes 8 cnt) [] | _ \<Rightarrow> says 0)"

lemma filled_write:
  assumes "\<And>fd. counter fd (calls h') = counter fd (calls h) \<or> fd = x \<and> b"
  shows "card {fd \<in> set E. 0 < counter fd (calls h')} \<le> card {fd \<in> set E. 0 < counter fd (calls h)} + (if b then 1 else 0)"
proof (cases b)
  case True
  have "{fd \<in> set E. 0 < counter fd (calls h')} \<subseteq> insert x {fd \<in> set E. 0 < counter fd (calls h)}"
  proof
    fix fd assume "fd \<in> {fd \<in> set E. 0 < counter fd (calls h')}"
    with assms [of fd] show "fd \<in> insert x {fd \<in> set E. 0 < counter fd (calls h)}" by auto
  qed
  then have "card {fd \<in> set E. 0 < counter fd (calls h')} \<le> card (insert x {fd \<in> set E. 0 < counter fd (calls h)})"
    by (intro card_mono) simp_all
  with True show ?thesis by (simp add: card_insert_if split: if_splits)
next
  case False
  with assms have "counter fd (calls h') = counter fd (calls h)" for fd by blast
  with False show ?thesis by simp
qed

lemma slot_cases: "k < efd_num \<Longrightarrow> k = 0 \<or> k = 1 \<or> k = 2"
  by (auto simp: efd_num_def)

lemma threads_left_writer:
  assumes "k < efd_num" "pool s (Writer k) = Some (W pc)" "pool s' = (pool s)(Writer k \<mapsto> W pc')"
    and "20 * filled s' + writer_left pc' < 20 * filled s + writer_left pc"
  shows "threads_left s' < threads_left s"
  using slot_cases [OF assms(1)] assms(2-4) by (elim disjE) (simp_all add: threads_left_def)

lemma writer_decreases:
  assumes inv: "foo_inv s" and none: "exited s = None" and p: "pool s (Writer k) = Some (W pc)"
  shows "writer_code pc = Sys c f \<Longrightarrow> eventfd_system (hist s) (Writer k, c, r) \<Longrightarrow>
      threads_left (goes (s\<lparr>hist := hist s @ [(Writer k, c, r)]\<rparr>) (Writer k) (map_prod id W (f r (mem s)))) < threads_left s"
    and "writer_code pc = Mem g \<Longrightarrow> threads_left (goes s (Writer k) (map_prod id W (g (mem s)))) < threads_left s"
proof -
  from inv none obtain mpc H L where
    *: "pool s Main = Some (M mpc)" "length (efds (mem s)) = efd_num" "main_ok (mem s) mpc H"
    and oth: "others_ok (mem s) (pool s) (hist s) mpc L"
    unfolding foo_inv_def by blast
  note ctx = writer_context [OF oth p *(3)]
  from oth p have w: "writer_ok (efds (mem s)) k (writes k (hist s)) pc" by (auto simp: others_ok_def)
  { assume c: "writer_code pc = Sys c f" and ans: "eventfd_system (hist s) (Writer k, c, r)"
    let ?s' = "goes (s\<lparr>hist := hist s @ [(Writer k, c, r)]\<rparr>) (Writer k) (map_prod id W (f r (mem s)))"
    from writer_moves [OF c w, of "calls (hist s)" r "mem s"] ans obtain pc' where
      f: "f r (mem s) = (mem s, pc')" and step: "\<forall>fd x. counter_step fd x (c, r) = x + written_by fd (c, r)"
        "\<forall>fd. written_by fd (c, r) = (if is_write (c, r) \<and> fd = efds (mem s) ! k then write_count (efds (mem s) ! k) else 0)"
      by auto
    have "filled ?s' \<le> filled s + (if is_write (c, r) then 1 else 0)"
      unfolding filled_def goes_fields f
      using filled_write [of "hist s @ [(Writer k, c, r)]" "hist s" "efds (mem s) ! k" "is_write (c, r)" "efds (mem s)"] step
      by auto
    moreover have "writer_left pc' + (if is_write (c, r) then 20 else 0) < writer_left pc"
      using writer_nearer(1) [OF c w, of "calls (hist s)" r "mem s"] ans f by simp
    ultimately have "20 * filled ?s' + writer_left pc' < 20 * filled s + writer_left pc" by (auto split: if_splits)
    then show "threads_left ?s' < threads_left s"
      by (rule threads_left_writer [OF ctx(1) p, rotated]) (simp add: f) }
  { assume c: "writer_code pc = Mem g"
    obtain pc' where g: "g (mem s) = (mem s, pc')" using writer_mem_moves [OF c w ctx(5)] by blast
    have "filled (goes s (Writer k) (map_prod id W (g (mem s)))) = filled s" by (simp add: filled_def g)
    with writer_nearer(2) [OF c w ctx(5)] g
    show "threads_left (goes s (Writer k) (map_prod id W (g (mem s)))) < threads_left s"
      by (intro threads_left_writer [OF ctx(1) p]) simp_all }
qed

text \<open>A writer that has not ended can go on.\<close>

lemma writer_progress:
  assumes inv: "foo_inv s" and none: "exited s = None" and p: "pool s (Writer k) = Some (W pc)" and pc: "pc \<noteq> W_end"
  shows "\<exists>s'. sys_step foo_code eventfd_works s s'"
proof -
  from inv none obtain mpc H L where
    *: "length (efds (mem s)) = efd_num" "main_ok (mem s) mpc H"
    and oth: "others_ok (mem s) (pool s) (hist s) mpc L" and am: "amounts_ok (mem s) (hist s) mpc"
    unfolding foo_inv_def by blast
  note ctx = writer_context [OF oth p *(2)]
  from oth p have w: "writer_ok (efds (mem s)) k (writes k (hist s)) pc" by (auto simp: others_ok_def)
  from writer_has_action [OF pc] show ?thesis
  proof (elim disjE exE)
    fix c f assume c: "writer_code pc = Sys c f"
    then have code: "foo_code (W pc) = Sys c (\<lambda>r m. map_prod id W (f r m))" by (simp add: fun_eq_iff)
    have "eventfd_works (hist s) (Writer k, c, calm c 0)"
      using writer_calls [OF c w] room_to_write [OF am ctx(1) *(1) ctx(2)]
      by (auto simp: eventfd_works_def calm_def gives_def)
    from sys_step.sys [where code = foo_code and pc = "W pc" and env = eventfd_works, OF none p code this] show ?thesis ..
  next
    fix g assume "writer_code pc = Mem g"
    then have code: "foo_code (W pc) = Mem (\<lambda>m. map_prod id W (g m))" by (simp add: fun_eq_iff)
    from sys_step.mem [where code = foo_code and pc = "W pc" and env = eventfd_works, OF none p code] show ?thesis ..
  qed
qed

section \<open>The reader\<close>

lemma spare_descriptor:
  fixes M :: "int multiset"
  assumes "size M \<le> 5"
  shows "\<exists>x. 0 \<le> x \<and> x < 2 ^ 31 \<and> x \<notin># M"
proof (rule ccontr)
  assume "\<not> ?thesis"
  then have "{0..5} \<subseteq> set_mset M" by force
  then have "card {0..5 :: int} \<le> card (set_mset M)" by (intro card_mono) simp_all
  also have "\<dots> \<le> size M"
  proof -
    obtain xs where "mset xs = M" using ex_mset by blast
    then show ?thesis using card_length [of xs] by auto
  qed
  finally show False using assms by simp
qed

lemma filled_read:
  assumes "fd \<in> set E" "0 < counter fd (calls h)" "\<And>x. counter x (calls h') = (if x = fd then 0 else counter x (calls h))"
  shows "Suc (card {x \<in> set E. 0 < counter x (calls h')}) = card {x \<in> set E. 0 < counter x (calls h)}"
proof -
  have "{x \<in> set E. 0 < counter x (calls h)} = insert fd {x \<in> set E. 0 < counter x (calls h')}"
    using assms by auto
  moreover have "fd \<notin> {x \<in> set E. 0 < counter x (calls h')}" using assms by simp
  ultimately show ?thesis by simp
qed

lemma threads_left_reader:
  assumes "pool s Reader = Some (R pc)" "pool s' = (pool s)(Reader \<mapsto> R pc')"
    and "20 * filled s' + reader_steps pc' < 20 * filled s + reader_steps pc"
  shows "threads_left s' < threads_left s"
  using assms by (simp add: threads_left_def)

lemma reader_has_action: "pc \<noteq> R_end \<Longrightarrow> (\<exists>c f. reader_code pc = Sys c f) \<or> (\<exists>g. reader_code pc = Mem g)"
  by (cases pc) (auto split: list.split)

text \<open>Every answer brings the reader nearer to its end: a value that it reads counts more than what follows.\<close>

lemma reader_nearer:
  assumes "reader_code pc = Sys c f" "reader_ok E (\<lambda>ep. watched ep (calls h)) (\<lambda>fd. counter fd (calls h)) pc"
    and "eventfd_answer (calls h) c r"
  shows "20 * card {fd \<in> set E. 0 < counter fd (calls (h @ [(Reader, c, r)]))} + reader_steps (snd (f r m))
      < 20 * card {fd \<in> set E. 0 < counter fd (calls h)} + reader_steps pc"
proof (cases "\<exists>fd. c = Read fd 8 \<and> rv r = 8")
  case True
  then obtain fd where fd: "c = Read fd 8" "rv r = 8" by blast
  with assms(1) obtain ep buf rest where pc: "pc = R_read ep buf (fd # rest)" by (cases pc) (auto split: list.splits)
  with assms(2) have "fd \<in> set E" "0 < counter fd (calls h)" by (auto simp: polls_def)
  then have "Suc (card {x \<in> set E. 0 < counter x (calls (h @ [(Reader, c, r)]))}) = card {x \<in> set E. 0 < counter x (calls h)}"
    by (rule filled_read) (simp add: fd)
  moreover have "reader_steps (snd (f r m)) = 13" "reader_steps pc = 9"
    using assms(1) fd by (auto simp: pc)
  ultimately show ?thesis by linarith
next
  case False
  have "counter fd (calls (h @ [(Reader, c, r)])) \<le> counter fd (calls h)" for fd
    using assms(1,2) False by (cases pc) (auto split: list.splits)
  then have "card {fd \<in> set E. 0 < counter fd (calls (h @ [(Reader, c, r)]))} \<le> card {fd \<in> set E. 0 < counter fd (calls h)}"
    by (intro card_mono) (auto dest: less_le_trans)
  moreover have "reader_steps (snd (f r m)) < reader_steps pc"
    using assms False by (cases pc) (auto simp: efd_num_def split: list.splits)
  ultimately show ?thesis by linarith
qed

lemma reader_mem_nearer:
  "reader_code pc = Mem g \<Longrightarrow> reader_ok E V C pc \<Longrightarrow> read_num m = int efd_num \<Longrightarrow> reader_steps (snd (g m)) < reader_steps pc"
  by (cases pc) (auto split: list.splits simp: MAX_EVENTS_foo_def efd_num_def)

lemma reader_decreases:
  assumes inv: "foo_inv s" and none: "exited s = None" and p: "pool s Reader = Some (R pc)"
  shows "reader_code pc = Sys c f \<Longrightarrow> eventfd_system (hist s) (Reader, c, r) \<Longrightarrow>
      threads_left (goes (s\<lparr>hist := hist s @ [(Reader, c, r)]\<rparr>) Reader (map_prod id R (f r (mem s)))) < threads_left s"
    and "reader_code pc = Mem g \<Longrightarrow> threads_left (goes s Reader (map_prod id R (g (mem s)))) < threads_left s"
proof -
  from inv none obtain mpc H L where
    *: "length (efds (mem s)) = efd_num" "main_ok (mem s) mpc H"
       "live (calls (hist s)) = H + L" "size L \<le> 1" "reader_closed (hist s) \<longrightarrow> L = {#}"
    and oth: "others_ok (mem s) (pool s) (hist s) mpc L" and am: "amounts_ok (mem s) (hist s) mpc"
    unfolding foo_inv_def by blast
  note ctx = reader_context [OF oth p *(2)]
  from oth p have ok: "reader_ok (efds (mem s)) (\<lambda>ep. watched ep (calls (hist s))) (\<lambda>fd. counter fd (calls (hist s))) pc"
    "reader_left (reader_closed (hist s)) L pc" by (auto simp: others_ok_def)
  have lim: "\<forall>fd. counter fd (calls (hist s)) < 2 ^ 64" using am by (simp add: amounts_ok_def)
  { assume c: "reader_code pc = Sys c f" and ans: "eventfd_system (hist s) (Reader, c, r)"
    obtain pc' where f: "f r (mem s) = (mem s, pc')"
      using reader_moves [OF c ok _ *(1) _ *(4,5) lim, of r "mem s"] ans *(3) ctx(3) by auto
    show "threads_left (goes (s\<lparr>hist := hist s @ [(Reader, c, r)]\<rparr>) Reader (map_prod id R (f r (mem s)))) < threads_left s"
      by (rule threads_left_reader [OF p, of _ pc'])
        (use reader_nearer [OF c ok(1), of r "mem s"] ans in \<open>simp_all add: f filled_def\<close>) }
  { assume c: "reader_code pc = Mem g"
    obtain pc' where g: "g (mem s) = (mem s, pc')" using reader_mem_moves [OF c ok *(1) ctx(2)] by blast
    show "threads_left (goes s Reader (map_prod id R (g (mem s)))) < threads_left s"
      by (rule threads_left_reader [OF p]) (use reader_mem_nearer [OF c ok(1) ctx(2)] in \<open>simp_all add: g filled_def\<close>) }
qed

text \<open>A reader that has not ended can go on.\<close>

lemma reader_answered:
  assumes "reader_code pc = Sys c f" "reader_ok E (\<lambda>ep. watched ep (calls h)) (\<lambda>fd. counter fd (calls h)) pc"
    and "size (live (calls h)) \<le> 5"
  shows "\<exists>r. eventfd_works h (Reader, c, r)"
proof (cases pc)
  case R_create
  obtain fd where "0 \<le> fd" "fd < 2 ^ 31" "fd \<notin># live (calls h)" using spare_descriptor [OF assms(3)] by blast
  with R_create assms show ?thesis
    by (intro exI [of _ "says fd"]) (auto simp: eventfd_works_def gives_def)
next
  case (R_wait ep buf)
  show ?thesis
  proof (cases "\<forall>fd\<in>watched ep (calls h). counter fd (calls h) = 0")
    case True
    with R_wait assms show ?thesis by (intro exI [of _ "says 0"]) (auto simp: eventfd_works_def gives_def)
  next
    case False
    then obtain fd where "fd \<in> watched ep (calls h)" "0 < counter fd (calls h)" by auto
    with R_wait assms show ?thesis
      by (intro exI [of _ "gives 1 [] [fd]"]) (auto simp: eventfd_works_def gives_def MAX_EVENTS_foo_def)
  qed
next
  case (R_read ep buf fds)
  with assms(1) obtain fd rest where fds: "fds = fd # rest" "c = Read fd 8" by (cases fds) auto
  with R_read assms(2) show ?thesis
    by (intro exI [of _ "gives 8 (le_bytes 8 (counter fd (calls h))) []"])
      (auto simp: polls_def eventfd_works_def gives_def)
qed (use assms in \<open>auto intro!: exI [of _ "says 0"] simp: eventfd_works_def gives_def\<close>)

lemma reader_progress:
  assumes inv: "foo_inv s" and none: "exited s = None" and p: "pool s Reader = Some (R pc)" and pc: "pc \<noteq> R_end"
  shows "\<exists>s'. sys_step foo_code eventfd_works s s'"
proof -
  from inv none obtain mpc H L where
    *: "length (efds (mem s)) = efd_num" "main_ok (mem s) mpc H" "live (calls (hist s)) = H + L" "size L \<le> 1"
    and oth: "others_ok (mem s) (pool s) (hist s) mpc L"
    unfolding foo_inv_def by blast
  note ctx = reader_context [OF oth p *(2)]
  have sz: "size (live (calls (hist s))) \<le> 5" using *(1,3,4) ctx(3) by (simp add: efd_num_def)
  from oth p have ok: "reader_ok (efds (mem s)) (\<lambda>ep. watched ep (calls (hist s))) (\<lambda>fd. counter fd (calls (hist s))) pc"
    by (auto simp: others_ok_def)
  from reader_has_action [OF pc] show ?thesis
  proof (elim disjE exE)
    fix c f assume c: "reader_code pc = Sys c f"
    then have code: "foo_code (R pc) = Sys c (\<lambda>r m. map_prod id R (f r m))" by (simp add: fun_eq_iff)
    from reader_answered [OF c ok sz] obtain r where "eventfd_works (hist s) (Reader, c, r)" ..
    from sys_step.sys [where code = foo_code and pc = "R pc" and env = eventfd_works, OF none p code this] show ?thesis ..
  next
    fix g assume "reader_code pc = Mem g"
    then have code: "foo_code (R pc) = Mem (\<lambda>m. map_prod id R (g m))" by (simp add: fun_eq_iff)
    from sys_step.mem [where code = foo_code and pc = "R pc" and env = eventfd_works, OF none p code] show ?thesis ..
  qed
qed

section \<open>The main thread\<close>

lemma works_system: "eventfd_works h e \<Longrightarrow> eventfd_system h e"
  by (simp add: eventfd_works_def)

lemma foo_inv_works: "foo_inv s \<Longrightarrow> sys_step foo_code eventfd_works s s' \<Longrightarrow> foo_inv s'"
  by (rule foo_inv_kept) (auto intro: sys_step_mono works_system)

lemma threads_left_grows:
  assumes "\<And>t. t \<noteq> Main \<Longrightarrow> t \<noteq> u \<Longrightarrow> pool s' t = pool s t" "pc_left (pool s' u) \<le> 309" "foo_inv s'"
  shows "threads_left s' < threads_left s + 2000"
proof -
  have "pc_left (pool s' t) \<le> pc_left (pool s t) + (if t = u then 309 else 0)" if "t \<noteq> Main" for t
    using assms(1) [OF that] assms(2) by (cases "t = u") simp_all
  from this [of "Writer 0"] this [of "Writer 1"] this [of "Writer 2"] this [of Reader]
  have "pc_left (pool s' (Writer 0)) + pc_left (pool s' (Writer 1)) + pc_left (pool s' (Writer 2)) + pc_left (pool s' Reader)
      \<le> pc_left (pool s (Writer 0)) + pc_left (pool s (Writer 1)) + pc_left (pool s (Writer 2)) + pc_left (pool s Reader) + 4 * 309"
    by (simp split: if_splits)
  moreover have "filled s' \<le> 3" using filled_le [of s'] assms(3) by (auto simp: foo_inv_def efd_num_def)
  ultimately show ?thesis by (simp add: threads_left_def)
qed

lemma main_nearer:
  assumes "exited s = None" "pool s Main = Some (M pc)" "exited s' = None" "pool s' Main = Some (M pc')" "main_left pc' < main_left pc"
    and "threads_left s' < threads_left s + 2000"
  shows "foo_left s' < foo_left s"
  using assms by (simp add: foo_left_def)

text \<open>What \<open>main\<close> does next brings it nearer to its end, whatever the answer.\<close>

lemma main_call_nearer:
  "main_code pc = Sys c f \<Longrightarrow> main_ok m pc H \<Longrightarrow> \<exists>m' pc'. f r m = (m', M pc') \<and> main_left pc' < main_left pc"
  by (cases pc) (auto simp: efd_num_def split: nat.splits)

lemma main_mem_nearer:
  "main_code pc = Mem g \<Longrightarrow> main_ok m pc H \<Longrightarrow> \<exists>m' pc'. g m = (m', M pc') \<and> main_left pc' < main_left pc"
  by (cases pc) (auto simp: efd_num_def split: nat.splits)

lemma main_spawn_nearer:
  "main_code pc = Spawn u start k \<Longrightarrow> main_ok m pc H \<Longrightarrow>
     u \<noteq> Main \<and> u \<notin> may_run pc \<and> pc_left (Some start) \<le> 309 \<and> (\<exists>pc'. k e m = (m, M pc') \<and> main_left pc' < main_left pc)"
  by (cases pc) (auto simp: efd_num_def split: nat.splits)

lemma main_join_nearer:
  "main_code pc = Join u k \<Longrightarrow> main_ok m pc H \<Longrightarrow>
     (u = Reader \<or> (\<exists>i. u = Writer i)) \<and> (\<exists>pc'. k e m = (m, M pc') \<and> main_left pc' < main_left pc)"
  by (cases pc) (auto simp: efd_num_def split: nat.splits)

lemma no_thread_calls:
  "map_action id R (reader_code rpc) \<noteq> Spawn u start k" "map_action id R (reader_code rpc) \<noteq> Join u k'"
  "map_action id R (reader_code rpc) \<noteq> Exit rc"
  "map_action id W (writer_code wpc) \<noteq> Spawn u start k" "map_action id W (writer_code wpc) \<noteq> Join u k'"
  "map_action id W (writer_code wpc) \<noteq> Exit rc"
  by (cases rpc; auto split: list.splits; fail)+ (cases wpc; auto)+

section \<open>Every step\<close>

lemma foo_decreases:
  assumes inv: "foo_inv s" and st: "sys_step foo_code eventfd_system s s'"
  shows "foo_left s' < foo_left s"
proof (cases "exited s' = None")
  case False
  then have "foo_left s' = 0" by (auto simp: foo_left_def)
  moreover have "exited s = None" using st by cases
  ultimately show ?thesis by (simp add: foo_left_def)
next
  case True
  have none: "exited s = None" using st by cases
  from inv none obtain mpc H L where main: "pool s Main = Some (M mpc)" "main_ok (mem s) mpc H"
    unfolding foo_inv_def by blast
  have inv': "foo_inv s'" by (rule foo_inv_kept [OF inv st])
  \<comment> \<open>A step of \<open>main\<close> that changes no thread but \<open>u\<close>.\<close>
  have near: ?thesis if "pool s' Main = Some (M pc')" "main_left pc' < main_left mpc"
      "\<And>t. t \<noteq> Main \<Longrightarrow> t \<noteq> u \<Longrightarrow> pool s' t = pool s t" "pc_left (pool s' u) \<le> 309" for pc' u
    using main_nearer [OF none main(1) True that(1,2) threads_left_grows [OF that(3,4) inv']] .
  \<comment> \<open>A step of another thread.\<close>
  have thread: ?thesis if "threads_left s' < threads_left s" "pool s' Main = pool s Main"
    using that none True main(1) by (auto simp: foo_left_def)
  from st show ?thesis
  proof cases
    case (sys t pc c f r)
    from foo_pool_kinds [OF inv sys(3)] show ?thesis
    proof (elim disjE exE conjE)
      fix mpc' assume t: "t = Main" "pc = M mpc'"
      with sys main have c: "main_code mpc = Sys c f" by simp
      from main_call_nearer [OF c main(2), of r] obtain m' pc' where "f r (mem s) = (m', M pc')" "main_left pc' < main_left mpc" by blast
      with sys(1) t show ?thesis by (intro near [of pc' Main]) simp_all
    next
      fix rpc assume t: "t = Reader" "pc = R rpc"
      with sys(4) obtain f' where f': "reader_code rpc = Sys c f'" "f = (\<lambda>r m. map_prod id R (f' r m))"
        by (cases "reader_code rpc") (auto simp: comp_def)
      from sys t reader_decreases(1) [OF inv none _ f'(1)] show ?thesis by (intro thread) (simp_all add: f'(2))
    next
      fix k wpc assume t: "t = Writer k" "pc = W wpc"
      with sys(4) obtain f' where f': "writer_code wpc = Sys c f'" "f = (\<lambda>r m. map_prod id W (f' r m))"
        by (cases "writer_code wpc") (auto simp: comp_def)
      from sys t writer_decreases(1) [OF inv none _ f'(1)] show ?thesis by (intro thread) (simp_all add: f'(2))
    qed
  next
    case (mem t pc g)
    from foo_pool_kinds [OF inv mem(3)] show ?thesis
    proof (elim disjE exE conjE)
      fix mpc' assume t: "t = Main" "pc = M mpc'"
      with mem main have c: "main_code mpc = Mem g" by simp
      from main_mem_nearer [OF c main(2)] obtain m' pc' where "g (sys.mem s) = (m', M pc')" "main_left pc' < main_left mpc" by blast
      with mem(1) t show ?thesis by (intro near [of pc' Main]) simp_all
    next
      fix rpc assume t: "t = Reader" "pc = R rpc"
      with mem(4) obtain g' where g': "reader_code rpc = Mem g'" "g = (\<lambda>m. map_prod id R (g' m))"
        by (cases "reader_code rpc") (auto simp: comp_def)
      from mem t reader_decreases(2) [OF inv none _ g'(1)] show ?thesis by (intro thread) (simp_all add: g'(2))
    next
      fix k wpc assume t: "t = Writer k" "pc = W wpc"
      with mem(4) obtain g' where g': "writer_code wpc = Mem g'" "g = (\<lambda>m. map_prod id W (g' m))"
        by (cases "writer_code wpc") (auto simp: comp_def)
      from mem t writer_decreases(2) [OF inv none _ g'(1)] show ?thesis by (intro thread) (simp_all add: g'(2))
    qed
  next
    case (spawn t pc u start k)
    from foo_pool_kinds [OF inv spawn(3)] spawn(4) no_thread_calls have t: "t = Main" "pc = M mpc" using spawn(3) main by auto
    with spawn have c: "main_code mpc = Spawn u start k" by simp
    from main_spawn_nearer [OF c main(2), of 0] spawn(1) t show ?thesis by (elim conjE exE) (intro near [of _ u]; simp)
  next
    case (spawn_fails t pc u start k e)
    from foo_pool_kinds [OF inv spawn_fails(3)] spawn_fails(4) no_thread_calls have t: "t = Main" "pc = M mpc"
      using spawn_fails(3) main by auto
    with spawn_fails have c: "main_code mpc = Spawn u start k" by simp
    from main_spawn_nearer [OF c main(2), of e] spawn_fails(1) t show ?thesis by (elim conjE exE) (intro near [of _ Main]; simp)
  next
    case (join t pc u k pc')
    from foo_pool_kinds [OF inv join(3)] join(4) no_thread_calls have t: "t = Main" "pc = M mpc" using join(3) main by auto
    with join have c: "main_code mpc = Join u k" by simp
    from main_join_nearer [OF c main(2), of 0] join(1) t show ?thesis by (elim conjE exE) (intro near [of _ u]; auto)
  next
    case (join_fails t pc u k e)
    from foo_pool_kinds [OF inv join_fails(3)] join_fails(4) no_thread_calls have t: "t = Main" "pc = M mpc"
      using join_fails(3) main by auto
    with join_fails have c: "main_code mpc = Join u k" by simp
    from main_join_nearer [OF c main(2), of e] join_fails(1) t show ?thesis by (elim conjE exE) (intro near [of _ Main]; simp)
  next
    case (exits t pc rc)
    with True show ?thesis by simp
  qed
qed

section \<open>No deadlock\<close>

lemma main_answered:
  assumes "main_code pc = Sys c f" "size (live (calls h)) \<le> 5"
  shows "\<exists>r. eventfd_works h (Main, c, r)"
proof (cases pc)
  case (M_malloc n)
  with assms show ?thesis by (intro exI [of _ "says 1"]) (auto simp: eventfd_works_def gives_def)
next
  case (M_eventfd i)
  obtain fd where "0 \<le> fd" "fd < 2 ^ 31" "fd \<notin># live (calls h)" using spare_descriptor [OF assms(2)] by blast
  with M_eventfd assms show ?thesis
    by (intro exI [of _ "says fd"]) (auto simp: eventfd_works_def gives_def)
qed (use assms in \<open>auto intro!: exI [of _ "says 0"] simp: eventfd_works_def gives_def split: nat.splits\<close>)

lemma foo_goes_on:
  assumes inv: "foo_inv s" and none: "exited s = None"
  shows "\<exists>s'. sys_step foo_code eventfd_works s s'"
proof -
  from inv none obtain pc H L where
    *: "pool s Main = Some (M pc)" "length (efds (mem s)) = efd_num" "main_ok (mem s) pc H"
       "live (calls (hist s)) = H + L" "size L \<le> 1"
    and oth: "others_ok (mem s) (pool s) (hist s) pc L"
    unfolding foo_inv_def by blast
  have "size H \<le> 4" using *(2,3) by (cases pc) (auto simp: efd_num_def)
  with *(4,5) have sz: "size (live (calls (hist s))) \<le> 5" by simp
  note step = sys_step.intros [where code = foo_code and pc = "M pc" and env = eventfd_works and t = Main, OF none *(1)]
  have code: "foo_code (M pc) = main_code pc" by simp
  show ?thesis
  proof (cases "main_code pc")
    case (Sys c f)
    with main_answered [OF Sys sz] show ?thesis using step(1) [OF code [unfolded Sys]] by blast
  next
    case (Mem g)
    show ?thesis using step(2) [OF code [unfolded Mem]] by blast
  next
    case (Spawn u start k)
    then have "u \<noteq> Main" "u \<notin> may_run pc" using main_spawn_nearer [OF Spawn *(3)] by blast+
    then have "pool s u = None" using oth by (cases "pool s u") (auto simp: others_ok_def)
    then show ?thesis using step(3) [OF code [unfolded Spawn]] by blast
  next
    case (Join u k)
    show ?thesis
    proof (cases "pool s u")
      case None
      show ?thesis using step(6) [OF code [unfolded Join] None one_neq_zero] by blast
    next
      case (Some p)
      from main_join_nearer [OF Join *(3)] have u: "u = Reader \<or> (\<exists>i. u = Writer i)" by blast
      show ?thesis
      proof (cases "foo_code p = Ended")
        case True
        show ?thesis using step(5) [OF code [unfolded Join] _ Some True] u by blast
      next
        case False
        with foo_pool_kinds [OF inv Some] u Some reader_progress [OF inv none] writer_progress [OF inv none]
        show ?thesis by fastforce
      qed
    qed
  next
    case (Exit rc)
    show ?thesis using step(7) [OF code [unfolded Exit]] by blast
  next
    case Ended
    then show ?thesis by (cases pc) (auto split: nat.splits)
  qed
qed

lemma foo_progress:
  assumes "foo_inv s" "exited s = None"
  shows "\<exists>s'. sys_step foo_code eventfd_works s s' \<and> foo_left s' < foo_left s"
  using foo_goes_on [OF assms] foo_decreases [OF assms(1)]
    sys_step_mono [where good = eventfd_works and env = eventfd_system, OF _ works_system] by blast

interpretation foo_ends: terminating_system foo_code eventfd_works foo_inv foo_left eventfd_system
  by unfold_locales (auto intro: foo_inv_works foo_progress foo_inv_kept foo_decreases)


lemma foo_exit_codes: "foo_inv s \<Longrightarrow> exited s = Some rc \<Longrightarrow> rc = 0 \<or> rc = 1"
  unfolding foo_inv_def by auto

section \<open>Results\<close>



text \<open>
  The program is never stuck, in no interleaving and after no failure: from every reachable state a
  run in which the system answers as documented, and no further call fails, leads to the program's
  end.  In particular the reader never blocks in a \<open>read\<close>, no writer blocks on a full counter, and
  \<open>main\<close> is never left waiting for a thread that does not end.
\<close>

theorem eventfd_always_can_end:
  assumes "length (efds m) = 3" "length (write_params m) = 3" "reachable foo_code eventfd_system (foo_start m) s"
  shows "\<exists>s' rc. (sys_step foo_code eventfd_works)\<^sup>*\<^sup>* s s' \<and> exited s' = Some rc \<and> (rc = 0 \<or> rc = 1)"
proof -
  from foo_ends.can_end [OF foo_reached [OF assms]] obtain s' where
    s': "(sys_step foo_code eventfd_works)\<^sup>*\<^sup>* s s'" "exited s' \<noteq> None" "foo_inv s'" by blast
  with foo_exit_codes [OF s'(3)] show ?thesis by blast
qed

theorem eventfd_always_can_end_witness:
  "\<exists>(s :: foo_sys) s' rc. hist s = sample_hist \<and> (sys_step foo_code eventfd_works)\<^sup>*\<^sup>* s s' \<and> exited s' = Some rc"
proof -
  from sample_waits obtain s where s: "reachable foo_code eventfd_system (foo_start sample_mem) s" "hist s = sample_hist" by blast
  with eventfd_always_can_end [OF _ _ s(1)] show ?thesis by (auto simp: sample_mem_def)
qed

end
