(* ===== verification/EfdSignal.thy ===== *)
theory EfdSignal
  imports Posix ModuleIface
begin

text \<open>
  \<open>src/linux/eventfd/efd_us.c\<close> and \<open>efd_lkm.c\<close>: a program that waits for its \<open>eventfd\<close>, and a module
  that is loaded with the program's process id and descriptor number and signals 123 to it.

  The module looks the descriptor up in the task's open files.  A file is an \<open>eventfd\<close> with its
  counter, or another one.  The kernel functions it calls behave as they are documented:
  \<open>pid_task\<close> and \<open>fcheck_files\<close> answer a null pointer when there is nothing, and
  \<open>eventfd_ctx_fileget\<close> answers an error pointer, not a null one, for a file of another kind.
\<close>

section \<open>The module\<close>

datatype efd_file = EventfdFile nat | OtherFile

text \<open>The open files of the tasks: \<open>None\<close> is no task, or a task without files.\<close>

type_synonym efd_files = "int \<Rightarrow> (int \<Rightarrow> efd_file option) option"

datatype 'a outcome = Done 'a | Oops

text \<open>
  \<open>eventfd_signal(ctx, n)\<close> adds \<open>n\<close> and stops at the largest 64-bit number.
\<close>

definition eventfd_signal :: "nat \<Rightarrow> nat \<Rightarrow> nat" where
  "eventfd_signal cnt n = (if 2 ^ 64 - 1 - cnt < n then 2 ^ 64 - 1 else cnt + n)"

definition efd_lkm_init :: "int \<Rightarrow> int \<Rightarrow> efd_files \<Rightarrow> (int \<times> efd_files) outcome" where
  "efd_lkm_init pid efd T =
     (case T pid of
        None \<Rightarrow> Oops
      | Some files \<Rightarrow>
          (case files efd of
             None \<Rightarrow> Oops
           | Some OtherFile \<Rightarrow> Oops
           | Some (EventfdFile n) \<Rightarrow> Done (0, T(pid \<mapsto> files(efd \<mapsto> EventfdFile (eventfd_signal n 123))))))"

section \<open>The program\<close>




section \<open>Results\<close>

text \<open>
  The module either signals the program or crashes the kernel: it adds 123 to the counter when the
  number names an open \<open>eventfd\<close> of an existing task, and in every other case (no such task, no such
  descriptor, a descriptor of another kind) it follows a null or error pointer; the check for a
  failed \<open>eventfd_ctx_fileget\<close> never takes effect, and no load ever ends with an error.
\<close>

theorem efd_lkm_signals_or_crashes:
  "(efd_lkm_init pid efd T = Oops \<longleftrightarrow> \<not> (\<exists>files n. T pid = Some files \<and> files efd = Some (EventfdFile n)))
   \<and> (efd_lkm_init pid efd T = Done (rc, T') \<longleftrightarrow> rc = 0 \<and>
     (\<exists>files n. T pid = Some files \<and> files efd = Some (EventfdFile n)
        \<and> T' = T(pid \<mapsto> files(efd \<mapsto> EventfdFile (eventfd_signal n 123)))))"
  by (auto simp: efd_lkm_init_def split: option.splits efd_file.splits)






end
