(* ===== verification/SpThread.thy ===== *)
theory SpThread
  imports Threads
begin

text \<open>
  \<open>src/linux/pthread/simple_pthread/spthread.c\<close>: threads are created and ended one by one on the
  user's keys.  The array \<open>args\<close> is shared; the handle of the thread in slot \<open>k\<close> is \<open>Slot k\<close>.
  \<open>current_nums\<close> is the argument of the program points of \<open>main\<close>.  The environment is arbitrary.
\<close>

definition MAX_THREAD :: nat where "MAX_THREAD = 10"

record sp_mem =
  running :: "int list"

datatype sp_thread = SpMain | Slot nat

datatype sp_main_pc =
    S_banner
  | S_getchar nat
  | S_full nat
  | S_run nat
  | S_create nat
  | S_create_err nat
  | S_none nat
  | S_stop nat
  | S_join nat
  | S_join_err nat
  | S_quit
  | S_exit

datatype sp_thread_pc =
    T_pid
  | T_tid int
  | T_self int int
  | T_enter int int int
  | T_check int int
  | T_sleep int int
  | T_leave int int
  | T_goodbye int int int
  | T_end

datatype sp_pc = SM sp_main_pc | ST nat sp_thread_pc

definition KEY_c :: int where "KEY_c = 99"
definition KEY_k :: int where "KEY_k = 107"
definition KEY_q :: int where "KEY_q = 113"

definition sp_banner :: string where
  "sp_banner = ''Enter:'' @ nl @ [CHR 0x27] @ ''c'' @ [CHR 0x27] @ '' create thread.'' @ nl @ [CHR 0x27] @ ''k'' @ [CHR 0x27]
     @ '' kill thread'' @ nl @ [CHR 0x27] @ ''q'' @ [CHR 0x27] @ '' quit'' @ nl @ nl"

text \<open>One key; every other one is ignored, and so is the end of the input.\<close>

definition sp_key :: "int \<Rightarrow> nat \<Rightarrow> sp_main_pc" where
  "sp_key ch n =
     (if ch = KEY_c then (if MAX_THREAD \<le> n then S_full n else S_run n)
      else if ch = KEY_k then (if n = 0 then S_none n else S_stop n)
      else if ch = KEY_q then S_quit
      else S_getchar n)"

primrec sp_main_code :: "sp_main_pc \<Rightarrow> (sp_thread, sp_mem, sp_pc) action" where
  "sp_main_code S_banner = Sys (Out sp_banner) (\<lambda>r m. (m, SM (S_getchar 0)))"
| "sp_main_code (S_getchar n) = Sys Getchar (\<lambda>r m. (m, SM (sp_key (rv r) n)))"
| "sp_main_code (S_full n) = Sys (Out (''pthread nums is :'' @ fmt_d (int n) @ '', cannot kill'' @ nl)) (\<lambda>r m. (m, SM (S_getchar n)))"
| "sp_main_code (S_run n) = Mem (\<lambda>m. (m\<lparr>running := (running m)[n := 1]\<rparr>, SM (S_create n)))"
| "sp_main_code (S_create n) = Spawn (Slot n) (ST n T_pid) (\<lambda>ret m. (m, SM (if ret \<noteq> 0 then S_create_err n else S_getchar (Suc n))))"
| "sp_main_code (S_create_err n) = Sys (Perror ''pthread_create'') (\<lambda>r m. (m, SM (S_getchar n)))"
| "sp_main_code (S_none n) = Sys (Out (''pthread nums is '' @ fmt_d (int n) @ '', cannot kill'' @ nl)) (\<lambda>r m. (m, SM (S_getchar n)))"
| "sp_main_code (S_stop n) = Mem (\<lambda>m. (m\<lparr>running := (running m)[n - 1 := 0]\<rparr>, SM (S_join n)))"
| "sp_main_code (S_join n) = Join (Slot (n - 1)) (\<lambda>ret m. (m, SM (if ret \<noteq> 0 then S_join_err n else S_getchar (n - 1))))"
| "sp_main_code (S_join_err n) = Sys (Err (''pthread_join'' @ nl)) (\<lambda>r m. (m, SM (S_getchar n)))"
| "sp_main_code S_quit = Sys (Out (''main exit!'' @ nl)) (\<lambda>r m. (m, SM S_exit))"
| "sp_main_code S_exit = Exit 0"

text \<open>\<open>this_arg\<close> is \<open>&args[k]\<close>.\<close>

primrec thread_func :: "nat \<Rightarrow> sp_thread_pc \<Rightarrow> (sp_thread, sp_mem, sp_thread_pc) action" where
  "thread_func k T_pid = Sys Getpid (\<lambda>r m. (m, T_tid (rv r)))"
| "thread_func k (T_tid pid) = Sys Gettid (\<lambda>r m. (m, T_self pid (rv r)))"
| "thread_func k (T_self pid tid) = Sys ThreadSelf (\<lambda>r m. (m, T_enter pid tid (rv r)))"
| "thread_func k (T_enter pid tid self) = Sys (Out (''thread '' @ fmt_u (c_ulong self) @ '' enter pid:'' @ fmt_u (c_uint pid)
     @ '' tid:'' @ fmt_u (c_uint tid) @ nl)) (\<lambda>r m. (m, T_check pid tid))"
| "thread_func k (T_check pid tid) = Mem (\<lambda>m. (m, if running m ! k \<noteq> 0 then T_sleep pid tid else T_leave pid tid))"
| "thread_func k (T_sleep pid tid) = Sys (Sleep 1) (\<lambda>r m. (m, T_check pid tid))"
| "thread_func k (T_leave pid tid) = Sys ThreadSelf (\<lambda>r m. (m, T_goodbye pid tid (rv r)))"
| "thread_func k (T_goodbye pid tid self) = Sys (Out (''thread '' @ fmt_u (c_ulong self) @ '' exit pid'' @ fmt_u (c_uint pid)
     @ '' tid:'' @ fmt_u (c_uint tid) @ nl)) (\<lambda>r m. (m, T_end))"
| "thread_func k T_end = Ended"

primrec sp_code :: "sp_pc \<Rightarrow> (sp_thread, sp_mem, sp_pc) action" where
  "sp_code (SM pc) = sp_main_code pc"
| "sp_code (ST k pc) = map_action id (ST k) (thread_func k pc)"

type_synonym sp_sys = "(sp_thread, sp_mem, sp_pc) sys"
type_synonym sp_hist = "(sp_thread \<times> ucall \<times> reply) list"

definition sp_start :: sp_sys where
  "sp_start = boot SpMain (SM S_banner) \<lparr>running = replicate MAX_THREAD 0\<rparr>"

definition any_answer :: "sp_hist \<Rightarrow> sp_thread \<times> ucall \<times> reply \<Rightarrow> bool" where
  "any_answer h e = True"

lemma any_answer_simp [simp]: "any_answer h e"
  by (simp add: any_answer_def)

section \<open>The invariant\<close>

text \<open>\<open>current_nums\<close> at a program point.\<close>

primrec nums :: "sp_main_pc \<Rightarrow> nat option" where
  "nums S_banner = Some 0"
| "nums (S_getchar n) = Some n"
| "nums (S_full n) = Some n"
| "nums (S_run n) = Some n"
| "nums (S_create n) = Some n"
| "nums (S_create_err n) = Some n"
| "nums (S_none n) = Some n"
| "nums (S_stop n) = Some n"
| "nums (S_join n) = Some n"
| "nums (S_join_err n) = None"
| "nums S_quit = None"
| "nums S_exit = None"

definition asked_to_quit :: "sp_hist \<Rightarrow> bool" where
  "asked_to_quit h \<longleftrightarrow> (\<exists>r. (SpMain, Getchar, r) \<in> set h \<and> rv r = KEY_q)"

primrec sp_main_ok :: "int list \<Rightarrow> bool \<Rightarrow> sp_main_pc \<Rightarrow> bool" where
  "sp_main_ok F q S_banner = True"
| "sp_main_ok F q (S_getchar n) = (n \<le> MAX_THREAD)"
| "sp_main_ok F q (S_full n) = (n \<le> MAX_THREAD)"
| "sp_main_ok F q (S_run n) = (n < MAX_THREAD)"
| "sp_main_ok F q (S_create n) = (n < MAX_THREAD \<and> F ! n = 1)"
| "sp_main_ok F q (S_create_err n) = (n \<le> MAX_THREAD)"
| "sp_main_ok F q (S_none n) = (n = 0)"
| "sp_main_ok F q (S_stop n) = (0 < n \<and> n \<le> MAX_THREAD)"
| "sp_main_ok F q (S_join n) = (0 < n \<and> n \<le> MAX_THREAD \<and> F ! (n - 1) = 0)"
| "sp_main_ok F q (S_join_err n) = False"
| "sp_main_ok F q S_quit = q"
| "sp_main_ok F q S_exit = q"

primrec leaving :: "sp_thread_pc \<Rightarrow> bool" where
  "leaving T_pid = False"
| "leaving (T_tid p) = False"
| "leaving (T_self p t) = False"
| "leaving (T_enter p t s) = False"
| "leaving (T_check p t) = False"
| "leaving (T_sleep p t) = False"
| "leaving (T_leave p t) = True"
| "leaving (T_goodbye p t s) = True"
| "leaving T_end = True"

text \<open>The threads that exist are those of the first \<open>current_nums\<close> slots.\<close>

definition slots_ok :: "int list \<Rightarrow> (sp_thread \<Rightarrow> sp_pc option) \<Rightarrow> sp_main_pc \<Rightarrow> bool" where
  "slots_ok F P pc \<longleftrightarrow>
     (\<forall>n. nums pc = Some n \<longrightarrow> (\<forall>k. P (Slot k) \<noteq> None \<longleftrightarrow> k < n) \<and> (\<forall>k<n. pc \<noteq> S_join (Suc k) \<longrightarrow> F ! k = 1))
   \<and> (\<forall>k p. P (Slot k) = Some p \<longrightarrow> (\<exists>tp. p = ST k tp \<and> (leaving tp \<longrightarrow> nums pc \<noteq> None \<longrightarrow> pc = S_join (Suc k))))"

definition sp_inv :: "sp_sys \<Rightarrow> bool" where
  "sp_inv s \<longleftrightarrow> (\<exists>pc. pool s SpMain = Some (SM pc) \<and> length (running (mem s)) = MAX_THREAD
     \<and> sp_main_ok (running (mem s)) (asked_to_quit (hist s)) pc \<and> slots_ok (running (mem s)) (pool s) pc
     \<and> (\<forall>rc. exited s = Some rc \<longrightarrow> pc = S_exit \<and> rc = 0))"


section \<open>Every step keeps it\<close>

lemma asked_to_quit_append [simp]:
  "asked_to_quit [] = False"
  "asked_to_quit (h @ [(t, c, r)]) \<longleftrightarrow> asked_to_quit h \<or> t = SpMain \<and> c = Getchar \<and> rv r = KEY_q"
  by (auto simp: asked_to_quit_def)

lemma sp_main_ok_mono: "sp_main_ok F q pc \<Longrightarrow> (q \<Longrightarrow> q') \<Longrightarrow> sp_main_ok F q' pc"
  by (cases pc) auto

lemma sp_inv_start: "sp_inv sp_start"
  by (simp add: sp_inv_def sp_start_def boot_def slots_ok_def)

lemma thread_func_moves:
  "thread_func k pc = Sys c f \<Longrightarrow> \<exists>pc'. f r m = (m, pc') \<and> (leaving pc' \<longrightarrow> leaving pc)"
  "thread_func k pc = Mem g \<Longrightarrow> \<exists>pc'. g m = (m, pc') \<and> (leaving pc' \<longrightarrow> leaving pc \<or> running m ! k = 0)"
  by (cases pc; auto)+

lemma sp_thread_kept:
  assumes inv: "sp_inv s" and none: "exited s = None" and p: "pool s (Slot k) = Some (ST j pc)"
    and moved: "leaving pc' \<longrightarrow> leaving pc \<or> running (mem s) ! k = 0"
    and s': "mem s' = mem s" "pool s' = (pool s)(Slot k \<mapsto> ST k pc')" "exited s' = exited s"
      "asked_to_quit (hist s) \<longrightarrow> asked_to_quit (hist s')"
  shows "sp_inv s'"
proof -
  from inv none obtain mpc where
    *: "pool s SpMain = Some (SM mpc)" "length (running (mem s)) = MAX_THREAD"
       "sp_main_ok (running (mem s)) (asked_to_quit (hist s)) mpc" "slots_ok (running (mem s)) (pool s) mpc"
    unfolding sp_inv_def by auto
  have lv: "leaving pc' \<longrightarrow> nums mpc \<noteq> None \<longrightarrow> mpc = S_join (Suc k)"
  proof (intro impI)
    assume l: "leaving pc'" and n: "nums mpc \<noteq> None"
    show "mpc = S_join (Suc k)"
    proof (cases "leaving pc")
      case True
      with *(4) p n show ?thesis unfolding slots_ok_def by blast
    next
      case False
      with moved l have "running (mem s) ! k = 0" by simp
      moreover obtain n where "nums mpc = Some n" using n by auto
      moreover have "k < n" using *(4) p \<open>nums mpc = Some n\<close> unfolding slots_ok_def by (metis option.distinct(1))
      ultimately show ?thesis using *(4) unfolding slots_ok_def by (metis zero_neq_one)
    qed
  qed
  have "slots_ok (running (mem s)) (pool s') mpc"
    unfolding slots_ok_def s'(2)
  proof (intro conjI allI impI)
    fix n i assume n: "nums mpc = Some n"
    then have "(pool s (Slot i) \<noteq> None) = (i < n)" using *(4) unfolding slots_ok_def by blast
    then show "(((pool s)(Slot k \<mapsto> ST k pc')) (Slot i) \<noteq> None) = (i < n)" using p by auto
  next
    fix n i assume "nums mpc = Some n" "i < n" "mpc \<noteq> S_join (Suc i)"
    then show "running (mem s) ! i = 1" using *(4) unfolding slots_ok_def by blast
  next
    fix i q assume q: "((pool s)(Slot k \<mapsto> ST k pc')) (Slot i) = Some q"
    show "\<exists>tp. q = ST i tp \<and> (leaving tp \<longrightarrow> nums mpc \<noteq> None \<longrightarrow> mpc = S_join (Suc i))"
    proof (cases "i = k")
      case True with q lv show ?thesis by auto
    next
      case False with q *(4) show ?thesis unfolding slots_ok_def by auto
    qed
  qed
  with * none s' sp_main_ok_mono [OF *(3)] show ?thesis unfolding sp_inv_def by auto
qed

lemma sp_kinds:
  assumes "sp_inv s" "pool s t = Some pc"
  shows "(\<exists>mpc. t = SpMain \<and> pc = SM mpc) \<or> (\<exists>k tp. t = Slot k \<and> pc = ST k tp)"
proof -
  from assms(1) obtain mpc where "pool s SpMain = Some (SM mpc)" "slots_ok (running (mem s)) (pool s) mpc"
    unfolding sp_inv_def by auto
  then show ?thesis
  proof (cases t)
    case (Slot k)
    with assms(2) \<open>slots_ok (running (mem s)) (pool s) mpc\<close> obtain tp where "pc = ST k tp"
      unfolding slots_ok_def by blast
    with Slot show ?thesis by simp
  qed (use assms(2) in auto)
qed

lemma sp_main_invI:
  assumes "pool s' SpMain = Some (SM pc)" "length (running (mem s')) = MAX_THREAD"
    "sp_main_ok (running (mem s')) (asked_to_quit (hist s')) pc" "slots_ok (running (mem s')) (pool s') pc" "exited s' = None"
  shows "sp_inv s'"
  using assms unfolding sp_inv_def by auto

text \<open>Steps of \<open>main\<close> that leave the slots and the flags alone.\<close>

lemma slots_ok_same:
  "slots_ok F P pc \<Longrightarrow> nums pc' = nums pc \<or> nums pc' = None \<Longrightarrow> (\<forall>n. pc \<noteq> S_join n) \<Longrightarrow> (\<forall>k. P' (Slot k) = P (Slot k)) \<Longrightarrow>
   slots_ok F P' pc'"
  unfolding slots_ok_def by (metis option.distinct(1))

lemma slots_ok_joined:
  assumes "slots_ok F P (S_join (Suc m))"
  shows "slots_ok F (P(Slot m := None, SpMain \<mapsto> x)) (S_getchar m)"
proof -
  have ex: "(P (Slot k) \<noteq> None) = (k < Suc m)" and fl: "k < m \<Longrightarrow> F ! k = 1" for k
    using assms unfolding slots_ok_def by auto
  have th: "\<exists>tp. p = ST k tp \<and> \<not> leaving tp" if "P (Slot k) = Some p" "k \<noteq> m" for k p
    using assms that unfolding slots_ok_def by fastforce
  show ?thesis unfolding slots_ok_def
    using ex fl th by (auto simp: less_Suc_eq)
qed

lemma sp_main_kept:
  assumes inv: "sp_inv s" and none: "exited s = None" and p: "pool s SpMain = Some (SM pc)"
  shows "sp_main_code pc = Sys c f \<Longrightarrow> sp_inv (goes (s\<lparr>hist := hist s @ [(SpMain, c, r)]\<rparr>) SpMain (f r (mem s)))"
    and "sp_main_code pc = Mem g \<Longrightarrow> sp_inv (goes s SpMain (g (mem s)))"
    and "sp_main_code pc = Spawn u st j \<Longrightarrow> sp_inv (goes (s\<lparr>pool := (pool s)(u \<mapsto> st)\<rparr>) SpMain (j 0 (mem s)))"
    and "sp_main_code pc = Spawn u st j \<Longrightarrow> e \<noteq> 0 \<Longrightarrow> sp_inv (goes s SpMain (j e (mem s)))"
    and "sp_main_code pc = Join u l \<Longrightarrow> pool s u \<noteq> None \<Longrightarrow> sp_inv (goes (s\<lparr>pool := (pool s)(u := None)\<rparr>) SpMain (l 0 (mem s)))"
    and "sp_main_code pc = Join u l \<Longrightarrow> pool s u \<noteq> None"
proof -
  from inv none p have
    *: "length (running (mem s)) = MAX_THREAD" "sp_main_ok (running (mem s)) (asked_to_quit (hist s)) pc"
       "slots_ok (running (mem s)) (pool s) pc"
    unfolding sp_inv_def by auto
  { assume c: "sp_main_code pc = Sys c f"
    have j: "\<forall>n. pc \<noteq> S_join n" using c by auto
    obtain pc' where pc': "f r (mem s) = (mem s, SM pc')" "nums pc' = nums pc \<or> nums pc' = None"
      "sp_main_ok (running (mem s)) (asked_to_quit (hist s @ [(SpMain, c, r)])) pc'"
      using c *(2) by (cases pc) (auto simp: sp_key_def)
    show "sp_inv (goes (s\<lparr>hist := hist s @ [(SpMain, c, r)]\<rparr>) SpMain (f r (mem s)))"
      by (rule sp_main_invI [of _ pc']) (use * pc' none slots_ok_same [OF *(3) pc'(2) j] in simp_all) }
  { assume c: "sp_main_code pc = Mem g"
    then consider n where "pc = S_run n" | n where "pc = S_stop n" by (cases pc) auto
    then show "sp_inv (goes s SpMain (g (mem s)))"
    proof cases
      case (1 n)
      have "slots_ok ((running (mem s))[n := 1]) ((pool s)(SpMain \<mapsto> x)) (S_create n)" for x
        using *(3) unfolding slots_ok_def 1 by (auto simp: nth_list_update)
      with 1 c * none show ?thesis by (intro sp_main_invI [of _ "S_create n"]) auto
    next
      case (2 n)
      have "slots_ok ((running (mem s))[n - 1 := 0]) ((pool s)(SpMain \<mapsto> x)) (S_join n)" for x
        using *(2,3) unfolding slots_ok_def 2 by (auto simp: nth_list_update; metis)
      with 2 c * none show ?thesis by (intro sp_main_invI [of _ "S_join n"]) auto
    qed }
  { assume c: "sp_main_code pc = Spawn u st j"
    then obtain n where n: "pc = S_create n" by (cases pc) auto
    have "slots_ok (running (mem s)) ((pool s)(Slot n \<mapsto> ST n T_pid, SpMain \<mapsto> x)) (S_getchar (Suc n))" for x
      using *(2,3) unfolding slots_ok_def n by (auto simp: less_Suc_eq)
    with n c * none show "sp_inv (goes (s\<lparr>pool := (pool s)(u \<mapsto> st)\<rparr>) SpMain (j 0 (mem s)))"
      by (intro sp_main_invI [of _ "S_getchar (Suc n)"]) auto
    assume "e \<noteq> 0"
    with n c * none slots_ok_same [OF *(3), of "S_create_err n"]
    show "sp_inv (goes s SpMain (j e (mem s)))" by (intro sp_main_invI [of _ "S_create_err n"]) auto }
  { assume c: "sp_main_code pc = Join u l"
    then obtain n where n: "pc = S_join n" "u = Slot (n - 1)" by (cases pc) auto
    have u: "pool s u \<noteq> None" using *(2,3) n unfolding slots_ok_def by auto
    then show "pool s u \<noteq> None" .
    have "slots_ok (running (mem s)) ((pool s)(Slot (n - 1) := None, SpMain \<mapsto> x)) (S_getchar (n - 1))" for x
      using slots_ok_joined [of "running (mem s)" "pool s" "n - 1"] *(2,3) n by simp
    with n c * none show "sp_inv (goes (s\<lparr>pool := (pool s)(u := None)\<rparr>) SpMain (l 0 (mem s)))"
      by (intro sp_main_invI [of _ "S_getchar (n - 1)"]) auto }
qed

lemma thread_func_no:
  "map_action id (ST k) (thread_func k tp) \<noteq> Spawn u st j" "map_action id (ST k) (thread_func k tp) \<noteq> Join u l"
  "map_action id (ST k) (thread_func k tp) \<noteq> Exit rc"
  by (cases tp; simp)+

lemma sp_inv_kept:
  assumes inv: "sp_inv s" and st: "sys_step sp_code any_answer s s'"
  shows "sp_inv s'"
  using st
proof cases
  case (sys t pc c f r)
  from sp_kinds [OF inv sys(3)] show ?thesis
  proof (elim disjE exE conjE)
    fix mpc assume "t = SpMain" "pc = SM mpc"
    with sys sp_main_kept(1) [OF inv sys(2), of mpc c f r] show ?thesis by simp
  next
    fix k tp assume t: "t = Slot k" "pc = ST k tp"
    with sys(4) obtain f' where f': "thread_func k tp = Sys c f'" "\<And>r m. f r m = map_prod id (ST k) (f' r m)"
      by (cases "thread_func k tp") auto
    obtain pc' where "f' r (mem s) = (mem s, pc')" "leaving pc' \<longrightarrow> leaving tp"
      using thread_func_moves(1) [OF f'(1), of r "mem s"] by blast
    with sys t f' show ?thesis by (intro sp_thread_kept [OF inv sys(2), of k k tp pc']) auto
  qed
next
  case (mem t pc g)
  from sp_kinds [OF inv mem(3)] show ?thesis
  proof (elim disjE exE conjE)
    fix mpc assume "t = SpMain" "pc = SM mpc"
    with mem sp_main_kept(2) [OF inv mem(2), of mpc g] show ?thesis by simp
  next
    fix k tp assume t: "t = Slot k" "pc = ST k tp"
    with mem(4) obtain f' where f': "thread_func k tp = Mem f'" "\<And>m. g m = map_prod id (ST k) (f' m)"
      by (cases "thread_func k tp") auto
    obtain pc' where "f' (sys.mem s) = (sys.mem s, pc')" "leaving pc' \<longrightarrow> leaving tp \<or> running (sys.mem s) ! k = 0"
      using thread_func_moves(2) [OF f'(1), of "sys.mem s"] by blast
    with mem t f' show ?thesis by (intro sp_thread_kept [OF inv mem(2), of k k tp pc']) auto
  qed
next
  case (spawn t pc u start k)
  with sp_kinds [OF inv spawn(3)] thread_func_no obtain mpc where "t = SpMain" "pc = SM mpc" by fastforce
  with spawn sp_main_kept(3) [OF inv spawn(2), of mpc u start k] show ?thesis by simp
next
  case (spawn_fails t pc u start k e)
  with sp_kinds [OF inv spawn_fails(3)] thread_func_no obtain mpc where "t = SpMain" "pc = SM mpc" by fastforce
  with spawn_fails sp_main_kept(4) [OF inv spawn_fails(2), of mpc u start k e] show ?thesis by simp
next
  case (join t pc u k pc')
  with sp_kinds [OF inv join(3)] thread_func_no obtain mpc where "t = SpMain" "pc = SM mpc" by fastforce
  with join sp_main_kept(5) [OF inv join(2), of mpc u k] show ?thesis by simp
next
  case (join_fails t pc u k e)
  with sp_kinds [OF inv join_fails(3)] thread_func_no obtain mpc where "t = SpMain" "pc = SM mpc" by fastforce
  with join_fails sp_main_kept(6) [OF inv join_fails(2), of mpc u k] show ?thesis by simp
next
  case (exits t pc rc)
  with sp_kinds [OF inv exits(3)] thread_func_no obtain mpc where t: "t = SpMain" "pc = SM mpc" by fastforce
  with exits have "mpc = S_exit" "rc = 0" by (cases mpc; simp)+
  with inv t exits show ?thesis unfolding sp_inv_def by auto
qed

interpretation sp: thread_system sp_code any_answer sp_start sp_inv
  by unfold_locales (auto intro: sp_inv_start sp_inv_kept)

section \<open>Results\<close>

text \<open>
  C10: The slots are kept in order: in every interleaving, as long as \<open>main\<close> takes keys, there are at most
  \<open>MAX_THREAD\<close> threads, they are those of the first \<open>current_nums\<close> slots, and none of them has left its
  loop; a thread is only ever created in a free slot, and the thread that \<open>main\<close> waits for exists, so the
  join never fails.
\<close>

theorem spthread_slots:
  assumes "reachable sp_code any_answer sp_start s" "pool s SpMain = Some (SM pc)"
  shows "(pc = S_getchar n \<longrightarrow> n \<le> MAX_THREAD \<and> (\<forall>k. pool s (Slot k) \<noteq> None \<longleftrightarrow> k < n)
           \<and> (\<forall>k<n. \<exists>tp. pool s (Slot k) = Some (ST k tp) \<and> \<not> leaving tp))
    \<and> (pc = S_create n \<longrightarrow> pool s (Slot n) = None) \<and> (pc = S_join n \<longrightarrow> pool s (Slot (n - 1)) \<noteq> None)
    \<and> pc \<noteq> S_join_err n"
proof -
  from sp.always [OF assms(1)] assms(2) have
    *: "sp_main_ok (running (mem s)) (asked_to_quit (hist s)) pc" "slots_ok (running (mem s)) (pool s) pc"
    unfolding sp_inv_def by auto
  have ex: "(pool s (Slot k) \<noteq> None) = (k < m)" if "nums pc = Some m" for k m
    using that *(2) unfolding slots_ok_def by blast
  have th: "\<exists>tp. pool s (Slot k) = Some (ST k tp) \<and> \<not> leaving tp" if pc: "pc = S_getchar n" "k < n" for k
  proof -
    have "pool s (Slot k) \<noteq> None" using ex [of n k] pc by simp
    then obtain p where p: "pool s (Slot k) = Some p" by blast
    with pc *(2) show ?thesis unfolding slots_ok_def by fastforce
  qed
  have cr: "pc = S_create n \<longrightarrow> pool s (Slot n) = None" and jn: "pc = S_join n \<longrightarrow> pool s (Slot (n - 1)) \<noteq> None"
    using ex [of n n] ex [of n "n - 1"] * by auto
  have gc: "pc = S_getchar n \<longrightarrow> n \<le> MAX_THREAD \<and> (\<forall>k. pool s (Slot k) \<noteq> None \<longleftrightarrow> k < n)"
    using ex [of n] * by auto
  show ?thesis using gc th cr jn *(1) by auto
qed

lemma sp_reach_step: "exec_all sp_code sp_start xs = Some s \<Longrightarrow> reachable sp_code any_answer sp_start s"
proof -
  have "allowed any_answer h es" for h es by (induction es arbitrary: h) simp_all
  then show "exec_all sp_code sp_start xs = Some s \<Longrightarrow> ?thesis"
    using exec_all_reachable [OF _ reachable.start] by blast
qed

definition gets :: "int \<Rightarrow> reply" where
  "gets n = \<lparr>rv = n, rdata = [], rfds = [], rerrno = 0, rpeer = InAddr 0 0\<rparr>"

lemmas sp_run_defs = sp_start_def boot_def gets_def sp_key_def KEY_c_def KEY_k_def KEY_q_def MAX_THREAD_def

theorem spthread_slots_witness:
  "\<exists>s :: sp_sys. pool s SpMain = Some (SM (S_getchar 2)) \<and> (\<forall>k. pool s (Slot k) \<noteq> None \<longleftrightarrow> k < 2)"
proof -
  let ?xs = "map (\<lambda>n. (SpMain, gets n)) [0, 99, 0, 0, 99, 0, 0]"
  let ?s = "the (exec_all sp_code sp_start ?xs)"
  have run: "exec_all sp_code sp_start ?xs = Some ?s" by (simp add: sp_run_defs)
  have pc: "pool ?s SpMain = Some (SM (S_getchar 2))" by (simp add: sp_run_defs numeral_2_eq_2)
  from spthread_slots [OF sp_reach_step [OF run] pc, of 2] have "\<forall>k. pool ?s (Slot k) \<noteq> None \<longleftrightarrow> k < 2" by blast
  with pc show ?thesis by - (rule exI [of _ ?s], rule conjI)
qed

text \<open>
  Only the key \<open>q\<close> ends the program, with success: no other key, no failing call and not the end of
  its input, after which it reads on for ever.
\<close>

theorem spthread_ends_by_q:
  assumes "reachable sp_code any_answer sp_start s"
  shows "(exited s = Some rc \<longrightarrow> rc = 0 \<and> (\<exists>r. (SpMain, Getchar, r) \<in> set (hist s) \<and> rv r = KEY_q))
    \<and> (exited s = None \<and> pool s SpMain = Some (SM (S_getchar n)) \<and> rv r = - 1 \<longrightarrow>
         sys_step sp_code any_answer s (s\<lparr>hist := hist s @ [(SpMain, Getchar, r)]\<rparr>))"
proof (intro conjI impI; (elim conjE)?)
  have i: "sp_inv s" using sp.always [OF assms] .
  assume "exited s = Some rc"
  then show "rc = 0" "\<exists>r. (SpMain, Getchar, r) \<in> set (hist s) \<and> rv r = KEY_q"
    using i unfolding sp_inv_def by (auto simp: asked_to_quit_def)
next
  assume a: "exited s = None" "pool s SpMain = Some (SM (S_getchar n))" "rv r = - 1"
  have "sys_step sp_code any_answer s
      (goes (s\<lparr>hist := hist s @ [(SpMain, Getchar, r)]\<rparr>) SpMain ((\<lambda>r m. (m, SM (sp_key (rv r) n))) r (mem s)))"
    by (rule sys_step.sys [OF a(1,2)]) simp_all
  with a show "sys_step sp_code any_answer s (s\<lparr>hist := hist s @ [(SpMain, Getchar, r)]\<rparr>)"
    by (simp add: goes_def sp_key_def KEY_c_def KEY_k_def KEY_q_def fun_upd_idem)
qed

theorem spthread_ends_by_q_witness:
  "\<exists>s :: sp_sys. exited s = Some 0 \<and> (\<exists>r. (SpMain, Getchar, r) \<in> set (hist s) \<and> rv r = KEY_q)"
proof -
  let ?xs = "map (\<lambda>n. (SpMain, gets n)) [0, 113, 0, 0]"
  let ?s = "the (exec_all sp_code sp_start ?xs)"
  have run: "exec_all sp_code sp_start ?xs = Some ?s" by (simp add: sp_run_defs)
  have e: "exited ?s = Some 0" by (simp add: sp_run_defs)
  with spthread_ends_by_q [OF sp_reach_step [OF run], of 0]
  have "\<exists>r. (SpMain, Getchar, r) \<in> set (hist ?s) \<and> rv r = KEY_q" by blast
  with e show ?thesis by - (rule exI [of _ ?s], rule conjI)
qed

section \<open>The program can end\<close>

text \<open>
  The steps left when \<open>q\<close> is pressed next: those of \<open>main\<close>, and those of the thread that it waits for or is
  about to wait for, whose flag is off.
\<close>

primrec sp_main_left :: "sp_main_pc \<Rightarrow> nat" where
  "sp_main_left S_banner = 4"
| "sp_main_left (S_getchar n) = 3"
| "sp_main_left (S_full n) = 4"
| "sp_main_left (S_run n) = 5"
| "sp_main_left (S_create n) = 4"
| "sp_main_left (S_create_err n) = 4"
| "sp_main_left (S_none n) = 4"
| "sp_main_left (S_stop n) = 20"
| "sp_main_left (S_join n) = 4"
| "sp_main_left (S_join_err n) = 4"
| "sp_main_left S_quit = 2"
| "sp_main_left S_exit = 1"

primrec sp_thread_left :: "sp_thread_pc \<Rightarrow> nat" where
  "sp_thread_left T_pid = 8"
| "sp_thread_left (T_tid p) = 7"
| "sp_thread_left (T_self p t) = 6"
| "sp_thread_left (T_enter p t s) = 5"
| "sp_thread_left (T_check p t) = 4"
| "sp_thread_left (T_sleep p t) = 5"
| "sp_thread_left (T_leave p t) = 3"
| "sp_thread_left (T_goodbye p t s) = 2"
| "sp_thread_left T_end = 1"

definition sp_waited_left :: "sp_main_pc \<Rightarrow> (sp_thread \<Rightarrow> sp_pc option) \<Rightarrow> nat" where
  "sp_waited_left pc P = (case pc of
     S_join n \<Rightarrow> (case P (Slot (n - 1)) of Some (ST k tp) \<Rightarrow> sp_thread_left tp | _ \<Rightarrow> 0)
   | _ \<Rightarrow> 0)"

definition sp_left :: "sp_sys \<Rightarrow> nat" where
  "sp_left s = (case exited s of Some rc \<Rightarrow> 0 | None \<Rightarrow>
     (case pool s SpMain of Some (SM pc) \<Rightarrow> Suc (sp_main_left pc + sp_waited_left pc (pool s)) | _ \<Rightarrow> 0))"

lemma sp_thread_left_bound: "sp_thread_left tp \<le> 8"
  by (cases tp) simp_all

lemma sp_thread_nearer:
  "thread_func k tp = Sys c f \<Longrightarrow> \<exists>tp'. f r m = (m, tp') \<and> sp_thread_left tp' < sp_thread_left tp"
  "thread_func k tp = Mem g \<Longrightarrow> running m ! k = 0 \<Longrightarrow> \<exists>tp'. g m = (m, tp') \<and> sp_thread_left tp' < sp_thread_left tp"
  by (cases tp; auto)+

text \<open>While \<open>main\<close> waits, the thread it waits for comes nearer to its end, or has ended.\<close>

lemma sp_waited_goes_on:
  assumes "exited s = None" "pool s SpMain = Some (SM (S_join (Suc k)))" "pool s (Slot k) = Some (ST k tp)" "tp \<noteq> T_end"
    and "running (mem s) ! k = 0"
  shows "\<exists>s'. sys_step sp_code any_answer s s' \<and> sp_left s' < sp_left s"
proof (cases "thread_func k tp")
  case (Sys c f)
  let ?r = "\<lparr>rv = 0, rdata = [], rfds = [], rerrno = 0, rpeer = InAddr 0 0\<rparr> :: reply"
  obtain tp' where tp': "f ?r (mem s) = (mem s, tp')" "sp_thread_left tp' < sp_thread_left tp"
    using sp_thread_nearer(1) [OF Sys, of ?r "mem s"] by blast
  show ?thesis
    by (rule nearer_by(1) [OF assms(1,3), of sp_code c "\<lambda>r m. map_prod id (ST k) (f r m)" _ ?r])
      (use assms tp' in \<open>simp_all add: Sys fun_eq_iff sp_left_def sp_waited_left_def\<close>)
next
  case (Mem g)
  obtain tp' where tp': "g (mem s) = (mem s, tp')" "sp_thread_left tp' < sp_thread_left tp"
    using sp_thread_nearer(2) [OF Mem assms(5)] by blast
  show ?thesis
    by (rule nearer_by(2) [OF assms(1,3), of sp_code "\<lambda>m. map_prod id (ST k) (g m)"])
      (use assms tp' in \<open>simp_all add: Mem fun_eq_iff sp_left_def sp_waited_left_def\<close>)
qed (use assms(4) in \<open>cases tp; simp\<close>)+

lemma sp_progress:
  assumes inv: "sp_inv s" and none: "exited s = None"
  shows "\<exists>s'. sys_step sp_code any_answer s s' \<and> sp_left s' < sp_left s"
proof -
  let ?q = "\<lparr>rv = KEY_q, rdata = [], rfds = [], rerrno = 0, rpeer = InAddr 0 0\<rparr> :: reply"
  obtain pc where main: "pool s SpMain = Some (SM pc)" and ok: "sp_main_ok (running (mem s)) (asked_to_quit (hist s)) pc"
    and slots: "slots_ok (running (mem s)) (pool s) pc"
    using inv unfolding sp_inv_def by blast
  note left = sp_left_def sp_waited_left_def sp_key_def KEY_c_def KEY_k_def KEY_q_def
  show ?thesis
  proof (cases "sp_main_code pc")
    case (Sys c f)
    then have code: "sp_code (SM pc) = Sys c f" by simp
    show ?thesis
      by (rule nearer_by(1) [where left = sp_left and code = sp_code, OF none main code, of any_answer ?q])
        (use Sys main none in \<open>cases pc; auto simp: left\<close>)+
  next
    case (Mem f)
    then have code: "sp_code (SM pc) = Mem f" by simp
    have "sp_waited_left (S_join n) P \<le> 8" for n P
      using sp_thread_left_bound by (auto simp: sp_waited_left_def split: option.split sp_pc.split)
    note b = this [THEN order_le_less_trans, of 16]
    show ?thesis
      by (rule nearer_by(2) [where left = sp_left and code = sp_code, OF none main code])
        (use Mem main none b in \<open>cases pc; auto simp: sp_left_def\<close>; simp add: sp_waited_left_def)
  next
    case (Spawn u st j)
    then obtain n where n: "pc = S_create n" "u = Slot n" by (cases pc) auto
    have free: "pool s u = None" using slots unfolding slots_ok_def n by auto
    show ?thesis
      by (rule nearer_by(3) [where left = sp_left and code = sp_code, OF none main _ free])
        (use Spawn n main none in \<open>auto simp: left\<close>)
  next
    case (Join u l)
    then obtain n where n: "pc = S_join n" "u = Slot (n - 1)" by (cases pc) auto
    with ok obtain k where k: "n = Suc k" "running (mem s) ! k = 0" by (cases n) auto
    have "pool s (Slot k) \<noteq> None" using slots unfolding slots_ok_def n k by auto
    with slots obtain tp where tp: "pool s (Slot k) = Some (ST k tp)" unfolding slots_ok_def by blast
    show ?thesis
    proof (cases "tp = T_end")
      case True
      with tp n k have u: "pool s u = Some (ST k T_end)" by simp
      show ?thesis
        by (rule nearer_by(4) [where left = sp_left and code = sp_code, OF none main _ _ u])
          (use Join n k main none u in \<open>auto simp: left\<close>)
    next
      case False
      show ?thesis by (rule sp_waited_goes_on [OF none _ tp False k(2)]) (use main n k in simp)
    qed
  next
    case (Exit rc)
    then have code: "sp_code (SM pc) = Exit rc" by simp
    show ?thesis
      by (rule nearer_by(5) [where left = sp_left and code = sp_code, OF none main code]) (use main none in \<open>simp add: sp_left_def\<close>)
  qed (cases pc; simp)
qed

interpretation sp_ends: ending_system sp_code any_answer sp_inv sp_left
  by unfold_locales (auto intro: sp_inv_kept sp_progress)

text \<open>
  C38: From every reachable state the keys that may still be pressed can end the program with success: \<open>main\<close>
  is never left waiting for a thread that goes on.
\<close>

theorem spthread_can_end:
  assumes "reachable sp_code any_answer sp_start s"
  shows "\<exists>s'. (sys_step sp_code any_answer)\<^sup>*\<^sup>* s s' \<and> exited s' = Some 0"
  using sp_ends.can_end [OF sp.always [OF assms]] unfolding sp_inv_def by auto

theorem spthread_can_end_witness:
  "\<exists>s'. (sys_step sp_code any_answer)\<^sup>*\<^sup>* sp_start s' \<and> exited s' = Some 0"
  by (rule spthread_can_end [OF reachable.start])

end
