(* ===== verification/Cgroup.thy ===== *)
theory Cgroup
  imports Threads
begin

text \<open>
  \<open>src/python/cgroup/cpu_use.c\<close> and \<open>memory_use.c\<close>: the two loads that the cgroup experiments put
  under control.  The first keeps two processors busy until a key is pressed, the second takes ten
  megabytes for every character of its input.
\<close>

section \<open>\<open>cpu_use.c\<close>\<close>

text \<open>
  \<open>running\<close> is the memory the threads share; \<open>Spin k\<close> is the thread of \<open>thread_id\<close>\<open>k\<close>.  The results of
  \<open>pthread_create\<close> are ignored: a thread that could not be created is a handle without a thread, and
  joining it an error that is ignored in turn.
\<close>

datatype cpu_thread = CpuMain | Spin nat

datatype cpu_main_pc = C_create nat | C_getchar | C_stop | C_join nat | C_exit

datatype spin_pc =
    P_pid bool
  | P_tid bool int
  | P_self bool int int
  | P_print bool int int int
  | P_check
  | P_end

datatype cpu_pc = CM cpu_main_pc | CS spin_pc

primrec cpu_main_code :: "cpu_main_pc \<Rightarrow> (cpu_thread, int, cpu_pc) action" where
  "cpu_main_code (C_create k) = Spawn (Spin k) (CS (P_pid False)) (\<lambda>ret m. (m, CM (if k = 0 then C_create 1 else C_getchar)))"
| "cpu_main_code C_getchar = Sys Getchar (\<lambda>r m. (m, CM C_stop))"
| "cpu_main_code C_stop = Mem (\<lambda>m. (0, CM (C_join 0)))"
| "cpu_main_code (C_join k) = Join (Spin k) (\<lambda>ret m. (m, CM (if k = 0 then C_join 1 else C_exit)))"
| "cpu_main_code C_exit = Exit 0"

text \<open>The line before the loop and the one behind it, where the flag is set, have the same text.\<close>

primrec pthread_func :: "spin_pc \<Rightarrow> (cpu_thread, int, spin_pc) action" where
  "pthread_func (P_pid over) = Sys Getpid (\<lambda>r m. (m, P_tid over (rv r)))"
| "pthread_func (P_tid over pid) = Sys Gettid (\<lambda>r m. (m, P_self over pid (rv r)))"
| "pthread_func (P_self over pid tid) = Sys ThreadSelf (\<lambda>r m. (m, P_print over pid tid (rv r)))"
| "pthread_func (P_print over pid tid self) = Sys (Out (''pid:'' @ fmt_d pid @ '' spid:'' @ fmt_d (c_int tid)
     @ '' thread id:'' @ fmt_u (c_ulong self) @ '' start!'' @ nl)) (\<lambda>r m. (m, if over then P_end else P_check))"
| "pthread_func P_check = Mem (\<lambda>m. (m, if m \<noteq> 0 then P_check else P_pid True))"
| "pthread_func P_end = Ended"

primrec cpu_code :: "cpu_pc \<Rightarrow> (cpu_thread, int, cpu_pc) action" where
  "cpu_code (CM pc) = cpu_main_code pc"
| "cpu_code (CS pc) = map_action id CS (pthread_func pc)"

type_synonym cpu_sys = "(cpu_thread, int, cpu_pc) sys"

definition cpu_start :: cpu_sys where
  "cpu_start = boot CpuMain (CM (C_create 0)) 1"

definition answers_all :: "(cpu_thread \<times> ucall \<times> reply) list \<Rightarrow> cpu_thread \<times> ucall \<times> reply \<Rightarrow> bool" where
  "answers_all h e = True"

section \<open>Every interleaving\<close>

text \<open>The slots that may hold a thread, and whether the key was pressed, at each point of \<open>main\<close>.\<close>

primrec slots_at :: "cpu_main_pc \<Rightarrow> nat set" where
  "slots_at (C_create k) = {..<k}"
| "slots_at C_getchar = {..<2}"
| "slots_at C_stop = {..<2}"
| "slots_at (C_join k) = {k..<2}"
| "slots_at C_exit = {}"

primrec flag_at :: "cpu_main_pc \<Rightarrow> int" where
  "flag_at (C_create k) = 1"
| "flag_at C_getchar = 1"
| "flag_at C_stop = 1"
| "flag_at (C_join k) = 0"
| "flag_at C_exit = 0"

primrec key_at :: "cpu_main_pc \<Rightarrow> bool" where
  "key_at (C_create k) = False"
| "key_at C_getchar = False"
| "key_at C_stop = True"
| "key_at (C_join k) = True"
| "key_at C_exit = True"

primrec is_over :: "spin_pc \<Rightarrow> bool" where
  "is_over (P_pid over) = over"
| "is_over (P_tid over p) = over"
| "is_over (P_self over p t) = over"
| "is_over (P_print over p t s) = over"
| "is_over P_check = False"
| "is_over P_end = True"

definition key_pressed :: "(cpu_thread \<times> ucall \<times> reply) list \<Rightarrow> bool" where
  "key_pressed h \<longleftrightarrow> (\<exists>r. (CpuMain, Getchar, r) \<in> set h)"

definition cpu_inv :: "cpu_sys \<Rightarrow> bool" where
  "cpu_inv s \<longleftrightarrow> (\<exists>pc. pool s CpuMain = Some (CM pc) \<and> mem s = flag_at pc \<and> (key_at pc \<longrightarrow> key_pressed (hist s))
     \<and> (\<forall>k. pc = C_create k \<or> pc = C_join k \<longrightarrow> k < 2)
     \<and> (\<forall>k p. pool s (Spin k) = Some p \<longrightarrow> k \<in> slots_at pc \<and> (\<exists>sp. p = CS sp \<and> (is_over sp \<longrightarrow> mem s = 0)))
     \<and> (\<forall>rc. exited s = Some rc \<longrightarrow> pc = C_exit \<and> rc = 0))"

lemma key_pressed_append [simp]: "key_pressed h \<Longrightarrow> key_pressed (h @ es)"
  "key_pressed (h @ [(t, c, r)]) \<longleftrightarrow> key_pressed h \<or> t = CpuMain \<and> c = Getchar"
  by (auto simp: key_pressed_def)

text \<open>What a step may change of a spinning thread.\<close>

lemma spin_code:
  "cpu_code (CS sp) = Sys c k \<Longrightarrow> fst (k r m) = m \<and> (\<exists>sp'. snd (k r m) = CS sp' \<and> is_over sp' = is_over sp) \<and> c \<noteq> Getchar"
  "cpu_code (CS sp) = Mem f \<Longrightarrow> fst (f m) = m \<and> (\<exists>sp'. snd (f m) = CS sp' \<and> (is_over sp' \<longrightarrow> m = 0))"
  "cpu_code (CS sp) \<noteq> Spawn u st j" "cpu_code (CS sp) \<noteq> Join u j" "cpu_code (CS sp) \<noteq> Exit rc"
  by (cases sp; auto)+

lemma cpu_inv_kept:
  assumes inv: "cpu_inv s" and st: "sys_step cpu_code answers_all s s'"
  shows "cpu_inv s'"
proof -
  obtain pc where main: "pool s CpuMain = Some (CM pc)" "mem s = flag_at pc" "key_at pc \<Longrightarrow> key_pressed (hist s)"
      "\<And>k. pc = C_create k \<or> pc = C_join k \<Longrightarrow> k < 2"
    and spin: "\<And>k p. pool s (Spin k) = Some p \<Longrightarrow> k \<in> slots_at pc \<and> (\<exists>sp. p = CS sp \<and> (is_over sp \<longrightarrow> mem s = 0))"
    using inv unfolding cpu_inv_def by blast
  have none: "pool s (Spin k) = None" if "k \<notin> slots_at pc" for k using spin [of k] that by (cases "pool s (Spin k)") auto
  from st show ?thesis
  proof cases
    case (sys t p c k r)
    show ?thesis
    proof (cases t)
      case CpuMain
      with sys main spin show ?thesis by (cases pc) (auto simp: cpu_inv_def)
    next
      case (Spin j)
      with sys spin obtain sp where p: "p = CS sp" "is_over sp \<longrightarrow> mem s = 0" by blast
      with spin_code(1) [of sp c k r "mem s"] Spin sys main spin show ?thesis by (auto simp: cpu_inv_def)
    qed
  next
    case (mem t p f)
    show ?thesis
    proof (cases t)
      case CpuMain
      with mem main spin show ?thesis by (cases pc) (fastforce simp: cpu_inv_def)+
    next
      case (Spin j)
      with mem spin obtain sp where p: "p = CS sp" by blast
      with spin_code(2) [of sp f "sys.mem s"] Spin mem main spin show ?thesis by (auto simp: cpu_inv_def)
    qed
  next
    case (spawn t p u start k)
    then have "t = CpuMain" using spin spin_code(3) by (cases t) fastforce+
    with spawn main spin none show ?thesis by (cases pc) (auto simp: cpu_inv_def less_Suc_eq numeral_2_eq_2)
  next
    case (spawn_fails t p u start k e)
    then have "t = CpuMain" using spin spin_code(3) by (cases t) fastforce+
    with spawn_fails main spin none show ?thesis by (cases pc) (auto simp: cpu_inv_def less_Suc_eq numeral_2_eq_2)
  next
    case (join t p u k p')
    then have "t = CpuMain" using spin spin_code(4) by (cases t) fastforce+
    with join main none show ?thesis by (cases pc) (auto simp: cpu_inv_def less_Suc_eq numeral_2_eq_2 dest!: spin)
  next
    case (join_fails t p u k e)
    then have "t = CpuMain" using spin spin_code(4) by (cases t) fastforce+
    moreover have "s\<lparr>pool := (pool s)(u := None)\<rparr> = s" using join_fails(5) by (simp add: fun_upd_idem)
    with join_fails(1) have "s' = goes (s\<lparr>pool := (pool s)(u := None)\<rparr>) t (k e (mem s))" by simp
    ultimately show ?thesis using join_fails(2-4) main none
      by (cases pc) (auto simp: cpu_inv_def less_Suc_eq numeral_2_eq_2 dest!: spin)
  next
    case (exits t p rc)
    then have "t = CpuMain" using spin spin_code(5) by (cases t) fastforce+
    with exits main none show ?thesis by (cases pc) (auto simp: cpu_inv_def dest!: spin)
  qed
qed

interpretation cpu: thread_system cpu_code answers_all cpu_start cpu_inv
proof unfold_locales
  show "cpu_inv cpu_start" by (simp add: cpu_inv_def cpu_start_def boot_def)
qed (rule cpu_inv_kept)

text \<open>
  In every interleaving the threads keep spinning until a key is pressed, and the program ends only
  after it, with status 0 and with no thread left: a thread that is past its loop has seen the flag
  that \<open>main\<close> clears behind \<open>getchar\<close>.
\<close>

theorem cpu_use_spins_until_key:
  assumes "reachable cpu_code answers_all cpu_start s"
  shows "(\<forall>k sp. pool s (Spin k) = Some (CS sp) \<and> is_over sp \<longrightarrow> key_pressed (hist s))
    \<and> (\<forall>rc. exited s = Some rc \<longrightarrow> rc = 0 \<and> key_pressed (hist s) \<and> (\<forall>k. pool s (Spin k) = None))"
proof -
  obtain pc where inv: "mem s = flag_at pc" "key_at pc \<longrightarrow> key_pressed (hist s)"
      "\<forall>k p. pool s (Spin k) = Some p \<longrightarrow> k \<in> slots_at pc \<and> (\<exists>sp. p = CS sp \<and> (is_over sp \<longrightarrow> mem s = 0))"
      "\<forall>rc. exited s = Some rc \<longrightarrow> pc = C_exit \<and> rc = 0"
    using cpu.always [OF assms] unfolding cpu_inv_def by blast
  have flag: "flag_at pc = 0 \<longrightarrow> key_at pc" by (cases pc) auto
  have none: "slots_at pc = {} \<longrightarrow> pool s (Spin k) = None" for k
    using inv(3) by (cases "pool s (Spin k)") auto
  show ?thesis using inv flag none by fastforce
qed

theorem cpu_use_spins_until_key_witness:
  "\<exists>s :: cpu_sys. exited s = Some 0 \<and> key_pressed (hist s)"
proof -
  let ?r = "\<lparr>rv = 0, rdata = [], rfds = [], rerrno = 0, rpeer = InAddr 0 0\<rparr> :: reply"
  let ?xs = "replicate 4 (CpuMain, ?r) @ replicate 9 (Spin 0, ?r) @ replicate 9 (Spin 1, ?r) @ replicate 3 (CpuMain, ?r)"
  let ?s = "the (exec_all cpu_code cpu_start ?xs)"
  have run: "exec_all cpu_code cpu_start ?xs = Some ?s" "exited ?s = Some 0"
    by (simp_all add: cpu_start_def boot_def numeral_eq_Suc)
  have "allowed answers_all h es" for h es by (induction es arbitrary: h) (simp_all add: answers_all_def)
  with run(1) have "reachable cpu_code answers_all cpu_start ?s"
    using run_reachable unfolding cpu_start_def by metis
  from cpu_use_spins_until_key [OF this] run(2) have "key_pressed (hist ?s)" by blast
  with run(2) show ?thesis by blast
qed

text \<open>How far the program is from its end, when the key is pressed at once.\<close>

primrec cpu_main_left :: "cpu_main_pc \<Rightarrow> nat" where
  "cpu_main_left (C_create k) = 8 - k"
| "cpu_main_left C_getchar = 6"
| "cpu_main_left C_stop = 5"
| "cpu_main_left (C_join k) = 4 - k"
| "cpu_main_left C_exit = 1"

primrec spin_left :: "spin_pc \<Rightarrow> nat" where
  "spin_left (P_pid over) = (if over then 4 else 9)"
| "spin_left (P_tid over p) = (if over then 3 else 8)"
| "spin_left (P_self over p t) = (if over then 2 else 7)"
| "spin_left (P_print over p t s) = (if over then 1 else 6)"
| "spin_left P_check = 5"
| "spin_left P_end = 0"

definition cpu_pc_left :: "cpu_pc option \<Rightarrow> nat" where
  "cpu_pc_left p = (case p of Some (CS sp) \<Rightarrow> spin_left sp | _ \<Rightarrow> 0)"

definition cpu_left :: "cpu_sys \<Rightarrow> nat" where
  "cpu_left s = (case exited s of Some rc \<Rightarrow> 0 | None \<Rightarrow>
     Suc (20 * (case pool s CpuMain of Some (CM pc) \<Rightarrow> cpu_main_left pc | _ \<Rightarrow> 0)
       + cpu_pc_left (pool s (Spin 0)) + cpu_pc_left (pool s (Spin 1))))"

lemma cpu_pc_left_simps [simp]:
  "cpu_pc_left None = 0" "cpu_pc_left (Some (CS sp)) = spin_left sp" "cpu_pc_left (Some (CM pc)) = 0"
  by (simp_all add: cpu_pc_left_def)

lemma spin_nearer:
  "pthread_func sp = Sys c f \<Longrightarrow> spin_left (snd (f r m)) < spin_left sp"
  "pthread_func sp = Mem g \<Longrightarrow> spin_left (snd (g 0)) < spin_left sp"
  by (cases sp; auto)+

lemma spin_goes_on:
  assumes "exited s = None" "pool s (Spin k) = Some (CS sp)" "sp \<noteq> P_end" "mem s = 0"
  shows "\<exists>s' sp'. sys_step cpu_code answers_all s s' \<and> pool s' = (pool s)(Spin k \<mapsto> CS sp') \<and> spin_left sp' < spin_left sp \<and> exited s' = None"
proof (cases "pthread_func sp")
  case (Sys c f)
  let ?r = "\<lparr>rv = 0, rdata = [], rfds = [], rerrno = 0, rpeer = InAddr 0 0\<rparr> :: reply"
  let ?s' = "goes (s\<lparr>hist := hist s @ [(Spin k, c, ?r)]\<rparr>) (Spin k) (map_prod id CS (f ?r (mem s)))"
  have "sys_step cpu_code answers_all s ?s'"
    by (rule sys_step.sys [OF assms(1,2), of cpu_code c "\<lambda>r m. map_prod id CS (f r m)"]) (simp_all add: Sys fun_eq_iff answers_all_def)
  with spin_nearer(1) [OF Sys, of ?r "mem s"] assms(1) show ?thesis by (intro exI [of _ ?s'] exI [of _ "snd (f ?r (mem s))"]) simp
next
  case (Mem g)
  let ?s' = "goes s (Spin k) (map_prod id CS (g (mem s)))"
  have "sys_step cpu_code answers_all s ?s'"
    by (rule sys_step.mem [OF assms(1,2), of cpu_code "\<lambda>m. map_prod id CS (g m)"]) (simp add: Mem fun_eq_iff)
  with spin_nearer(2) [OF Mem] assms(1,4) show ?thesis by (intro exI [of _ ?s'] exI [of _ "snd (g (mem s))"]) simp
qed (use assms(3) in \<open>cases sp; simp\<close>)+

lemma cpu_progress:
  assumes inv: "cpu_inv s" and none: "exited s = None"
  shows "\<exists>s'. sys_step cpu_code answers_all s s' \<and> cpu_left s' < cpu_left s"
proof -
  let ?r = "\<lparr>rv = 0, rdata = [], rfds = [], rerrno = 0, rpeer = InAddr 0 0\<rparr> :: reply"
  obtain pc where main: "pool s CpuMain = Some (CM pc)" "mem s = flag_at pc" "\<And>k. pc = C_create k \<or> pc = C_join k \<Longrightarrow> k < 2"
    and spin: "\<And>k p. pool s (Spin k) = Some p \<Longrightarrow> k \<in> slots_at pc \<and> (\<exists>sp. p = CS sp \<and> (is_over sp \<longrightarrow> mem s = 0))"
    using inv unfolding cpu_inv_def by blast
  have ex: ?thesis if "sys_step cpu_code answers_all s s'" "cpu_left s' < cpu_left s" for s' using that by blast
  show ?thesis
  proof (cases pc)
    case (C_create k)
    have code: "cpu_code (CM pc) = Spawn (Spin k) (CS (P_pid False)) (\<lambda>ret m. (m, CM (if k = 0 then C_create 1 else C_getchar)))"
      by (simp add: C_create)
    have "pool s (Spin k) = None" using spin [of k] C_create by (cases "pool s (Spin k)") auto
    from ex [OF sys_step.spawn [where code = cpu_code and pc = "CM pc" and env = answers_all, OF none main(1) code this]]
    show ?thesis using C_create main none by (auto simp: cpu_left_def less_2_cases_iff)
  next
    case C_getchar
    have code: "cpu_code (CM pc) = Sys Getchar (\<lambda>r m. (m, CM C_stop))" by (simp add: C_getchar)
    from ex [OF sys_step.sys [where code = cpu_code and pc = "CM pc" and env = answers_all and r = ?r, OF none main(1) code]]
    show ?thesis using C_getchar main none by (auto simp: cpu_left_def answers_all_def)
  next
    case C_stop
    have code: "cpu_code (CM pc) = Mem (\<lambda>m. (0, CM (C_join 0)))" by (simp add: C_stop)
    from ex [OF sys_step.mem [where code = cpu_code and pc = "CM pc" and env = answers_all, OF none main(1) code]]
    show ?thesis using C_stop main none by (auto simp: cpu_left_def)
  next
    case (C_join k)
    have k: "k = 0 \<or> k = 1" using main(3) C_join by auto
    have code: "cpu_code (CM pc) = Join (Spin k) (\<lambda>ret m. (m, CM (if k = 0 then C_join 1 else C_exit)))" by (simp add: C_join)
    show ?thesis
    proof (cases "pool s (Spin k)")
      case None
      from ex [OF sys_step.join_fails [where code = cpu_code and pc = "CM pc" and env = answers_all and e = 1, OF none main(1) code None]]
      show ?thesis using None C_join main none k by (auto simp: cpu_left_def)
    next
      case (Some p)
      with spin obtain sp where p: "p = CS sp" by blast
      show ?thesis
      proof (cases "sp = P_end")
        case True
        with p have "cpu_code p = Ended" by simp
        from ex [OF sys_step.join [where code = cpu_code and pc = "CM pc" and env = answers_all, OF none main(1) code _ Some this]]
        show ?thesis using Some True p C_join main none k by (auto simp: cpu_left_def)
      next
        case False
        have "mem s = 0" using main(2) C_join by simp
        from spin_goes_on [OF none Some [unfolded p] False this] obtain s' sp' where
          s': "sys_step cpu_code answers_all s s'" "pool s' = (pool s)(Spin k \<mapsto> CS sp')"
            "spin_left sp' < spin_left sp" "exited s' = None" by blast
        with Some p none main(1) k have "cpu_left s' < cpu_left s" by (auto simp: cpu_left_def)
        with s'(1) show ?thesis by blast
      qed
    qed
  next
    case C_exit
    have code: "cpu_code (CM pc) = Exit 0" by (simp add: C_exit)
    from ex [OF sys_step.exits [where code = cpu_code and pc = "CM pc" and env = answers_all, OF none main(1) code]]
    show ?thesis using none by (auto simp: cpu_left_def)
  qed
qed

interpretation cpu_ends: ending_system cpu_code answers_all cpu_inv cpu_left
  by unfold_locales (auto intro: cpu_inv_kept cpu_progress)

text \<open>
  From every reachable state the program can end with status 0: no thread keeps spinning once the flag is
  cleared, and \<open>main\<close> is not left waiting.
\<close>

theorem cpu_use_can_end:
  assumes "reachable cpu_code answers_all cpu_start s"
  shows "\<exists>s'. (sys_step cpu_code answers_all)\<^sup>*\<^sup>* s s' \<and> exited s' = Some 0"
  using cpu_ends.can_end [OF cpu.always [OF assms]] unfolding cpu_inv_def by auto

theorem cpu_use_can_end_witness:
  "\<exists>s'. (sys_step cpu_code answers_all)\<^sup>*\<^sup>* cpu_start s' \<and> exited s' = Some 0"
  by (rule cpu_use_can_end [OF reachable.start])

section \<open>\<open>memory_use.c\<close>\<close>

definition MB :: nat where "MB = 10 * 1024 * 1024"

datatype null_block = NullBlock

text \<open>
  The loop; \<open>None\<close> when the fuel does not suffice.  The key goes through a \<open>char\<close>.  \<open>malloc\<close> is not
  checked: \<open>memset\<close> at the null pointer ends the program.
\<close>

fun memory_use_loop :: "nat \<Rightarrow> user_os \<Rightarrow> nat \<Rightarrow> (null_block + int) option uprog" where
  "memory_use_loop 0 os i = State_Monad.return None"
| "memory_use_loop (Suc fuel) os i =
     do {
       ch \<leftarrow> ucall_rv os Getchar;
       if signed_take_bit 7 ch = 113 then State_Monad.return (Some (Inr 0))
       else do {
         p \<leftarrow> ucall_rv os (Malloc MB);
         if p = 0 then State_Monad.return (Some (Inl NullBlock))
         else do {
           _ \<leftarrow> ucall_rv os (Out (fmt_d (int i) @ '' memory malloced'' @ nl));
           memory_use_loop fuel os (i + 1)
         }
       }
     }"

definition memory_use_main :: "nat \<Rightarrow> user_os \<Rightarrow> (null_block + int) option uprog" where
  "memory_use_main fuel os =
     do {
       pid \<leftarrow> ucall_rv os Getpid;
       _ \<leftarrow> ucall_rv os (Out (''Pid:'' @ fmt_d pid @ nl));
       memory_use_loop fuel os 0
     }"

fun is_getchar :: "ucall \<times> reply \<Rightarrow> bool" where
  "is_getchar (Getchar, r) = True"
| "is_getchar (c, r) = False"

fun is_block :: "ucall \<times> reply \<Rightarrow> bool" where
  "is_block (Malloc n, r) = (n = MB \<and> rv r \<noteq> 0)"
| "is_block (c, r) = False"

definition keys :: "utrace \<Rightarrow> nat" where "keys h = length (filter is_getchar h)"
definition blocks :: "utrace \<Rightarrow> nat" where "blocks h = length (filter is_block h)"

lemma keys_simps [simp]: "keys [] = 0" "keys (h @ h') = keys h + keys h'" "keys (e # h) = (if is_getchar e then 1 else 0) + keys h"
  by (simp_all add: keys_def)

lemma blocks_simps [simp]: "blocks [] = 0" "blocks (h @ h') = blocks h + blocks h'" "blocks (e # h) = (if is_block e then 1 else 0) + blocks h"
  by (simp_all add: blocks_def)

text \<open>A system with the given input and enough memory.\<close>

definition reads_input :: "user_os \<Rightarrow> (nat \<Rightarrow> int) \<Rightarrow> bool" where
  "reads_input os inp \<longleftrightarrow> (\<forall>h. rv (os h Getchar) = inp (keys h)) \<and> (\<forall>h. rv (os h (Malloc MB)) \<noteq> 0)"

definition is_q :: "int \<Rightarrow> bool" where "is_q ch \<longleftrightarrow> signed_take_bit 7 ch = 113"

lemma memory_use_loop_runs:
  assumes "reads_input os inp"
  shows "(\<forall>j<n. \<not> is_q (inp (keys h + j))) \<Longrightarrow>
    (n \<le> fuel \<longrightarrow> (\<exists>h'. run_state (memory_use_loop fuel os i) h = run_state (memory_use_loop (fuel - n) os (i + n)) h'
       \<and> keys h' = keys h + n \<and> blocks h' = blocks h + n))"
proof (induction n)
  case (Suc n)
  show ?case
  proof
    assume f: "Suc n \<le> fuel"
    with Suc obtain h' where h': "run_state (memory_use_loop fuel os i) h = run_state (memory_use_loop (fuel - n) os (i + n)) h'"
      "keys h' = keys h + n" "blocks h' = blocks h + n" by auto
    obtain m where m: "fuel - n = Suc m" "fuel - Suc n = m" using f by (metis Suc_diff_le diff_Suc_Suc)
    have k: "signed_take_bit 7 (rv (os h' Getchar)) \<noteq> 113"
      using assms h'(2) Suc.prems by (simp add: reads_input_def is_q_def)
    let ?h1 = "h' @ [(Getchar, os h' Getchar)]"
    have p: "rv (os ?h1 (Malloc MB)) \<noteq> 0" using assms by (simp add: reads_input_def)
    let ?h2 = "?h1 @ [(Malloc MB, os ?h1 (Malloc MB))]"
    let ?o = "Out (fmt_d (int (i + n)) @ '' memory malloced'' @ nl)"
    let ?h3 = "?h2 @ [(?o, os ?h2 ?o)]"
    have "run_state (memory_use_loop (fuel - n) os (i + n)) h' = run_state (memory_use_loop m os (i + n + 1)) ?h3"
      using k p by (simp add: m(1))
    moreover have "keys ?h3 = keys h + Suc n" "blocks ?h3 = blocks h + Suc n" using h' p by simp_all
    ultimately show "\<exists>h'. run_state (memory_use_loop fuel os i) h = run_state (memory_use_loop (fuel - Suc n) os (i + Suc n)) h'
       \<and> keys h' = keys h + Suc n \<and> blocks h' = blocks h + Suc n" using h'(1) m(2) by (intro exI [of _ ?h3]) (simp only: add_Suc_right Suc_eq_plus1 add.assoc simp_thms)
  qed
qed auto

text \<open>
  As long as there is memory, \<open>memory_use\<close> takes one block of ten megabytes for each character in
  front of the first \<open>q\<close>, and then ends with status 0; when the input ends without a \<open>q\<close>, it goes on
  taking memory for ever, as the end of the input is a character like any other.
\<close>

theorem memory_use_blocks:
  assumes "reads_input os inp"
  shows "(\<forall>n. is_q (inp n) \<and> (\<forall>j<n. \<not> is_q (inp j)) \<longrightarrow>
      (\<exists>h. run_state (memory_use_main (Suc n) os) [] = (Some (Inr 0), h) \<and> blocks h = n))
    \<and> ((\<forall>j. \<not> is_q (inp j)) \<longrightarrow>
      (\<forall>n. \<exists>h. run_state (memory_use_main n os) [] = (None, h) \<and> blocks h = n))"
proof -
  obtain h0 where h0: "keys h0 = 0" "blocks h0 = 0" "run_state (memory_use_main fuel os) [] = run_state (memory_use_loop fuel os 0) h0" for fuel
  proof -
    let ?h1 = "[(Getpid, os [] Getpid)]"
    let ?o = "Out (''Pid:'' @ fmt_d (rv (os [] Getpid)) @ nl)"
    have "keys (?h1 @ [(?o, os ?h1 ?o)]) = 0" "blocks (?h1 @ [(?o, os ?h1 ?o)]) = 0" by simp_all
    moreover have "run_state (memory_use_main fuel os) [] = run_state (memory_use_loop fuel os 0) (?h1 @ [(?o, os ?h1 ?o)])" for fuel
      by (simp add: memory_use_main_def)
    ultimately show thesis using that by blast
  qed
  show ?thesis
  proof (intro conjI allI impI)
    fix n assume n: "is_q (inp n) \<and> (\<forall>j<n. \<not> is_q (inp j))"
    obtain h' where h': "run_state (memory_use_loop (Suc n) os 0) h0 = run_state (memory_use_loop (Suc n - n) os (0 + n)) h'"
      "keys h' = keys h0 + n" "blocks h' = blocks h0 + n"
      using memory_use_loop_runs [OF assms, of n h0 "Suc n" 0] n h0 by auto
    have "signed_take_bit 7 (rv (os h' Getchar)) = 113" using assms n h' h0 by (simp add: reads_input_def is_q_def)
    then have "run_state (memory_use_loop (Suc 0) os n) h' = (Some (Inr 0), h' @ [(Getchar, os h' Getchar)])" by simp
    moreover have "Suc n - n = Suc 0" by simp
    ultimately have "run_state (memory_use_main (Suc n) os) [] = (Some (Inr 0), h' @ [(Getchar, os h' Getchar)])"
      by (simp only: h0(3) h'(1) add_0)
    moreover have "blocks (h' @ [(Getchar, os h' Getchar)]) = n" using h'(3) h0(2) by simp
    ultimately show "\<exists>h. run_state (memory_use_main (Suc n) os) [] = (Some (Inr 0), h) \<and> blocks h = n" by blast
  next
    fix n assume "\<forall>j. \<not> is_q (inp j)"
    then obtain h' where "run_state (memory_use_loop n os 0) h0 = run_state (memory_use_loop (n - n) os (0 + n)) h'" "blocks h' = blocks h0 + n"
      using memory_use_loop_runs [OF assms, of n h0 n 0] by auto
    then show "\<exists>h. run_state (memory_use_main n os) [] = (None, h) \<and> blocks h = n" using h0 by simp
  qed
qed

theorem memory_use_blocks_witness:
  "\<exists>h. run_state (memory_use_main 3 (\<lambda>h c. \<lparr>rv = if keys h < 2 then 97 else 113, rdata = [], rfds = [], rerrno = 0, rpeer = InAddr 0 0\<rparr>)) []
     = (Some (Inr 0), h) \<and> blocks h = 2"
proof -
  let ?os = "\<lambda>h c. \<lparr>rv = if keys h < 2 then 97 else 113, rdata = [], rfds = [], rerrno = 0, rpeer = InAddr 0 0\<rparr> :: reply"
  have r: "reads_input ?os (\<lambda>j. if j < 2 then 97 else 113)" by (simp add: reads_input_def)
  have q: "is_q 113" "\<not> is_q 97" by (simp_all add: is_q_def signed_take_bit_rec)
  have p: "is_q (if (2 :: nat) < 2 then 97 else 113) \<and> (\<forall>j<2. \<not> is_q (if (j :: nat) < 2 then 97 else 113))" using q by simp
  have three: "Suc 2 = 3" by simp
  from conjunct1 [OF memory_use_blocks [OF r]] have "\<exists>h. run_state (memory_use_main (Suc 2) ?os) [] = (Some (Inr 0), h) \<and> blocks h = 2"
    using p by blast
  then show ?thesis unfolding three .
qed

end
