(* ===== verification/Ztest.thy ===== *)
theory Ztest
  imports Threads
begin

text \<open>
  \<open>src/linux/linux-inside/ztest.c\<close> and \<open>ztest_usr.c\<close>: a driver that writes lists of processes and open
  files, and the calling thread, to the kernel log, and a program whose three threads call it.
  (Set-up and tear-down of the driver are in \<open>ChrDev\<close>.)

  A task has its open files, one entry for each descriptor, or none when it is exiting.  \<open>d_path\<close> is
  a parameter: it gives the text, or an error pointer for a path that does not fit 256 bytes; a
  \<open>\<percent>s\<close> of that is \<open>BadText\<close>, as what it prints depends on the kernel.  A null pointer that is
  followed is \<open>Inl\<close>.
\<close>

section \<open>The driver\<close>

definition ZTEST_LIST_PROCESS :: nat where "ZTEST_LIST_PROCESS = 0x66 * 2 ^ 8 + 0"
definition ZTEST_LIST_FILES :: nat where "ZTEST_LIST_FILES = 0x66 * 2 ^ 8 + 1"
definition ZTEST_GET_THREAD :: nat where "ZTEST_GET_THREAD = 0x66 * 2 ^ 8 + 2"

definition EINVAL_ztest :: int where "EINVAL_ztest = 22"

record zt_task =
  zt_comm :: string
  zt_pid :: int
  zt_tgid :: int
  zt_state :: nat
  zt_files :: "string option list option"
  zt_cpu :: nat
  zt_ptr :: string          \<comment> \<open>how \<open>\<percent>p\<close> prints its address\<close>

datatype null_task = NullTask

datatype klog = LogText string | BadText nat

definition process_line :: "zt_task \<Rightarrow> klog" where
  "process_line t = LogText (zt_comm t @ '' ['' @ fmt_d (zt_pid t) @ ''] state:'' @ fmt_u (zt_state t) @ nl)"

definition file_line :: "(string \<Rightarrow> string option) \<Rightarrow> nat \<Rightarrow> string \<Rightarrow> klog" where
  "file_line d_path i f =
     (case d_path f of Some cwd \<Rightarrow> LogText (''fd '' @ fmt_d (int i) @ '' '' @ cwd @ nl) | None \<Rightarrow> BadText i)"

text \<open>The loop over the descriptors, from \<open>i\<close> on.\<close>

fun list_files :: "(string \<Rightarrow> string option) \<Rightarrow> nat \<Rightarrow> string option list \<Rightarrow> klog list" where
  "list_files d_path i [] = []"
| "list_files d_path i (None # fs) = list_files d_path (Suc i) fs"
| "list_files d_path i (Some f # fs) = file_line d_path i f # list_files d_path (Suc i) fs"

definition my_get_current_thread_info :: "zt_task \<Rightarrow> klog list" where
  "my_get_current_thread_info cur =
     [LogText (''task_struct task in thread_info:'' @ zt_ptr cur @ nl), LogText (''current task_struct:'' @ zt_ptr cur @ nl),
      LogText (''current cpu:'' @ fmt_u (zt_cpu cur) @ nl),
      LogText (''pid:'' @ fmt_d (zt_pid cur) @ '' tgid:'' @ fmt_d (zt_tgid cur) @ nl)]"

text \<open>
  \<open>all\<close> are the processes in the order of \<open>for_each_process\<close>, \<open>find_task\<close> is
  \<open>pid_task(find_vpid(nr), PIDTYPE_PID)\<close>; the argument becomes an \<open>int\<close> there.
\<close>

definition ztest_ioctl :: "zt_task list \<Rightarrow> (int \<Rightarrow> zt_task option) \<Rightarrow> (string \<Rightarrow> string option) \<Rightarrow> zt_task \<Rightarrow>
    nat \<Rightarrow> nat \<Rightarrow> null_task + int \<times> klog list" where
  "ztest_ioctl all find_task d_path cur cmd arg =
     (if cmd = ZTEST_LIST_PROCESS then Inr (0, map process_line all)
      else if cmd = ZTEST_LIST_FILES then
        (case (if arg = 0 then Some cur else find_task (c_int (int arg))) of
           None \<Rightarrow> Inl NullTask
         | Some task \<Rightarrow>
             (case zt_files task of
                None \<Rightarrow> Inl NullTask
              | Some fdt \<Rightarrow> Inr (0, list_files d_path 0 fdt)))
      else if cmd = ZTEST_GET_THREAD then Inr (0, my_get_current_thread_info cur)
      else Inr (- EINVAL_ztest, []))"

lemmas ztest_cmds = ZTEST_LIST_PROCESS_def ZTEST_LIST_FILES_def ZTEST_GET_THREAD_def


section \<open>The program\<close>

datatype usr_thread = UMain | UThread nat

datatype info_pc = I_pid | I_tid int | I_out int int | I_load | I_ioctl int | I_perror | I_done

datatype usr_pc = U_open | U_perror | U_create nat | U_info info_pc | U_sleep | U_close_load | U_close int | U_exit int | T_info info_pc

record usr_mem =
  usr_fd :: int

text \<open>\<open>print_info\<close>; the descriptor is the static variable.\<close>

primrec print_info :: "info_pc \<Rightarrow> (usr_thread, usr_mem, info_pc) action" where
  "print_info I_pid = Sys Getpid (\<lambda>r m. (m, I_tid (rv r)))"
| "print_info (I_tid pid) = Sys Gettid (\<lambda>r m. (m, I_out pid (rv r)))"
| "print_info (I_out pid tid) = Sys (Out (''pid:'' @ fmt_u (c_uint pid) @ '' tid:'' @ fmt_d tid @ nl)) (\<lambda>r m. (m, I_load))"
| "print_info I_load = Mem (\<lambda>m. (m, I_ioctl (usr_fd m)))"
| "print_info (I_ioctl fd) = Sys (UIoctl fd ZTEST_GET_THREAD) (\<lambda>r m. (m, if rv r = - 1 then I_perror else I_done))"
| "print_info I_perror = Sys (Perror ''ztest get thread'') (\<lambda>r m. (m, I_done))"
| "print_info I_done = Ended"

text \<open>
  \<open>main\<close> creates two threads, calls \<open>print_info\<close> itself, sleeps and closes the descriptor.  Both
  handles go into the same variable and are never used; the results of the creations are ignored.
\<close>

primrec usr_code :: "usr_pc \<Rightarrow> (usr_thread, usr_mem, usr_pc) action" where
  "usr_code U_open = Sys (Open ''/dev/ztest0'') (\<lambda>r m. (m\<lparr>usr_fd := rv r\<rparr>, if rv r = - 1 then U_perror else U_create 0))"
| "usr_code U_perror = Sys (Perror ''open /dev/ztest0'') (\<lambda>r m. (m, U_exit 1))"
| "usr_code (U_create k) = Spawn (UThread k) (T_info I_pid) (\<lambda>ret m. (m, if k = 0 then U_create 1 else U_info I_pid))"
| "usr_code (U_info pc) = (if pc = I_done then Mem (\<lambda>m. (m, U_sleep)) else map_action id U_info (print_info pc))"
| "usr_code U_sleep = Sys (Sleep 1) (\<lambda>r m. (m, U_close_load))"
| "usr_code U_close_load = Mem (\<lambda>m. (m, U_close (usr_fd m)))"
| "usr_code (U_close fd) = Sys (Close fd) (\<lambda>r m. (m, U_exit 0))"
| "usr_code (U_exit rc) = Exit rc"
| "usr_code (T_info pc) = map_action id T_info (print_info pc)"

type_synonym usr_sys = "(usr_thread, usr_mem, usr_pc) sys"
type_synonym usr_hist = "(usr_thread \<times> ucall \<times> reply) list"

definition usr_start :: usr_sys where
  "usr_start = boot UMain U_open \<lparr>usr_fd = 0\<rparr>"

text \<open>
  The system answers for the thread that asks: its process and thread number, and \<open>ioctl\<close> by running
  the driver for that thread while the descriptor is open.  \<open>tasks t\<close> is the kernel's task of a thread.
\<close>

definition driver_logs :: "zt_task list \<Rightarrow> (int \<Rightarrow> zt_task option) \<Rightarrow> (string \<Rightarrow> string option) \<Rightarrow> (usr_thread \<Rightarrow> zt_task) \<Rightarrow>
    usr_thread \<times> ucall \<times> reply \<Rightarrow> klog list" where
  "driver_logs all find_task d_path tasks e =
     (case e of
        (t, UIoctl fd cmd, r) \<Rightarrow>
          (case ztest_ioctl all find_task d_path (tasks t) cmd 0 of Inl x \<Rightarrow> [] | Inr (rc, ls) \<Rightarrow> if rv r = rc then ls else [])
      | _ \<Rightarrow> [])"

definition usr_system :: "(usr_thread \<Rightarrow> zt_task) \<Rightarrow> usr_hist \<Rightarrow> usr_thread \<times> ucall \<times> reply \<Rightarrow> bool" where
  "usr_system tasks h e =
     (case e of
        (t, Getpid, r) \<Rightarrow> rv r = zt_tgid (tasks t)
      | (t, Gettid, r) \<Rightarrow> rv r = zt_pid (tasks t)
      | (t, UIoctl fd cmd, r) \<Rightarrow> if fd \<in># live (map snd h) then rv r = 0 else rv r = - 1
      | (t, Open p, r) \<Rightarrow> rv r = - 1 \<or> 0 \<le> rv r \<and> rv r \<notin># live (map snd h)
      | (t, c, r) \<Rightarrow> True)"

section \<open>Results\<close>


definition zt_sample :: zt_task where
  "zt_sample = \<lparr>zt_comm = ''sh'', zt_pid = 8, zt_tgid = 7, zt_state = 0,
     zt_files = Some [Some ''/a'', None, Some ''/b''], zt_cpu = 0, zt_ptr = ''(p)''\<rparr>"


text \<open>
  The number of a process is not checked: \<open>ZTEST_LIST_FILES\<close> for a number that names no task, or a
  task that has given up its files, follows a null pointer, and a number from \<open>2 ^ 32\<close> on lists the
  files of another process, the one with the number modulo \<open>2 ^ 32\<close>; every command that is not one of
  the three is refused with \<open>-EINVAL\<close> and logs nothing.
\<close>

theorem ztest_ioctl_errors:
  assumes "0 < n" "n < 2 ^ 31"
  shows "(find_task (int n) = None \<longrightarrow> ztest_ioctl all find_task d_path cur ZTEST_LIST_FILES n = Inl NullTask)
    \<and> (\<forall>task. find_task (int n) = Some task \<and> zt_files task = None \<longrightarrow>
         ztest_ioctl all find_task d_path cur ZTEST_LIST_FILES n = Inl NullTask)
    \<and> ztest_ioctl all find_task d_path cur ZTEST_LIST_FILES (n + 2 ^ 32) = ztest_ioctl all find_task d_path cur ZTEST_LIST_FILES n
    \<and> (cmd \<notin> {ZTEST_LIST_PROCESS, ZTEST_LIST_FILES, ZTEST_GET_THREAD} \<longrightarrow>
         ztest_ioctl all find_task d_path cur cmd n = Inr (- EINVAL_ztest, []))"
proof -
  have "c_int (int n + 2 ^ 32) = c_int (int n)" using c_int_period [of "int n"] by (simp only: add.commute)
  moreover have "c_int (int n) = int n" using assms by simp
  ultimately show ?thesis using assms by (auto simp: ztest_ioctl_def ztest_cmds)
qed

theorem ztest_ioctl_errors_witness:
  "ztest_ioctl [] (\<lambda>_. None) Some zt_sample ZTEST_LIST_FILES 5 = Inl NullTask"
  using ztest_ioctl_errors [of 5 "\<lambda>_. None" "[]" Some zt_sample 0] by simp


text \<open>The line a thread prints, and what \<open>print_info\<close> knows at its points.\<close>

definition info_line :: "zt_task \<Rightarrow> string" where
  "info_line t = ''pid:'' @ fmt_u (c_uint (zt_tgid t)) @ '' tid:'' @ fmt_d (zt_pid t) @ nl"

definition has_said :: "(usr_thread \<Rightarrow> zt_task) \<Rightarrow> usr_hist \<Rightarrow> usr_thread \<Rightarrow> bool" where
  "has_said tasks h t \<longleftrightarrow> (\<exists>r. (t, Out (info_line (tasks t)), r) \<in> set h)"

primrec info_ok :: "(usr_thread \<Rightarrow> zt_task) \<Rightarrow> usr_thread \<Rightarrow> bool \<Rightarrow> info_pc \<Rightarrow> bool" where
  "info_ok tasks t said I_pid = True"
| "info_ok tasks t said (I_tid pid) = (pid = zt_tgid (tasks t))"
| "info_ok tasks t said (I_out pid tid) = (pid = zt_tgid (tasks t) \<and> tid = zt_pid (tasks t))"
| "info_ok tasks t said I_load = said"
| "info_ok tasks t said (I_ioctl fd) = said"
| "info_ok tasks t said I_perror = True"
| "info_ok tasks t said I_done = True"

primrec usr_pc_ok :: "(usr_thread \<Rightarrow> zt_task) \<Rightarrow> usr_thread \<Rightarrow> bool \<Rightarrow> usr_pc \<Rightarrow> bool" where
  "usr_pc_ok tasks t said U_open = True"
| "usr_pc_ok tasks t said U_perror = True"
| "usr_pc_ok tasks t said (U_create k) = True"
| "usr_pc_ok tasks t said (U_info pc) = info_ok tasks t said pc"
| "usr_pc_ok tasks t said U_sleep = True"
| "usr_pc_ok tasks t said U_close_load = True"
| "usr_pc_ok tasks t said (U_close fd) = True"
| "usr_pc_ok tasks t said (U_exit rc) = True"
| "usr_pc_ok tasks t said (T_info pc) = info_ok tasks t said pc"

definition usr_inv :: "(usr_thread \<Rightarrow> zt_task) \<Rightarrow> usr_sys \<Rightarrow> bool" where
  "usr_inv tasks s \<longleftrightarrow>
     (\<forall>t pc. pool s t = Some pc \<longrightarrow> usr_pc_ok tasks t (has_said tasks (hist s) t) pc)
   \<and> (\<forall>t fd cmd r. (t, UIoctl fd cmd, r) \<in> set (hist s) \<longrightarrow> cmd = ZTEST_GET_THREAD \<and> has_said tasks (hist s) t)"

lemma usr_pc_ok_mono: "usr_pc_ok tasks t a pc \<Longrightarrow> (a \<Longrightarrow> b) \<Longrightarrow> usr_pc_ok tasks t b pc"
proof -
  have "info_ok tasks t a ip \<Longrightarrow> (a \<Longrightarrow> b) \<Longrightarrow> info_ok tasks t b ip" for ip by (cases ip) auto
  then show "usr_pc_ok tasks t a pc \<Longrightarrow> (a \<Longrightarrow> b) \<Longrightarrow> ?thesis" by (cases pc) auto
qed

lemma has_said_append [simp]:
  "has_said tasks (h @ [(u, c, r)]) t \<longleftrightarrow> has_said tasks h t \<or> u = t \<and> c = Out (info_line (tasks t))"
  by (auto simp: has_said_def)

lemma print_info_ok:
  "print_info pc = Sys c k \<Longrightarrow> info_ok tasks t said pc \<Longrightarrow> usr_system tasks h (t, c, r) \<Longrightarrow>
   info_ok tasks t (said \<or> c = Out (info_line (tasks t))) (snd (k r m))
   \<and> (\<forall>fd cmd. c = UIoctl fd cmd \<longrightarrow> cmd = ZTEST_GET_THREAD \<and> said)"
  "print_info pc = Mem f \<Longrightarrow> info_ok tasks t said pc \<Longrightarrow> info_ok tasks t said (snd (f m))"
  by (cases pc; auto simp: usr_system_def info_line_def)+

lemma print_info_ioctl: "print_info pc = Sys (UIoctl fd cmd) k \<Longrightarrow> info_ok tasks t said pc \<Longrightarrow> said"
  by (cases pc) auto

lemma usr_code_ok:
  assumes "usr_pc_ok tasks t said pc"
  shows "usr_code pc = Sys c k \<Longrightarrow> usr_system tasks h (t, c, r) \<Longrightarrow>
      usr_pc_ok tasks t (said \<or> c = Out (info_line (tasks t))) (snd (k r m))
      \<and> (\<forall>fd cmd. c = UIoctl fd cmd \<longrightarrow> cmd = ZTEST_GET_THREAD \<and> said)"
    and "usr_code pc = Mem f \<Longrightarrow> usr_pc_ok tasks t said (snd (f m))"
    and "usr_code pc = Spawn u st j \<Longrightarrow> st = T_info I_pid \<and> usr_pc_ok tasks t said (snd (j e m))"
    and "usr_code pc \<noteq> Join u l"
proof -
  have inv: "map_action id g a = Sys c k \<Longrightarrow> \<exists>k'. a = Sys c k' \<and> (\<forall>r m. k r m = map_prod id g (k' r m))"
    "map_action id g a = Mem f \<Longrightarrow> \<exists>f'. a = Mem f' \<and> (\<forall>m. f m = map_prod id g (f' m))"
    for g :: "info_pc \<Rightarrow> usr_pc" and a :: "(usr_thread, usr_mem, info_pc) action" by (cases a; auto)+
  have no: "map_action id g (print_info ip) \<noteq> Spawn u' st' j'" "map_action id g (print_info ip) \<noteq> Join u l'"
    for g :: "info_pc \<Rightarrow> usr_pc" and ip u' st' j' l' by (cases ip; simp)+
  show "usr_code pc = Sys c k \<Longrightarrow> usr_system tasks h (t, c, r) \<Longrightarrow>
      usr_pc_ok tasks t (said \<or> c = Out (info_line (tasks t))) (snd (k r m))
      \<and> (\<forall>fd cmd. c = UIoctl fd cmd \<longrightarrow> cmd = ZTEST_GET_THREAD \<and> said)"
    using assms by (cases pc) (auto dest!: inv(1) dest: print_info_ioctl simp: print_info_ok(1) split: if_splits)
  show "usr_code pc = Mem f \<Longrightarrow> usr_pc_ok tasks t said (snd (f m))"
    using assms by (cases pc) (auto dest!: inv(2) simp: print_info_ok(2) split: if_splits)
  show "usr_code pc = Spawn u st j \<Longrightarrow> st = T_info I_pid \<and> usr_pc_ok tasks t said (snd (j e m))"
    using no by (cases pc) (auto split: if_splits)
  show "usr_code pc \<noteq> Join u l"
    using no by (cases pc) (auto split: if_splits)
qed

lemma usr_inv_kept:
  assumes inv: "usr_inv tasks s" and st: "sys_step usr_code (usr_system tasks) s s'"
  shows "usr_inv tasks s'"
proof -
  have ok: "usr_pc_ok tasks t (has_said tasks (hist s) t) pc" if "pool s t = Some pc" for t pc
    using inv that unfolding usr_inv_def by blast
  have io: "cmd = ZTEST_GET_THREAD \<and> has_said tasks (hist s) t" if "(t, UIoctl fd cmd, r) \<in> set (hist s)" for t fd cmd r
    using inv that unfolding usr_inv_def by blast
  from st show ?thesis
  proof cases
    case (sys t pc c k r)
    note u = usr_code_ok(1) [OF ok [OF sys(3)] sys(4,5), of "mem s"]
    show ?thesis unfolding usr_inv_def
    proof (intro conjI allI impI)
      fix t' pc' assume "pool s' t' = Some pc'"
      then show "usr_pc_ok tasks t' (has_said tasks (hist s') t') pc'"
        using sys u ok by (cases "t' = t") (auto elim!: usr_pc_ok_mono)
    next
      fix t' fd cmd r' assume "(t', UIoctl fd cmd, r') \<in> set (hist s')"
      then show "cmd = ZTEST_GET_THREAD" "has_said tasks (hist s') t'" using sys u io by auto
    qed
  next
    case (mem t pc f)
    with usr_code_ok(2) [OF ok [OF mem(3)] mem(4), of "sys.mem s"] ok io show ?thesis
      unfolding usr_inv_def by auto
  next
    case (spawn t pc u start k)
    with usr_code_ok(3) [OF ok [OF spawn(3)] spawn(4), of 0 "sys.mem s"] ok io show ?thesis
      unfolding usr_inv_def by auto
  next
    case (spawn_fails t pc u start k e)
    with usr_code_ok(3) [OF ok [OF spawn_fails(3)] spawn_fails(4), of e "sys.mem s"] ok io show ?thesis
      unfolding usr_inv_def by auto
  next
    case (join t pc u k pc')
    with usr_code_ok(4) [OF ok [OF join(3)]] show ?thesis by blast
  next
    case (join_fails t pc u k e)
    with usr_code_ok(4) [OF ok [OF join_fails(3)]] show ?thesis by blast
  next
    case (exits t pc rc)
    with ok io show ?thesis unfolding usr_inv_def by auto
  qed
qed

lemma usr_inv_start: "usr_inv tasks usr_start"
  by (simp add: usr_inv_def usr_start_def boot_def)

interpretation usr: thread_system usr_code "usr_system tasks" usr_start "usr_inv tasks" for tasks
  by unfold_locales (auto intro: usr_inv_start usr_inv_kept)

text \<open>
  C29: The program and the driver agree on who is calling: in every interleaving, for each thread whose
  \<open>ioctl\<close> succeeds, the driver logs the thread's number as \<open>pid\<close> and the process's number as \<open>tgid\<close>,
  and the thread has printed the same two numbers as \<open>tid\<close> and \<open>pid\<close> before.
\<close>

theorem ztest_threads_identified:
  assumes "reachable usr_code (usr_system tasks) usr_start s" "(t, UIoctl fd cmd, r) \<in> set (hist s)" "rv r = 0"
  shows "(\<exists>r'. (t, Out (''pid:'' @ fmt_u (c_uint (zt_tgid (tasks t))) @ '' tid:'' @ fmt_d (zt_pid (tasks t)) @ nl), r') \<in> set (hist s))
    \<and> LogText (''pid:'' @ fmt_d (zt_pid (tasks t)) @ '' tgid:'' @ fmt_d (zt_tgid (tasks t)) @ nl)
        \<in> set (driver_logs all find_task d_path tasks (t, UIoctl fd cmd, r))"
proof -
  have "cmd = ZTEST_GET_THREAD" "has_said tasks (hist s) t"
    using usr.always [OF assms(1)] assms(2) unfolding usr_inv_def by blast+
  then show ?thesis using assms(3)
    by (auto simp: has_said_def info_line_def driver_logs_def ztest_ioctl_def my_get_current_thread_info_def ztest_cmds)
qed

definition replies :: "int \<Rightarrow> reply" where
  "replies n = \<lparr>rv = n, rdata = [], rfds = [], rerrno = 0, rpeer = InAddr 0 0\<rparr>"

lemmas usr_run_defs = usr_start_def boot_def replies_def

lemma usr_run:
  assumes "exec_all usr_code usr_start xs = Some s" "allowed (usr_system tasks) [] (hist s)"
  shows "reachable usr_code (usr_system tasks) usr_start s"
  using run_reachable assms unfolding usr_start_def by metis

theorem ztest_threads_identified_witness:
  "\<exists>s :: usr_sys. (UThread 0, UIoctl 3 ZTEST_GET_THREAD, replies 0) \<in> set (hist s) \<and>
     (\<exists>r'. (UThread 0, Out (''pid:'' @ fmt_u (c_uint 7) @ '' tid:'' @ fmt_d 8 @ nl), r') \<in> set (hist s))"
proof -
  let ?xs = "[(UMain, replies 3), (UMain, replies 0)] @ map (\<lambda>n. (UThread 0, replies n)) [7, 8, 0, 0, 0]"
  let ?s = "the (exec_all usr_code usr_start ?xs)"
  have run: "exec_all usr_code usr_start ?xs = Some ?s" by (simp add: usr_run_defs)
  have h: "hist ?s = [(UMain, Open ''/dev/ztest0'', replies 3), (UThread 0, Getpid, replies 7), (UThread 0, Gettid, replies 8),
      (UThread 0, Out (''pid:'' @ fmt_u (c_uint 7) @ '' tid:'' @ fmt_d 8 @ nl), replies 0),
      (UThread 0, UIoctl 3 ZTEST_GET_THREAD, replies 0)]" by (simp add: usr_run_defs)
  have "allowed (usr_system (\<lambda>_. zt_sample)) [] (hist ?s)"
    unfolding h by (simp add: usr_system_def replies_def zt_sample_def live_def)
  from ztest_threads_identified [OF usr_run [OF run this], of "UThread 0" 3 ZTEST_GET_THREAD "replies 0" "[]" "\<lambda>_. None" Some]
  have "\<exists>r'. (UThread 0, Out (''pid:'' @ fmt_u (c_uint 7) @ '' tid:'' @ fmt_d 8 @ nl), r') \<in> set (hist ?s)"
    unfolding h by (simp add: replies_def zt_sample_def)
  moreover have "(UThread 0, UIoctl 3 ZTEST_GET_THREAD, replies 0) \<in> set (hist ?s)" unfolding h by simp
  ultimately show ?thesis by - (rule exI [of _ ?s], rule conjI)
qed

text \<open>
  The descriptor is closed without waiting for the threads: there is a run in which a thread that has
  printed its line calls \<open>ioctl\<close> on the closed descriptor, fails, and the driver never hears of it.
\<close>

theorem ztest_close_races:
  "\<exists>s :: usr_sys. reachable usr_code (usr_system (\<lambda>_. zt_sample)) usr_start s \<and> 3 \<notin># live (map snd (hist s))
     \<and> (\<exists>r. (UMain, Close 3, r) \<in> set (hist s)) \<and> pool s (UThread 0) = Some (T_info I_perror) \<and> exited s = None"
proof -
  let ?xs = "map (\<lambda>n. (UMain, replies n)) [3, 0, 0, 7, 8, 0, 0, 0, 0, 0, 0, 0] @ map (\<lambda>n. (UThread 0, replies n)) [7, 8, 0, 0, - 1]"
  let ?s = "the (exec_all usr_code usr_start ?xs)"
  let ?o = "Out (''pid:'' @ fmt_u (c_uint 7) @ '' tid:'' @ fmt_d 8 @ nl)"
  have run: "exec_all usr_code usr_start ?xs = Some ?s" by (simp add: usr_run_defs)
  have h: "hist ?s = [(UMain, Open ''/dev/ztest0'', replies 3), (UMain, Getpid, replies 7), (UMain, Gettid, replies 8),
      (UMain, ?o, replies 0), (UMain, UIoctl 3 ZTEST_GET_THREAD, replies 0), (UMain, Sleep 1, replies 0), (UMain, Close 3, replies 0),
      (UThread 0, Getpid, replies 7), (UThread 0, Gettid, replies 8), (UThread 0, ?o, replies 0),
      (UThread 0, UIoctl 3 ZTEST_GET_THREAD, replies (- 1))]" by (simp add: usr_run_defs)
  have "allowed (usr_system (\<lambda>_. zt_sample)) [] (hist ?s)"
    unfolding h by (simp add: usr_system_def replies_def zt_sample_def live_def)
  moreover have "3 \<notin># live (map snd (hist ?s))" unfolding h by (simp add: replies_def live_def)
  moreover have "pool ?s (UThread 0) = Some (T_info I_perror)" "exited ?s = None" by (simp_all add: usr_run_defs)
  moreover have "(UMain, Close 3, replies 0) \<in> set (hist ?s)" unfolding h by simp
  ultimately show ?thesis using usr_run [OF run] by blast
qed

end
