(* ===== verification/Lists.thy ===== *)
theory Lists
  imports Prelude CLib
begin

text \<open>
  The programs on the kernel's linked lists: \<open>src/kernel/data_struct/list/zlist.c\<close>, \<open>zlist2.c\<close>,
  \<open>src/kernel/default_variable/this_module/zmodule.c\<close>, and \<open>src/linux/struct/container_of/container_of.c\<close>.

  A list is a ring of \<open>list_head\<close> nodes in memory, modelled as the two maps from node addresses to
  \<open>next\<close> and \<open>prev\<close>.  \<open>linked\<close> relates a ring to the sequence of its entries; the interface
  \<open>ring\<close> states what \<open>INIT_LIST_HEAD\<close>, \<open>list_add_tail\<close> and the loop macros owe their users, and is
  discharged for the pointer operations.  Addresses are 64-bit words, so \<open>container_of\<close> is a
  subtraction that may wrap.  \<open>ptr\<close> is how \<open>\<percent>p\<close> prints an address.
\<close>

type_synonym addr = u64

record links =
  nxt :: "addr \<Rightarrow> addr"
  prv :: "addr \<Rightarrow> addr"

definition INIT_LIST_HEAD :: "addr \<Rightarrow> links \<Rightarrow> links" where
  "INIT_LIST_HEAD h s = s\<lparr>nxt := (nxt s)(h := h), prv := (prv s)(h := h)\<rparr>"

definition list_add_between :: "addr \<Rightarrow> addr \<Rightarrow> addr \<Rightarrow> links \<Rightarrow> links" where
  "list_add_between new before after s =
     s\<lparr>prv := (prv s)(after := new, new := before), nxt := (nxt s)(new := after, before := new)\<rparr>"

definition list_add_tail :: "addr \<Rightarrow> addr \<Rightarrow> links \<Rightarrow> links" where
  "list_add_tail new head s = list_add_between new (prv s head) head s"

text \<open>
  The loop macros visit \<open>head->next\<close> and so on until they are back at \<open>head\<close>; a chain that never
  gets there is \<open>None\<close>.
\<close>

partial_function (option) list_walk :: "(addr \<Rightarrow> addr) \<Rightarrow> addr \<Rightarrow> addr \<Rightarrow> addr list option" where
  "list_walk nx head pos =
     (if pos = head then Some [] else Option.bind (list_walk nx head (nx pos)) (\<lambda>r. Some (pos # r)))"

definition list_for_each :: "addr \<Rightarrow> links \<Rightarrow> addr list option" where
  "list_for_each head s = list_walk (nxt s) head (nxt s head)"

definition container_of :: "addr \<Rightarrow> nat \<Rightarrow> addr" where
  "container_of p offset = p - of_nat offset"

definition list_for_each_entry :: "addr \<Rightarrow> nat \<Rightarrow> links \<Rightarrow> addr list option" where
  "list_for_each_entry head offset s = map_option (map (\<lambda>p. container_of p offset)) (list_for_each head s)"

section \<open>Rings\<close>

fun seg :: "links \<Rightarrow> addr \<Rightarrow> addr list \<Rightarrow> addr \<Rightarrow> bool" where
  "seg s a [] b = (nxt s a = b \<and> prv s b = a)"
| "seg s a (x # xs) b = (nxt s a = x \<and> prv s x = a \<and> seg s x xs b)"

definition linked :: "links \<Rightarrow> addr \<Rightarrow> addr list \<Rightarrow> bool" where
  "linked s head xs \<longleftrightarrow> seg s head xs head \<and> distinct (head # xs)"

lemma seg_prv_end: "seg s a xs b \<Longrightarrow> prv s b = last (a # xs)"
  by (induction xs arbitrary: a) auto

lemma seg_add:
  assumes "seg s a xs b" "distinct (a # xs)" "new \<notin> set (a # xs)" "new \<noteq> b" "b \<notin> set xs"
  shows "seg (list_add_between new (last (a # xs)) b s) a (xs @ [new]) b"
  using assms
proof (induction xs arbitrary: a)
  case (Cons x xs)
  then have "seg (list_add_between new (last (x # xs)) b s) x (xs @ [new]) b" by simp
  moreover have "a \<noteq> last (x # xs)" using Cons.prems(2) by (metis distinct.simps(2) last_in_set list.distinct(1))
  ultimately show ?case using Cons.prems by (auto simp: list_add_between_def)
qed (simp add: list_add_between_def)

lemma seg_walk: "seg s a xs b \<Longrightarrow> b \<notin> set xs \<Longrightarrow> list_walk (nxt s) b (nxt s a) = Some xs"
proof (induction xs arbitrary: a)
  case Nil
  then show ?case by (simp add: list_walk.simps)
next
  case (Cons x xs)
  then have "list_walk (nxt s) b (nxt s x) = Some xs" "nxt s a = x" "x \<noteq> b" by auto
  then show ?case by (subst list_walk.simps) simp
qed

text \<open>What the list operations promise: \<open>is_list s head xs\<close> says that \<open>head\<close> has the entries \<open>xs\<close>.\<close>

locale ring =
  fixes init :: "addr \<Rightarrow> 's \<Rightarrow> 's"
    and add :: "addr \<Rightarrow> addr \<Rightarrow> 's \<Rightarrow> 's"
    and entries :: "addr \<Rightarrow> 's \<Rightarrow> addr list option"
    and is_list :: "'s \<Rightarrow> addr \<Rightarrow> addr list \<Rightarrow> bool"
  assumes init_empty: "is_list (init h s) h []"
    and add_appends: "is_list s h xs \<Longrightarrow> new \<notin> set (h # xs) \<Longrightarrow> is_list (add new h s) h (xs @ [new])"
    and entries_all: "is_list s h xs \<Longrightarrow> entries h s = Some xs"
begin

text \<open>A list built from nodes of its own has them in the order in which they were added.\<close>

lemma build: "distinct (h # xs) \<Longrightarrow> is_list (fold (\<lambda>x s. add x h s) xs (init h s)) h xs"
proof (induction xs rule: rev_induct)
  case (snoc x xs)
  then show ?case using add_appends [of _ h xs x] by auto
qed (simp add: init_empty)

lemma build_entries: "distinct (h # xs) \<Longrightarrow> entries h (fold (\<lambda>x s. add x h s) xs (init h s)) = Some xs"
  by (rule entries_all [OF build])

end

interpretation klist: ring INIT_LIST_HEAD list_add_tail list_for_each linked
proof
  show "linked (INIT_LIST_HEAD h s) h []" for h s by (simp add: linked_def INIT_LIST_HEAD_def)
next
  fix s h xs new assume l: "linked s h xs" and n: "new \<notin> set (h # xs)"
  then have "prv s h = last (h # xs)" unfolding linked_def by (blast dest: seg_prv_end)
  with l n seg_add [of s h xs h new] show "linked (list_add_tail new h s) h (xs @ [new])"
    by (auto simp: linked_def list_add_tail_def)
next
  show "linked s h xs \<Longrightarrow> list_for_each h s = Some xs" for s h xs
    unfolding list_for_each_def linked_def by (rule seg_walk) simp_all
qed

lemma klist_entries:
  "linked s h xs \<Longrightarrow> list_for_each_entry h off s = Some (map (\<lambda>p. container_of p off) xs)"
  by (simp add: list_for_each_entry_def klist.entries_all)

lemma container_of_member [simp]: "container_of (a + of_nat off) off = a"
  by (simp add: container_of_def)


text \<open>
  The kernel's pointer lists behave as sequences: however the memory was before, a list that is
  initialised and to which the nodes \<open>xs\<close>, all different, are added one by one, is walked by
  \<open>list_for_each\<close> as exactly \<open>xs\<close>, in this order and to the end, and \<open>list_for_each_entry\<close> gives the
  structs around the nodes.
\<close>

theorem klist_is_sequence:
  assumes "distinct (h # xs)"
  shows "list_for_each h (fold (\<lambda>x s. list_add_tail x h s) xs (INIT_LIST_HEAD h s)) = Some xs
    \<and> list_for_each_entry h off (fold (\<lambda>x s. list_add_tail x h s) xs (INIT_LIST_HEAD h s)) = Some (map (\<lambda>p. container_of p off) xs)"
  using klist.build_entries [OF assms] klist_entries [OF klist.build [OF assms]] by blast

theorem klist_is_sequence_witness:
  "list_for_each 8 (fold (\<lambda>x s. list_add_tail x 8 s) [16, 24] (INIT_LIST_HEAD 8 \<lparr>nxt = id, prv = id\<rparr>)) = Some [16, 24]"
  using klist_is_sequence [of 8 "[16, 24]"] by simp

section \<open>\<open>zlist.c\<close> and \<open>zlist2.c\<close>\<close>

text \<open>
  Both structs have an \<open>int\<close>, a \<open>char\<close> and the links at offset 8.  A struct is known by its address;
  \<open>store\<close> holds the two values.  The structs that are added are variables of the \<open>init\<close> functions.
\<close>

definition FOO_LIST :: nat where "FOO_LIST = 8"

type_synonym foo_store = "addr \<Rightarrow> int \<times> char"

definition foo_line :: "(addr \<Rightarrow> string) \<Rightarrow> string \<Rightarrow> foo_store \<Rightarrow> addr \<Rightarrow> string" where
  "foo_line ptr name store p =
     name @ '':'' @ ptr p @ '' id:'' @ fmt_d (fst (store p)) @ '' c:'' @ [snd (store p)] @ nl"

definition list_member :: "addr \<Rightarrow> addr" where
  "list_member p = p + of_nat FOO_LIST"

definition addr_line :: "(addr \<Rightarrow> string) \<Rightarrow> string \<Rightarrow> addr \<Rightarrow> string" where
  "addr_line ptr name p = name @ '':'' @ ptr p @ '' list:'' @ ptr (list_member p) @ nl"

text \<open>The first module: \<open>None\<close> when a loop does not end.\<close>

definition zlist_init :: "(addr \<Rightarrow> string) \<Rightarrow> addr \<Rightarrow> addr \<Rightarrow> addr \<Rightarrow> foo_store \<Rightarrow> links \<Rightarrow> (string list \<times> foo_store \<times> links) option" where
  "zlist_init ptr myfoo foo1 foo2 store s =
     (let store = store(myfoo := (0, CHR ''a''), foo1 := (1, CHR ''b''), foo2 := (2, CHR ''c''));
          s = INIT_LIST_HEAD (list_member myfoo) s;
          s = list_add_tail (list_member foo1) (list_member myfoo) s;
          s = list_add_tail (list_member foo2) (list_member myfoo) s
      in do {
        nodes \<leftarrow> list_for_each (list_member myfoo) s;
        foos \<leftarrow> list_for_each_entry (list_member myfoo) FOO_LIST s;
        Some ([''ztest_init'' @ nl, addr_line ptr ''myfoo'' myfoo, addr_line ptr ''foo1'' foo1, addr_line ptr ''foo2'' foo2,
               ''list by list_for_each and list_entry:::'' @ nl]
              @ concat (map (\<lambda>l. [''tmp_list:'' @ ptr l @ nl, foo_line ptr ''tmp_foo'' store (container_of l FOO_LIST)]) nodes)
              @ [''list by list_for_each_entry:::'' @ nl]
              @ map (foo_line ptr ''tmp_foo'' store) foos, store, s)
      })"

text \<open>The second: the list head is \<open>datas\<close>, at offset 8 of \<open>myfoo\<close> as well.\<close>

definition print_data_struct :: "(addr \<Rightarrow> string) \<Rightarrow> foo_store \<Rightarrow> addr \<Rightarrow> string" where
  "print_data_struct ptr store p = ''data address:'' @ ptr p @ '' list:'' @ ptr (list_member p) @ '' id:'' @ fmt_d (fst (store p))
     @ '' c:'' @ [snd (store p)] @ nl"

definition zlist2_init :: "(addr \<Rightarrow> string) \<Rightarrow> addr \<Rightarrow> addr \<Rightarrow> addr \<Rightarrow> foo_store \<Rightarrow> links \<Rightarrow> (string list \<times> links) option" where
  "zlist2_init ptr myfoo data1 data2 store s =
     (let store = store(data1 := (1, CHR ''a''), data2 := (2, CHR ''b''));
          s = INIT_LIST_HEAD (list_member myfoo) s;
          s = list_add_tail (list_member data1) (list_member myfoo) s;
          s = list_add_tail (list_member data2) (list_member myfoo) s
      in do {
        datas \<leftarrow> list_for_each_entry (list_member myfoo) FOO_LIST s;
        Some ([''zlist2 init'' @ nl, print_data_struct ptr store data1, print_data_struct ptr store data2]
              @ map (foo_line ptr ''tmp_data'' store) datas, s)
      })"

lemma list_member_inj [simp]: "list_member p = list_member q \<longleftrightarrow> p = q"
  by (simp add: list_member_def)

lemma container_of_list_member [simp]: "container_of (list_member p) FOO_LIST = p"
  by (simp add: list_member_def)

lemma two_linked:
  assumes "distinct [a, b, c]"
  shows "linked (list_add_tail (list_member c) (list_member a) (list_add_tail (list_member b) (list_member a)
    (INIT_LIST_HEAD (list_member a) s))) (list_member a) [list_member b, list_member c]"
  using klist.build [of "list_member a" "[list_member b, list_member c]" s] assms by simp

text \<open>
  C15: The modules' loops end and show the entries in the order in which they were added, each with its
  own values: \<open>list_for_each\<close> with \<open>list_entry\<close> and \<open>list_for_each_entry\<close> visit the same structs, so the
  two listings of \<open>zlist.c\<close> are the same but for the node addresses.
\<close>

theorem zlist_shows_entries_in_order:
  assumes "distinct [myfoo, foo1, foo2]"
  shows "map_option fst (zlist_init ptr myfoo foo1 foo2 store s) =
       Some ([''ztest_init'' @ nl, addr_line ptr ''myfoo'' myfoo, addr_line ptr ''foo1'' foo1, addr_line ptr ''foo2'' foo2,
              ''list by list_for_each and list_entry:::'' @ nl,
              ''tmp_list:'' @ ptr (list_member foo1) @ nl, ''tmp_foo:'' @ ptr foo1 @ '' id:1 c:b'' @ nl,
              ''tmp_list:'' @ ptr (list_member foo2) @ nl, ''tmp_foo:'' @ ptr foo2 @ '' id:2 c:c'' @ nl,
              ''list by list_for_each_entry:::'' @ nl,
              ''tmp_foo:'' @ ptr foo1 @ '' id:1 c:b'' @ nl, ''tmp_foo:'' @ ptr foo2 @ '' id:2 c:c'' @ nl])
   \<and> map_option (drop 3 \<circ> fst) (zlist2_init ptr myfoo foo1 foo2 store s) =
       Some [''tmp_data:'' @ ptr foo1 @ '' id:1 c:a'' @ nl, ''tmp_data:'' @ ptr foo2 @ '' id:2 c:b'' @ nl]"
proof -
  note l = two_linked [OF assms, of s]
  have num: "fmt_d 1 = ''1''" "fmt_d 2 = ''2''" by code_simp+
  have "foo1 \<noteq> foo2" using assms by simp
  then show ?thesis
    by (simp add: zlist_init_def zlist2_init_def Let_def klist.entries_all [OF l] klist_entries [OF l] foo_line_def num)
qed

theorem zlist_shows_entries_in_order_witness:
  "map_option (drop 3 \<circ> fst) (zlist2_init (\<lambda>_. ''p'') 0x1000 0x2000 0x3000 (\<lambda>_. (0, CHR ''x'')) \<lparr>nxt = id, prv = id\<rparr>) =
     Some [''tmp_data:p id:1 c:a'' @ nl, ''tmp_data:p id:2 c:b'' @ nl]"
  using zlist_shows_entries_in_order [of "0x1000" "0x2000" "0x3000" "\<lambda>_. ''p''" "\<lambda>_. (0, CHR ''x'')" "\<lparr>nxt = id, prv = id\<rparr>"] by simp

section \<open>\<open>zmodule.c\<close>\<close>

text \<open>
  The loaded modules: \<open>mod_list\<close> and \<open>mod_uses\<close> are the offsets of \<open>list\<close> and \<open>target_list\<close> in
  \<open>struct module\<close>, \<open>use_list\<close> of \<open>target_list\<close> in \<open>struct module_use\<close>; \<open>this\<close> is \<open>THIS_MODULE\<close>.  The
  counter \<open>i\<close> starts at 1; the inner \<open>i\<close> is another variable.
\<close>

record module_layout =
  mod_list :: nat
  mod_uses :: nat
  use_list :: nat

definition module_lines :: "module_layout \<Rightarrow> (addr \<Rightarrow> string) \<Rightarrow> (addr \<Rightarrow> addr) \<Rightarrow> links \<Rightarrow> addr \<Rightarrow> string list option" where
  "module_lines y name target s m =
     map_option (\<lambda>us. (''mod name:'' @ name m @ '' depends::'') # map (\<lambda>u. '' '' @ name (target u)) us @ [nl])
       (list_for_each_entry (m + of_nat (mod_uses y)) (use_list y) s)"

fun modules_lines :: "(addr \<Rightarrow> string list option) \<Rightarrow> addr list \<Rightarrow> string list option" where
  "modules_lines f [] = Some []"
| "modules_lines f (m # ms) = do { ls \<leftarrow> f m; rest \<leftarrow> modules_lines f ms; Some (ls @ rest) }"

definition zmodule_init :: "module_layout \<Rightarrow> (addr \<Rightarrow> string) \<Rightarrow> (addr \<Rightarrow> addr) \<Rightarrow> (addr \<Rightarrow> string) \<Rightarrow> addr \<Rightarrow> addr \<Rightarrow> links \<Rightarrow>
    string list option" where
  "zmodule_init y name target ptr init_fn this s =
     do {
       ms \<leftarrow> list_for_each_entry (prv s (this + of_nat (mod_list y))) (mod_list y) s;
       ls \<leftarrow> modules_lines (module_lines y name target s) ms;
       Some ([''zmodule init '' @ ptr init_fn @ nl,
              ''THIS_MODULE:'' @ ptr this @ '' __this_module:'' @ ptr this @ '' module name:'' @ name this @ '' init:'' @ ptr init_fn @ nl]
             @ ls @ [''module num:'' @ fmt_d (1 + int (length ms)) @ nl])
     }"

lemma modules_lines_all:
  "(\<And>m. m \<in> set ms \<Longrightarrow> f m = Some (g m)) \<Longrightarrow> modules_lines f ms = Some (concat (map g ms))"
  by (induction ms) simp_all

text \<open>
  The module lists every loaded module once, in the order of the kernel's list, each with the modules
  it uses, and the loops end, provided it is the newest one, so that \<open>THIS_MODULE->list.prev\<close> is the
  head of the list; the number it prints is one too many.
\<close>

theorem zmodule_lists_modules:
  assumes "linked s modules (map (\<lambda>m. m + of_nat (mod_list y)) (this # rest))"
    and "\<forall>m\<in>set (this # rest). linked s (m + of_nat (mod_uses y)) (map (\<lambda>u. u + of_nat (use_list y)) (uses m))"
  shows "zmodule_init y name target ptr init_fn this s =
    Some ([''zmodule init '' @ ptr init_fn @ nl,
           ''THIS_MODULE:'' @ ptr this @ '' __this_module:'' @ ptr this @ '' module name:'' @ name this @ '' init:'' @ ptr init_fn @ nl]
      @ concat (map (\<lambda>m. (''mod name:'' @ name m @ '' depends::'') # map (\<lambda>u. '' '' @ name (target u)) (uses m) @ [nl]) (this # rest))
      @ [''module num:'' @ fmt_d (int (length (this # rest)) + 1) @ nl])"
proof -
  let ?g = "\<lambda>m. (''mod name:'' @ name m @ '' depends::'') # map (\<lambda>u. '' '' @ name (target u)) (uses m) @ [nl]"
  have head: "prv s (this + of_nat (mod_list y)) = modules" using assms(1) by (simp add: linked_def)
  have ms: "list_for_each_entry modules (mod_list y) s = Some (this # rest)"
    using klist_entries [OF assms(1), of "mod_list y"] by (simp add: comp_def)
  have "module_lines y name target s m = Some (?g m)" if "m \<in> set (this # rest)" for m
    using klist_entries [OF assms(2) [rule_format, OF that], of "use_list y"] by (simp add: module_lines_def comp_def)
  then have ls: "modules_lines (module_lines y name target s) (this # rest) = Some (concat (map ?g (this # rest)))"
    by (rule modules_lines_all)
  show ?thesis unfolding zmodule_init_def head ms bind.bind_lunit ls by (simp add: add.commute)
qed

definition one_module :: links where
  "one_module = list_add_tail 0x2008 0x1000 (INIT_LIST_HEAD 0x1000 (INIT_LIST_HEAD 0x2020 \<lparr>nxt = id, prv = id\<rparr>))"

theorem zmodule_lists_modules_witness:
  "map_option last (zmodule_init \<lparr>mod_list = 8, mod_uses = 32, use_list = 16\<rparr> (\<lambda>_. ''zmodule'') id (\<lambda>_. ''p'') 0 0x2000 one_module)
     = Some (''module num:2'' @ nl)"
proof -
  let ?y = "\<lparr>mod_list = 8, mod_uses = 32, use_list = 16\<rparr>"
  have "fmt_d 2 = ''2''" by code_simp
  moreover have "linked one_module 0x1000 (map (\<lambda>m. m + of_nat (mod_list ?y)) [0x2000])"
    by (simp add: one_module_def linked_def list_add_tail_def list_add_between_def INIT_LIST_HEAD_def)
  moreover have "\<forall>m\<in>set [0x2000]. linked one_module (m + of_nat (mod_uses ?y)) (map (\<lambda>u. u + of_nat (use_list ?y)) [])"
    by (simp add: one_module_def linked_def list_add_tail_def list_add_between_def INIT_LIST_HEAD_def)
  ultimately show ?thesis
    using zmodule_lists_modules [of one_module "0x1000" ?y "0x2000" "[]" "\<lambda>_. []" "\<lambda>_. ''zmodule''" id "\<lambda>_. ''p''" 0] by simp
qed

section \<open>\<open>container_of.c\<close>\<close>

text \<open>\<open>struct foo_info\<close> has \<open>i\<close>, \<open>c\<close> and \<open>t\<close> at the offsets 0, 4 and 8.\<close>

definition FOO_INFO_T :: nat where "FOO_INFO_T = 8"

definition container_of_main :: "(addr \<Rightarrow> string) \<Rightarrow> addr \<Rightarrow> string" where
  "container_of_main ptr info =
     ''info address:'' @ ptr info @ nl @ ''tmp address:'' @ ptr (container_of (info + of_nat FOO_INFO_T) FOO_INFO_T) @ nl"

text \<open>The program prints the same address twice, wherever the struct lies.\<close>

theorem container_of_returns_struct:
  "container_of_main ptr info = ''info address:'' @ ptr info @ nl @ ''tmp address:'' @ ptr info @ nl"
  by (simp add: container_of_main_def)

end
