(* ===== verification/MmapDev.thy ===== *)
theory MmapDev
  imports ModuleIface CLib
begin

text \<open>
  \<open>src/linux/mmap/mmap_lkm.c\<close> and \<open>mmap_user.c\<close>: a device whose memory a program maps and prints, and
  \<open>src/kernel/workqueue\<close>'s second module, which like the device gives back what it takes.

  Physical memory is a map from addresses to bytes; the device's block is known by its physical
  address.  A null pointer that is followed is \<open>Inl\<close>.
\<close>

section \<open>The driver\<close>

definition PAGE :: nat where "PAGE = 4096"
definition MMAP_DEV_SIZE :: nat where "MMAP_DEV_SIZE = 4096"

definition kernel_text :: string where "kernel_text = ''Hello kernel memeory!''"

datatype crash = NullPointer

definition mmap_lkm_init :: "kernel \<Rightarrow> (crash + int) kprog" where
  "mmap_lkm_init os =
     do {
       data \<leftarrow> call os (Kzalloc MMAP_DEV_SIZE);
       if data = 0 then State_Monad.return (Inl NullPointer)
       else do {
         _ \<leftarrow> call os (MiscRegister ''ztest'');
         State_Monad.return (Inr 0)
       }
     }"

definition mmap_lkm_exit :: "kernel \<Rightarrow> unit kprog" where
  "mmap_lkm_exit os = do { _ \<leftarrow> call os MiscDeregister; _ \<leftarrow> call os Kfree; State_Monad.return () }"

text \<open>The block after \<open>init\<close>: zeros, with the text copied over them.\<close>

definition dev_block :: bytes where
  "dev_block = patch (replicate MMAP_DEV_SIZE 0) 0 (of_cstr kernel_text)"

text \<open>
  \<open>my_mmap\<close>: \<open>phys\<close> is \<open>virt_to_phys(my_dev.data)\<close>, \<open>remap\<close> is \<open>remap_pfn_range\<close>.  The result is the
  status and what was mapped: start, page frame and length.
\<close>

definition EINVAL_mmap :: int where "EINVAL_mmap = 22"
definition EAGAIN_mmap :: int where "EAGAIN_mmap = 11"

definition mmap_lkm_mmap :: "(nat \<Rightarrow> nat \<Rightarrow> nat \<Rightarrow> int) \<Rightarrow> nat \<Rightarrow> u64 \<Rightarrow> u64 \<Rightarrow> int \<times> (nat \<times> nat \<times> nat) option" where
  "mmap_lkm_mmap remap phys vm_start vm_end =
     (let start = unat vm_start; sz = unat (vm_end - vm_start) in
      if MMAP_DEV_SIZE < sz then (- EINVAL_mmap, None)
      else let page = phys div PAGE in
        if remap start page MMAP_DEV_SIZE \<noteq> 0 then (- EAGAIN_mmap, None)
        else (0, Some (start, page, MMAP_DEV_SIZE)))"

section \<open>The program\<close>

definition USER_MMAP_LEN :: nat where "USER_MMAP_LEN = 256"

text \<open>
  How the program ends: with a status and its output, or by printing an array that holds no zero.
  \<open>fd\<close> and \<open>addr\<close> are the results of \<open>open\<close> and \<open>mmap\<close>, \<open>view\<close> the mapped page.
\<close>

datatype user_end = UserExit int string | UserOverrun

definition strncpy_into :: "nat \<Rightarrow> bytes \<Rightarrow> bytes" where
  "strncpy_into n src = (let t = take n (takeWhile (\<lambda>b. b \<noteq> 0) src) in t @ replicate (n - length t) 0)"

definition mmap_user_main :: "(int \<Rightarrow> string) \<Rightarrow> int \<Rightarrow> int \<Rightarrow> bytes \<Rightarrow> user_end" where
  "mmap_user_main ptr fd addr view =
     (if fd = - 1 then UserExit 1 []
      else if addr = - 1 then UserExit 1 []
      else if 0 \<notin> set view then UserOverrun
      else let buf = strncpy_into USER_MMAP_LEN view in
        if 0 \<notin> set buf then UserOverrun
        else UserExit 0 (''mmap addr:'' @ ptr addr @ nl @ cstr view @ nl @ ''buf:'' @ cstr buf @ nl))"

section \<open>The work-queue module\<close>

definition workqueue_b_init :: "kernel \<Rightarrow> int kprog" where
  "workqueue_b_init os =
     do {
       _ \<leftarrow> call os (Printk (''Demo work_queue_b init'' @ nl));
       queue \<leftarrow> call os (CreateWorkqueue ''workqueue demo'');
       if queue = 0 then do {
         _ \<leftarrow> call os (Printk (''Demo work_queue fail create_singlethread_workqueue'' @ nl));
         State_Monad.return (- 1)
       } else do {
         _ \<leftarrow> call os InitWork;
         _ \<leftarrow> call os QueueWork;
         _ \<leftarrow> call os (Printk (''Demo work_queue_b init end'' @ nl));
         State_Monad.return 0
       }
     }"

definition workqueue_b_exit :: "kernel \<Rightarrow> unit kprog" where
  "workqueue_b_exit os =
     do { _ \<leftarrow> call os (Printk (''Demo work_queue_b exit'' @ nl)); _ \<leftarrow> call os DestroyWorkqueue; State_Monad.return () }"

text \<open>The loader's view of the driver's \<open>init\<close>.\<close>

definition loaded :: "(crash + int) kprog \<Rightarrow> int kprog" where
  "loaded m = do { x \<leftarrow> m; State_Monad.return (case x of Inl c \<Rightarrow> - 1 | Inr r \<Rightarrow> r) }"

interpretation mmap_lkm: module_lifecycle "\<lambda>os. loaded (mmap_lkm_init os)" mmap_lkm_exit "{#Memory, Misc#}"
    "\<lambda>os. \<forall>h name. os h (MiscRegister name) = 0"
  by unfold_locales
     (auto simp: loaded_def mmap_lkm_init_def mmap_lkm_exit_def add_mset_commute split: if_splits)

interpretation workqueue_b: module_lifecycle workqueue_b_init workqueue_b_exit "{#Workqueue#}" "\<lambda>os. True"
  by unfold_locales (auto simp: workqueue_b_init_def workqueue_b_exit_def split: if_splits)

section \<open>Results\<close>

text \<open>
  The work-queue module, and the driver when its device can be registered, give back what they take:
  any number of load and unload cycles leaves nothing held.
\<close>

theorem mmap_and_workqueue_cycles_balanced:
  assumes "\<And>h name. os h (MiscRegister name) = 0"
  shows "(run_state (cycles n (load_unload (\<lambda>os. loaded (mmap_lkm_init os)) mmap_lkm_exit os)) h = (True, h') \<longrightarrow> held h' = held h)
    \<and> (run_state (cycles n (load_unload workqueue_b_init workqueue_b_exit os)) h = (True, h') \<longrightarrow> held h' = held h)"
  using mmap_lkm.cycles_balanced [where os = os and n = n and h = h and h' = h']
    workqueue_b.cycles_balanced [where os = os and n = n and h = h and h' = h'] assms by blast


definition obliging_kernel :: kernel where
  "obliging_kernel h c = (if c = Kzalloc MMAP_DEV_SIZE then 1 else 0)"

lemma obliging_kernel_simps [simp]:
  "obliging_kernel h (Kzalloc MMAP_DEV_SIZE) = 1" "obliging_kernel h (MiscRegister name) = 0"
  by (simp_all add: obliging_kernel_def)

theorem mmap_and_workqueue_cycles_balanced_witness:
  "held (snd (run_state (cycles (Suc (Suc 0)) (load_unload (\<lambda>os. loaded (mmap_lkm_init os)) mmap_lkm_exit obliging_kernel)) [])) = {#}"
proof -
  let ?m = "cycles (Suc (Suc 0)) (load_unload (\<lambda>os. loaded (mmap_lkm_init os)) mmap_lkm_exit obliging_kernel)"
  have "fst (run_state ?m []) = True"
    by (simp add: load_unload_def loaded_def mmap_lkm_init_def mmap_lkm_exit_def)
  then have "run_state ?m [] = (True, snd (run_state ?m []))" by (metis prod.collapse)
  moreover have "run_state ?m [] = (True, snd (run_state ?m [])) \<longrightarrow> held (snd (run_state ?m [])) = held []"
    by (rule conjunct1 [OF mmap_and_workqueue_cycles_balanced [where os = obliging_kernel and n = "Suc (Suc 0)"]]) simp
  ultimately show ?thesis unfolding held_Nil by (rule mp [rotated])
qed

text \<open>What the driver maps is what was asked for, since areas are made of whole pages.\<close>

lemma mmap_lkm_maps_area:
  assumes "unat (vm_end - vm_start) = k * PAGE" "0 < k"
  shows "k = 1 \<Longrightarrow> remap (unat vm_start) (phys div PAGE) MMAP_DEV_SIZE = 0 \<Longrightarrow>
      mmap_lkm_mmap remap phys vm_start vm_end = (0, Some (unat vm_start, phys div PAGE, unat (vm_end - vm_start)))"
    and "1 < k \<Longrightarrow> mmap_lkm_mmap remap phys vm_start vm_end = (- EINVAL_mmap, None)"
  using assms by (simp_all add: mmap_lkm_mmap_def PAGE_def MMAP_DEV_SIZE_def)

definition seen :: "(nat \<Rightarrow> byte) \<Rightarrow> nat \<times> nat \<times> nat \<Rightarrow> bytes" where
  "seen phys_mem m = (case m of (start, page, len) \<Rightarrow> map (\<lambda>i. phys_mem (page * PAGE + i)) [0..<len])"

lemma kernel_text_no_nul: "CHR 0x00 \<notin> set kernel_text"
  by (simp add: kernel_text_def)

lemma length_kernel_text: "length kernel_text = 21"
  by (simp add: kernel_text_def)

lemma dev_block_eq: "dev_block = of_cstr kernel_text @ 0 # replicate 4074 0"
proof -
  have l: "length (of_cstr kernel_text) = 21" by (simp add: of_cstr_def length_kernel_text)
  have "dev_block = of_cstr kernel_text @ replicate (4096 - 21) 0"
    unfolding dev_block_def patch_def MMAP_DEV_SIZE_def l by (simp add: drop_replicate)
  also have "4096 - 21 = Suc 4074" by simp
  finally show ?thesis by (simp only: replicate_Suc)
qed

lemma cstr_dev_block: "cstr dev_block = kernel_text"
  unfolding dev_block_eq by (rule cstr_of_cstr_nul [OF kernel_text_no_nul])

lemma strncpy_dev_block: "cstr (strncpy_into USER_MMAP_LEN dev_block) = kernel_text" "0 \<in> set (strncpy_into USER_MMAP_LEN dev_block)"
proof -
  have "takeWhile (\<lambda>b. b \<noteq> 0) dev_block = of_cstr kernel_text"
    unfolding dev_block_eq using of_cstr_nonzero [OF kernel_text_no_nul] by (simp add: takeWhile_append2)
  moreover have "length (of_cstr kernel_text) = 21" by (simp add: of_cstr_def length_kernel_text)
  ultimately have *: "strncpy_into USER_MMAP_LEN dev_block = of_cstr kernel_text @ replicate (Suc 234) 0"
    by (simp add: strncpy_into_def USER_MMAP_LEN_def)
  show "0 \<in> set (strncpy_into USER_MMAP_LEN dev_block)" unfolding * by simp
  show "cstr (strncpy_into USER_MMAP_LEN dev_block) = kernel_text"
    unfolding * replicate_Suc by (rule cstr_of_cstr_nul [OF kernel_text_no_nul])
qed

lemma seen_block:
  assumes "phys mod PAGE = 0" "\<forall>i<PAGE. phys_mem (phys + i) = dev_block ! i"
  shows "seen phys_mem (start, phys div PAGE, PAGE) = dev_block"
proof (rule nth_equalityI)
  have "length (of_cstr kernel_text) = 21" by (simp add: of_cstr_def length_kernel_text)
  then have l: "length dev_block = PAGE" unfolding dev_block_eq by (simp add: PAGE_def)
  then show "length (seen phys_mem (start, phys div PAGE, PAGE)) = length dev_block" by (simp add: seen_def)
  have "phys div PAGE * PAGE = phys" using assms(1) by auto
  then show "i < length (seen phys_mem (start, phys div PAGE, PAGE)) \<Longrightarrow> seen phys_mem (start, phys div PAGE, PAGE) ! i = dev_block ! i" for i
    using assms(2) by (simp add: seen_def)
qed

text \<open>
  C30: The program shows the kernel's text: it maps 256 bytes, which the kernel rounds up to one page, the
  driver maps exactly that page, and the program prints \<open>Hello kernel memeory!\<close> twice and ends with
  success, when the device's block starts at a page; a larger mapping is refused.
\<close>

theorem mmap_user_shows_kernel_text:
  assumes "phys mod PAGE = 0" "\<forall>i<PAGE. phys_mem (phys + i) = dev_block ! i"
    and "unat (vm_end - vm_start) = PAGE" "remap (unat vm_start) (phys div PAGE) PAGE = 0" "fd \<noteq> - 1" "addr \<noteq> - 1"
  shows "\<exists>m. mmap_lkm_mmap remap phys vm_start vm_end = (0, Some m)
    \<and> mmap_user_main ptr fd addr (seen phys_mem m) =
        UserExit 0 (''mmap addr:'' @ ptr addr @ nl @ kernel_text @ nl @ ''buf:'' @ kernel_text @ nl)
    \<and> (\<forall>k e. 1 < k \<longrightarrow> unat (e - vm_start) = k * PAGE \<longrightarrow> mmap_lkm_mmap remap phys vm_start e = (- EINVAL_mmap, None))"
proof -
  have size: "MMAP_DEV_SIZE = PAGE" by (simp add: PAGE_def MMAP_DEV_SIZE_def)
  have m: "mmap_lkm_mmap remap phys vm_start vm_end = (0, Some (unat vm_start, phys div PAGE, PAGE))"
    using mmap_lkm_maps_area(1) [of vm_end vm_start 1 remap phys] assms(3,4) size by simp
  have "0 \<in> set dev_block" unfolding dev_block_eq by simp
  then have "mmap_user_main ptr fd addr dev_block =
      UserExit 0 (''mmap addr:'' @ ptr addr @ nl @ kernel_text @ nl @ ''buf:'' @ kernel_text @ nl)"
    using assms(5,6) strncpy_dev_block by (simp add: mmap_user_main_def Let_def cstr_dev_block)
  with m seen_block [OF assms(1,2)] mmap_lkm_maps_area(2) show ?thesis by (metis less_trans zero_less_one)
qed



theorem mmap_user_shows_kernel_text_witness:
  "\<exists>m. mmap_lkm_mmap (\<lambda>a b c. 0) PAGE 0x10000 0x11000 = (0, Some m)
    \<and> mmap_user_main (\<lambda>_. ''p'') 3 0x10000 (seen (\<lambda>a. dev_block ! (a - PAGE)) m) =
        UserExit 0 (''mmap addr:p'' @ nl @ kernel_text @ nl @ ''buf:'' @ kernel_text @ nl)"
  using mmap_user_shows_kernel_text [of PAGE "\<lambda>a. dev_block ! (a - PAGE)" "0x11000" "0x10000" "\<lambda>a b c. 0" 3 "0x10000" "\<lambda>_. ''p''"]
  by (auto simp: PAGE_def)

end
