(* ===== verification/SysReg.thy ===== *)
theory SysReg
  imports ModuleIface CLib
begin

text \<open>
  \<open>src/kernel/linux_memory/mm_addr/sys_reg.c\<close> and \<open>mem_map.c\<close>: a \<open>/proc\<close> file with the control registers,
  and a program that prints it.

  The read handler prints straight into the reader's memory with \<open>sprintf\<close>, which is possible as long
  as the processor lets the kernel access user pages.  \<open>ubuf\<close> is the reader's memory from the buffer
  on, as far as it is mapped; storing behind it is \<open>Inl\<close>.
\<close>

section \<open>The handler\<close>

record sys_regs =
  cr0 :: u64
  cr3 :: u64
  cr4 :: u64
  pgd :: u64
  pgd_pa :: u64
  gdt_address :: u64
  gdt_limit :: "16 word"

datatype user_fault = UserFault

definition lX :: "u64 \<Rightarrow> string" where "lX w = fmt_X (unat w)"

text \<open>\<open>limit\<close> is a \<open>short\<close>, printed as an unsigned \<open>int\<close> after sign extension.\<close>

definition limit_X :: "16 word \<Rightarrow> string" where "limit_X w = fmt_X (c_uint (sint w))"

definition reg_text :: "sys_regs \<Rightarrow> string" where
  "reg_text g =
     ''cr4='' @ lX (cr4 g) @ ''  '' @ ''PSE='' @ lX (and (drop_bit 4 (cr4 g)) 1) @ ''  ''
     @ ''PAE='' @ lX (and (drop_bit 5 (cr4 g)) 1) @ ''  '' @ nl
     @ ''cr3='' @ lX (cr3 g) @ '' cr0='' @ lX (cr0 g) @ nl
     @ ''pgd:0x'' @ lX (pgd g) @ nl @ ''pgd pa:0x'' @ lX (pgd_pa g) @ nl
     @ ''gdtr address:'' @ lX (gdt_address g) @ '', limit:'' @ limit_X (gdt_limit g) @ nl"

text \<open>\<open>sprintf(buf, \<dots>)\<close>: the text and its zero.\<close>

definition sprintf_user :: "bytes \<Rightarrow> string \<Rightarrow> user_fault + bytes" where
  "sprintf_user ubuf t =
     (if length ubuf < length t + 1 then Inl UserFault else Inr (patch ubuf 0 (of_cstr t @ [0])))"

definition my_get_info :: "sys_regs \<Rightarrow> bytes \<Rightarrow> nat \<Rightarrow> nat \<Rightarrow> user_fault + int \<times> bytes" where
  "my_get_info g ubuf count0 off =
     (case sprintf_user ubuf (reg_text g) of Inl f \<Rightarrow> Inl f | Inr ubuf' \<Rightarrow> Inr (int count0, ubuf'))"

section \<open>Set-up and tear-down\<close>

text \<open>\<open>mode\<close> 0 is the default of \<open>proc_create\<close>; the result of a failed creation is passed on.\<close>

definition EFAULT_sys_reg :: int where "EFAULT_sys_reg = 14"

definition sys_reg_init :: "kernel \<Rightarrow> int kprog" where
  "sys_reg_init os =
     do {
       _ \<leftarrow> call os (Printk (''<1>'' @ nl @ ''Installing '' @ [CHR 0x27] @ ''sys_reg'' @ [CHR 0x27] @ '' module'' @ nl));
       gdt_cr_entry \<leftarrow> call os (ProcCreate ''sys_reg'' 0);
       if gdt_cr_entry = 0 then do {
         _ \<leftarrow> call os (Printk (''can'' @ [CHR 0x27] @ ''t create /proc/sys_reg '' @ nl));
         State_Monad.return (- EFAULT_sys_reg)
       } else State_Monad.return 0
     }"

definition sys_reg_exit :: "kernel \<Rightarrow> unit kprog" where
  "sys_reg_exit os =
     do {
       _ \<leftarrow> call os (ProcRemove ''sys_reg'');
       _ \<leftarrow> call os (Printk (''<1>Removing '' @ [CHR 0x27] @ ''sys_reg'' @ [CHR 0x27] @ '' module'' @ nl));
       State_Monad.return ()
     }"

interpretation sys_reg: module_lifecycle sys_reg_init sys_reg_exit "{#ProcEntry ''sys_reg''#}" "\<lambda>os. True"
  by unfold_locales (auto simp: sys_reg_init_def sys_reg_exit_def EFAULT_sys_reg_def split: if_splits)

text \<open>
  A load that fails leaves nothing behind, and any number of load and unload cycles leaves nothing held.
\<close>

theorem sys_reg_cycles_balanced:
  assumes "run_state (cycles n (load_unload sys_reg_init sys_reg_exit os)) h = (ok, h')"
  shows "held h' = held h"
  using assms
proof (induction n arbitrary: h)
  case (Suc n)
  obtain ok1 h1 where r: "run_state (load_unload sys_reg_init sys_reg_exit os) h = (ok1, h1)" by fastforce
  have "held h1 = held h"
  proof (cases ok1)
    case True
    with r show ?thesis by (intro sys_reg.load_unload_balanced [OF TrueI]) simp
  next
    case False
    with r show ?thesis
      by (auto simp: load_unload_def sys_reg_init_def sys_reg_exit_def EFAULT_sys_reg_def split: if_splits)
  qed
  with Suc r show ?case by (auto split: if_splits)
qed simp

theorem sys_reg_cycles_balanced_witness:
  "held (snd (run_state (cycles 2 (load_unload sys_reg_init sys_reg_exit (\<lambda>h c. 0))) [])) = {#}"
  using sys_reg_cycles_balanced [of 2 "\<lambda>h c. 0" "[]" "fst (run_state (cycles 2 (load_unload sys_reg_init sys_reg_exit (\<lambda>h c. 0))) [])"
      "snd (run_state (cycles 2 (load_unload sys_reg_init sys_reg_exit (\<lambda>h c. 0))) [])"]
  by simp

section \<open>The program\<close>

definition MEM_BUFSIZE :: nat where "MEM_BUFSIZE = 4096"

text \<open>
  \<open>FILE_TO_BUF\<close>: \<open>opened\<close> is the result of \<open>open\<close>, \<open>read_file\<close> of \<open>read\<close> on the static buffer; \<open>rbp\<close>
  and \<open>tmp_addr\<close> are the two addresses that the program prints first.  The result is the status and the
  output, or the fault.
\<close>

definition mem_map_main :: "int \<Rightarrow> (bytes \<Rightarrow> nat \<Rightarrow> user_fault + int \<times> bytes) \<Rightarrow> u64 \<Rightarrow> u64 \<Rightarrow> user_fault + int \<times> string" where
  "mem_map_main opened read_file rbp tmp_addr =
     (let out = nl @ ''%ebp:0x'' @ lX rbp @ nl @ ''tmp address:0x'' @ lX tmp_addr @ nl in
      if opened = - 1 then Inr (102, out)
      else case read_file (replicate MEM_BUFSIZE 0) (MEM_BUFSIZE - 1) of
          Inl f \<Rightarrow> Inl f
        | Inr (n, buf) \<Rightarrow> if n < 0 then Inr (103, out) else Inr (0, out @ cstr (buf[nat n := 0])))"

section \<open>Results\<close>

lemma length_lX: "length (lX w) \<le> 16"
  unfolding lX_def by (rule length_fmt_X) (use u64_less [of w] in simp_all)

lemma length_limit_X: "length (limit_X w) \<le> 8"
  unfolding limit_X_def by (rule length_fmt_X) (use c_uint_less in simp_all)

text \<open>The text never has more than 206 characters.\<close>

lemma reg_text_length: "length (reg_text g) \<le> 206"
proof -
  note l = length_lX [of "cr4 g"] length_lX [of "and (drop_bit 4 (cr4 g)) 1"] length_lX [of "and (drop_bit 5 (cr4 g)) 1"]
    length_lX [of "cr3 g"] length_lX [of "cr0 g"] length_lX [of "pgd g"] length_lX [of "pgd_pa g"] length_lX [of "gdt_address g"]
    length_limit_X [of "gdt_limit g"]
  have "length nl = 1" by (simp add: nl_def)
  with l show ?thesis unfolding reg_text_def by simp
qed

lemma fmt_X_no_nul: "CHR 0x00 \<notin> set (fmt_X n)"
  unfolding fmt_X_def by (rule map_digit_char_no_nul) (use to_base_digits [of 16 _ n] in fastforce)

lemma reg_text_no_nul: "CHR 0x00 \<notin> set (reg_text g)"
  using fmt_X_no_nul by (auto simp: reg_text_def lX_def limit_X_def nl_def)


lemma my_get_info_fits:
  assumes "length (reg_text g) < length ubuf"
  shows "my_get_info g ubuf n off = Inr (int n, patch ubuf 0 (of_cstr (reg_text g) @ [0]))"
  using assms by (simp add: my_get_info_def sprintf_user_def)

text \<open>
  C32: The program shows the registers: on a system where the file can be opened, it prints its two
  addresses and then the driver's text, the whole of it and nothing else, and ends with status 0; its
  buffer is always large enough, as the text has at most 206 characters.
\<close>

theorem mem_map_shows_registers:
  assumes "opened \<noteq> - 1"
  shows "mem_map_main opened (\<lambda>buf n. my_get_info g buf n 0) rbp tmp_addr =
      Inr (0, nl @ ''%ebp:0x'' @ lX rbp @ nl @ ''tmp address:0x'' @ lX tmp_addr @ nl @ reg_text g)
    \<and> length (reg_text g) \<le> 206"
proof -
  let ?t = "of_cstr (reg_text g)"
  have l: "length ?t \<le> 206" using reg_text_length [of g] by (simp add: of_cstr_def)
  have "my_get_info g (replicate MEM_BUFSIZE 0) (MEM_BUFSIZE - 1) 0
      = Inr (int (MEM_BUFSIZE - 1), patch (replicate MEM_BUFSIZE 0) 0 (?t @ [0]))"
    by (rule my_get_info_fits) (use reg_text_length [of g] in \<open>simp add: MEM_BUFSIZE_def\<close>)
  moreover have "(patch (replicate MEM_BUFSIZE 0) 0 (?t @ [0]))[nat (int (MEM_BUFSIZE - 1)) := 0]
      = ?t @ 0 # (replicate (MEM_BUFSIZE - (length ?t + 1)) 0)[MEM_BUFSIZE - 1 - (length ?t + 1) := 0]"
  proof -
    have "4095 - length ?t = Suc (4094 - length ?t)" using l by simp
    with l show ?thesis by (simp add: patch_def MEM_BUFSIZE_def list_update_append)
  qed
  ultimately show ?thesis
    using assms reg_text_length [of g] cstr_of_cstr_nul [OF reg_text_no_nul]
    by (simp add: mem_map_main_def Let_def MEM_BUFSIZE_def)
qed

theorem mem_map_shows_registers_witness:
  "\<exists>t. mem_map_main 3 (\<lambda>buf n. my_get_info \<lparr>cr0 = 1, cr3 = 2, cr4 = 48, pgd = 3, pgd_pa = 4, gdt_address = 5, gdt_limit = 127\<rparr> buf n 0) 6 7
     = Inr (0, nl @ ''%ebp:0x'' @ lX 6 @ nl @ ''tmp address:0x'' @ lX 7 @ nl @ t)"
  using mem_map_shows_registers [of 3 "\<lparr>cr0 = 1, cr3 = 2, cr4 = 48, pgd = 3, pgd_pa = 4, gdt_address = 5, gdt_limit = 127\<rparr>" 6 7]
  by auto

text \<open>
  The handler obeys neither its count nor its offset: every read of \<open>n\<close> bytes claims to have delivered
  \<open>n\<close>, so a reader never sees the end of the file, and stores the whole text even when the reader asked
  for fewer bytes, overrunning a buffer that is as long as the count.
\<close>

theorem sys_reg_ignores_count:
  "(length (reg_text g) < length ubuf \<longrightarrow> (\<exists>ubuf'. my_get_info g ubuf n off = Inr (int n, ubuf') \<and> cstr ubuf' = reg_text g))
   \<and> (length ubuf \<le> length (reg_text g) \<longrightarrow> my_get_info g ubuf (length ubuf) off = Inl UserFault)"
proof (intro conjI impI)
  assume a: "length (reg_text g) < length ubuf"
  then have "cstr (patch ubuf 0 (of_cstr (reg_text g) @ [0])) = reg_text g"
    using cstr_of_cstr_nul [OF reg_text_no_nul] by (simp add: patch_def)
  with my_get_info_fits [OF a] show "\<exists>ubuf'. my_get_info g ubuf n off = Inr (int n, ubuf') \<and> cstr ubuf' = reg_text g" by blast
qed (simp add: my_get_info_def sprintf_user_def)

theorem sys_reg_ignores_count_witness:
  "my_get_info \<lparr>cr0 = 1, cr3 = 2, cr4 = 48, pgd = 3, pgd_pa = 4, gdt_address = 5, gdt_limit = 127\<rparr> [0, 0, 0] (length [0, 0, 0 :: byte]) 0 = Inl UserFault"
proof -
  let ?g = "\<lparr>cr0 = 1, cr3 = 2, cr4 = 48, pgd = 3, pgd_pa = 4, gdt_address = 5, gdt_limit = 127\<rparr> :: sys_regs"
  have "3 \<le> length (reg_text ?g)" by (simp add: reg_text_def)
  then show ?thesis using sys_reg_ignores_count [of ?g "[0, 0, 0]" 3 0] by simp
qed

end
