(* ===== verification/Numa.thy ===== *)
theory Numa
  imports Prelude CLib
begin

text \<open>
  \<open>src/linux/numa/numaget.c\<close> and \<open>numaset.c\<close>: get and set the memory policy of the process.

  Both allocate the node mask with a size computed from \<open>maxnode\<close>, an \<open>unsigned long\<close> that is read
  with \<open>atoi\<close>.  \<open>malloc\<close> gives a block of arbitrary bytes of the size asked for, or \<open>None\<close>; storing or
  reading outside the block, or through a null pointer, is \<open>Inl\<close>.
\<close>

section \<open>The programs\<close>

datatype numa_fault = NullMask | OutsideMask

text \<open>\<open>((maxnode + perlength - 1) / perlength) * perlength\<close>\<close>

definition mask_size :: "nat \<Rightarrow> nat" where
  "mask_size maxnode = c_ulong (int (c_ulong (int maxnode + 8 - 1) div 8 * 8))"

definition arg_or :: "string list \<Rightarrow> nat \<Rightarrow> nat \<Rightarrow> nat" where
  "arg_or argv i d = (if i < length argv then c_ulong (atoi (argv ! i)) else d)"

text \<open>
  \<open>set_mempolicy\<close> is a parameter: from the mode, the mask's bytes and \<open>maxnode\<close> it gives its result.
  The result is the mask that was passed and the output.
\<close>

definition numaset_main :: "(nat \<Rightarrow> bytes option) \<Rightarrow> (int \<Rightarrow> bytes \<Rightarrow> nat \<Rightarrow> int) \<Rightarrow> int \<Rightarrow> string list \<Rightarrow>
    numa_fault + bytes \<times> string" where
  "numaset_main malloc set_mempolicy pid argv =
     (let mode = (if 1 < length argv then atoi (argv ! 1) else 2);
          mask0 = arg_or argv 2 1; maxnode = arg_or argv 3 1025;
          out = ''mode:'' @ fmt_d mode @ '' mask:0x'' @ fmt_x (c_uint (int mask0)) @ '' maxnode:'' @ fmt_d (c_int (int maxnode)) @ nl in
      case malloc (mask_size maxnode) of
        None \<Rightarrow> Inl NullMask
      | Some block \<Rightarrow>
          if length block < 8 then Inl OutsideMask
          else let mask = patch block 0 (le_bytes 8 mask0);
                   ret = set_mempolicy mode mask maxnode in
            Inr (mask, out @ ''pid:'' @ fmt_d pid @ nl))"

text \<open>
  \<open>get_mempolicy\<close> gives its result, the mode, and the bytes it stores into the mask; without a mask
  it stores none.  \<open>None\<close> in the result is the return value 1.
\<close>

definition numaget_main :: "(nat \<Rightarrow> bytes option) \<Rightarrow> (nat option \<Rightarrow> int \<times> int \<times> bytes) \<Rightarrow> string list \<Rightarrow>
    numa_fault + int \<times> string" where
  "numaget_main malloc get_mempolicy argv =
     (let maxnode = arg_or argv 1 1025;
          out = (if 1 < length argv then ''maxnode:'' @ fmt_d (c_int (int maxnode)) @ nl else []);
          (ret, mode, _) = get_mempolicy None in
      if ret = - 1 then Inr (1, out)
      else let out = out @ ''mode:'' @ fmt_d mode @ nl in
        (case malloc (mask_size maxnode) of
           None \<Rightarrow> Inl NullMask
         | Some block \<Rightarrow>
             let (ret, mode, bs) = get_mempolicy (Some maxnode) in
             if length block < length bs then Inl OutsideMask
             else if ret = - 1 then Inr (1, out)
             else if length block < 8 then Inl OutsideMask
             else Inr (0, out @ ''mode:'' @ fmt_d mode @ '' mask:0x'' @ fmt_x (le_nat (take 4 (patch block 0 bs))) @ nl)))"

section \<open>Results\<close>

lemma mask_size_eq:
  assumes "maxnode < 2 ^ 64 - 7"
  shows "mask_size maxnode = (maxnode + 7) div 8 * 8"
proof -
  have a: "int maxnode + 8 - 1 = int (maxnode + 7)" by simp
  have b: "c_ulong (int (maxnode + 7)) = maxnode + 7" using assms by (simp add: c_ulong_def)
  have "(maxnode + 7) div 8 * 8 \<le> maxnode + 7" by simp
  then have "(maxnode + 7) div 8 * 8 < 2 ^ 64" using assms by linarith
  then show ?thesis unfolding mask_size_def a b by (simp add: c_ulong_def)
qed

lemma mask_size_wraps:
  assumes "2 ^ 64 - 7 \<le> maxnode" "maxnode < 2 ^ 64"
  shows "mask_size maxnode = 0"
proof -
  have a: "int maxnode + 8 - 1 = int (maxnode + 7)" by simp
  have "(maxnode + 7) mod 2 ^ 64 = maxnode + 7 - 2 ^ 64"
    using assms by (simp add: mod_if)
  then have "c_ulong (int (maxnode + 7)) = maxnode + 7 - 2 ^ 64" by (simp add: c_ulong_def nat_mod_distrib del: of_nat_add)
  moreover have "maxnode + 7 - 2 ^ 64 < 8" using assms by simp
  ultimately show ?thesis unfolding mask_size_def a by (simp add: c_ulong_def)
qed

lemma mask_size_enough:
  assumes "0 < maxnode" "maxnode < 2 ^ 64 - 7"
  shows "8 \<le> mask_size maxnode" "maxnode \<le> 8 * mask_size maxnode" "(maxnode - 1 + 63) div 64 * 8 \<le> mask_size maxnode"
proof -
  have "1 \<le> (maxnode + 7) div 8" using div_le_mono [of 8 "maxnode + 7" 8] assms(1) by simp
  then have "8 \<le> (maxnode + 7) div 8 * 8" by simp
  moreover have "maxnode \<le> (maxnode + 7) div 8 * 8"
    using div_mult_mod_eq [of "maxnode + 7" 8] mod_less_divisor [of 8 "maxnode + 7"] by linarith
  then have "maxnode \<le> 8 * ((maxnode + 7) div 8 * 8)" by linarith
  moreover have "(maxnode - 1 + 63) div 64 * 8 \<le> (maxnode + 7) div 8 * 8"
  proof -
    have "(maxnode - 1 + 63) div 64 = (maxnode + 62) div 8 div 8" using assms(1) by (simp add: div_mult2_eq [symmetric])
    also have "\<dots> \<le> (maxnode + 7 + 8 * 7) div 8 div 8" by (intro div_le_mono) simp
    also have "\<dots> = ((maxnode + 7) div 8 + 7) div 8" by simp
    also have "\<dots> \<le> (maxnode + 7) div 8" using \<open>1 \<le> (maxnode + 7) div 8\<close> by linarith
    finally show ?thesis by simp
  qed
  ultimately show "8 \<le> mask_size maxnode" "maxnode \<le> 8 * mask_size maxnode" "(maxnode - 1 + 63) div 64 * 8 \<le> mask_size maxnode"
    unfolding mask_size_eq [OF assms(2)] by simp_all
qed

text \<open>The documented behaviour of \<open>malloc\<close> and \<open>get_mempolicy\<close>, as far as sizes are concerned.\<close>

definition malloc_ok :: "(nat \<Rightarrow> bytes option) \<Rightarrow> bool" where
  "malloc_ok malloc \<longleftrightarrow> (\<forall>n. \<exists>block. malloc n = Some block \<and> length block = n)"

definition policy_ok :: "(nat option \<Rightarrow> int \<times> int \<times> bytes) \<Rightarrow> bool" where
  "policy_ok get_mempolicy \<longleftrightarrow> (\<forall>n. length (snd (snd (get_mempolicy (Some n)))) \<le> (n - 1 + 63) div 64 * 8)"

text \<open>
  The mask is large enough, and far too large, as bits are taken for bytes: for every \<open>maxnode\<close> from 1
  to \<open>2 ^ 64 - 8\<close> neither program leaves its block.  For 0, and for the last seven numbers, which is what
  a \<open>maxnode\<close> from \<open>-7\<close> to \<open>-1\<close> becomes, the size wraps to 0 and \<open>numaset\<close> stores outside it.
\<close>

theorem numa_mask_bounds:
  assumes "malloc_ok malloc" "policy_ok getpol" "maxnode = arg_or argv 3 1025" "maxnode' = arg_or argv' 1 1025" "0 < maxnode'" "maxnode' < 2 ^ 64 - 7"
  shows "(numaset_main malloc setpol pid argv = Inl OutsideMask \<longleftrightarrow> maxnode = 0 \<or> 2 ^ 64 - 7 \<le> maxnode)
    \<and> (\<exists>rc out. numaget_main malloc getpol argv' = Inr (rc, out))"
proof
  have lt: "maxnode < 2 ^ 64" using assms(3) c_ulong_less by (simp add: arg_or_def)
  from assms(1) obtain block where b: "malloc (mask_size maxnode) = Some block" "length block = mask_size maxnode"
    unfolding malloc_ok_def by blast
  have "mask_size maxnode < 8 \<longleftrightarrow> maxnode = 0 \<or> 2 ^ 64 - 7 \<le> maxnode"
  proof (cases "maxnode = 0 \<or> 2 ^ 64 - 7 \<le> maxnode")
    case True
    then have "mask_size maxnode = 0" using mask_size_wraps [OF _ lt] mask_size_eq [of 0] by auto
    with True show ?thesis by simp
  next
    case False
    with mask_size_enough(1) [of maxnode] show ?thesis by simp
  qed
  with b assms(3) show "numaset_main malloc setpol pid argv = Inl OutsideMask \<longleftrightarrow> maxnode = 0 \<or> 2 ^ 64 - 7 \<le> maxnode"
    by (auto simp: numaset_main_def Let_def)
next
  from assms(1) obtain block where b: "malloc (mask_size maxnode') = Some block" "length block = mask_size maxnode'"
    unfolding malloc_ok_def by blast
  note e = mask_size_enough [OF assms(5,6)]
  obtain r1 m1 b1 where g1: "getpol None = (r1, m1, b1)" by (cases "getpol None")
  obtain r2 m2 b2 where g2: "getpol (Some maxnode') = (r2, m2, b2)" by (cases "getpol (Some maxnode')")
  have "length b2 \<le> (maxnode' - 1 + 63) div 64 * 8" using assms(2) g2 unfolding policy_ok_def by (metis snd_conv)
  with e(3) b(2) have "length b2 \<le> length block" by linarith
  with b e(1) g1 g2 assms(4) show "\<exists>rc out. numaget_main malloc getpol argv' = Inr (rc, out)"
    by (simp add: numaget_main_def Let_def)
qed

theorem numa_mask_bounds_witness:
  "numaset_main (\<lambda>n. Some (replicate n 0)) (\<lambda>_ _ _. 0) 7 [''numaset'', ''2'', ''1'', ''0''] = Inl OutsideMask"
proof -
  have "malloc_ok (\<lambda>n. Some (replicate n 0))" by (simp add: malloc_ok_def)
  moreover have "policy_ok (\<lambda>_. (0, 0, []))" by (simp add: policy_ok_def)
  moreover have "arg_or [''numaset'', ''2'', ''1'', ''0''] 3 1025 = 0" by code_simp
  moreover have "arg_or [''numaget''] 1 1025 = 1025" by (simp add: arg_or_def)
  ultimately show ?thesis
    using numa_mask_bounds [of "\<lambda>n. Some (replicate n 0)" "\<lambda>_. (0, 0, [])" 0 "[''numaset'', ''2'', ''1'', ''0'']" 1025 "[''numaget'']"
       "\<lambda>_ _ _. 0" 7] by simp
qed

text \<open>
  Only the first 64 bits of the mask that \<open>numaset\<close> passes are set from its argument: the others, up to
  the default \<open>maxnode\<close> of 1025, are whatever the block from \<open>malloc\<close> held.
\<close>

theorem numaset_mask_uninitialised:
  assumes "malloc (mask_size maxnode) = Some block" "length block = mask_size maxnode"
    and "maxnode = arg_or argv 3 1025" "0 < maxnode" "maxnode < 2 ^ 64 - 7"
  shows "\<exists>out. numaset_main malloc setpol pid argv = Inr (le_bytes 8 (arg_or argv 2 1) @ drop 8 block, out)"
  using assms mask_size_enough(1) [OF assms(4,5)] by (simp add: numaset_main_def Let_def patch_def)

theorem numaset_mask_uninitialised_witness:
  "\<exists>out. numaset_main (\<lambda>n. Some (replicate n 255)) (\<lambda>_ _ _. 0) 7 [''numaset''] = Inr (le_bytes 8 1 @ drop 8 (replicate 1032 255), out)"
proof -
  have "mask_size 1025 = 1032" using mask_size_eq [of 1025] by simp
  then show ?thesis
    using numaset_mask_uninitialised [of "\<lambda>n. Some (replicate n 255)" 1025 "replicate 1032 255" "[''numaset'']" "\<lambda>_ _ _. 0" 7]
    by (simp add: arg_or_def)
qed

end
