(* ===== verification/KernelDemos.thy ===== *)
theory KernelDemos
  imports Prelude CLib
begin

text \<open>
  Kernel modules without a device: \<open>src/kernel/linux_network/udp_sock/zudp.c\<close>, which lists the \<open>udp\<close>
  sockets, and the two work-queue modules \<open>src/kernel/workqueue/work_queue_a\<close> and \<open>work_queue_b\<close>, whose
  deferred work runs beside loading and unloading.
\<close>

section \<open>\<open>zudp.c\<close>\<close>

text \<open>
  The kernel's table: \<open>hash\<close> has \<open>mask + 1\<close> slots.  Ports and addresses are printed as they are stored;
  \<open>pI4\<close> prints an address.
\<close>

record udp_sk =
  sk_dport :: nat
  sk_num :: nat
  sk_daddr :: nat
  sk_rcv_saddr :: nat

record udp_hslot =
  slot_count :: nat
  slot_head :: "udp_sk list"

record udp_tab =
  udp_mask :: nat
  udp_log :: nat
  udp_hash :: "udp_hslot list"

definition sk_line :: "(nat \<Rightarrow> string) \<Rightarrow> udp_sk \<Rightarrow> string" where
  "sk_line pI4 sk = ''destination port:'' @ fmt_u (sk_dport sk) @ '' local port:'' @ fmt_u (sk_num sk) @ '' daddr:'' @ pI4 (sk_daddr sk)
     @ '' saddr:'' @ pI4 (sk_rcv_saddr sk) @ nl"

definition slot_lines :: "(nat \<Rightarrow> string) \<Rightarrow> nat \<Rightarrow> udp_hslot \<Rightarrow> string list" where
  "slot_lines pI4 i s =
     (if 0 < slot_count s
      then (''hslot['' @ fmt_d (int i) @ ''] count:'' @ fmt_d (int (slot_count s)) @ nl) # map (sk_line pI4) (slot_head s)
      else [])"

text \<open>The loop from \<open>i\<close> on; \<open>mask - i\<close> rounds are left.\<close>

function zudp_loop :: "(nat \<Rightarrow> string) \<Rightarrow> udp_tab \<Rightarrow> nat \<Rightarrow> string list" where
  "zudp_loop pI4 t i = (if i < udp_mask t then slot_lines pI4 i (udp_hash t ! i) @ zudp_loop pI4 t (Suc i) else [])"
  by pat_completeness auto
termination by (relation "measure (\<lambda>(p, t, i). udp_mask t - i)") auto

declare zudp_loop.simps [simp del]

definition zudp_init :: "(nat \<Rightarrow> string) \<Rightarrow> udp_tab \<Rightarrow> int \<times> string list" where
  "zudp_init pI4 t =
     (0, (''udp_table mask:0x'' @ fmt_x (udp_mask t) @ '' log:0x'' @ fmt_x (udp_log t) @ nl) # zudp_loop pI4 t 0)"

lemma zudp_loop_lists:
  "i \<le> udp_mask t \<Longrightarrow> zudp_loop pI4 t i = concat (map (\<lambda>j. slot_lines pI4 j (udp_hash t ! j)) [i..<udp_mask t])"
proof (induction pI4 t i rule: zudp_loop.induct)
  case (1 pI4 t i)
  then show ?case by (subst zudp_loop.simps) (auto simp: upt_conv_Cons)
qed

text \<open>
  The module lists the sockets of all slots of the table but the last: \<open>mask\<close> is one less than the
  number of slots, and the loop stops before it.  A socket whose port falls into that slot is never
  shown.
\<close>

theorem zudp_skips_last_slot:
  assumes "length (udp_hash t) = udp_mask t + 1"
  shows "snd (zudp_init pI4 t) = (''udp_table mask:0x'' @ fmt_x (udp_mask t) @ '' log:0x'' @ fmt_x (udp_log t) @ nl)
      # concat (map (\<lambda>j. slot_lines pI4 j (butlast (udp_hash t) ! j)) [0..<length (udp_hash t) - 1])
    \<and> (\<forall>last'. zudp_init pI4 (t\<lparr>udp_hash := butlast (udp_hash t) @ [last']\<rparr>) = zudp_init pI4 t)"
proof -
  have b: "butlast (udp_hash t) ! j = udp_hash t ! j" "(butlast (udp_hash t) @ [x]) ! j = udp_hash t ! j" if "j < udp_mask t" for j x
    using that assms by (simp_all add: nth_butlast nth_append)
  have "concat (map (\<lambda>j. slot_lines pI4 j ((butlast (udp_hash t) @ [x]) ! j)) [0..<udp_mask t])
      = concat (map (\<lambda>j. slot_lines pI4 j (udp_hash t ! j)) [0..<udp_mask t])" for x
    by (intro arg_cong [of _ _ concat] map_cong) (simp_all add: b)
  moreover have "concat (map (\<lambda>j. slot_lines pI4 j (butlast (udp_hash t) ! j)) [0..<udp_mask t])
      = concat (map (\<lambda>j. slot_lines pI4 j (udp_hash t ! j)) [0..<udp_mask t])"
    by (intro arg_cong [of _ _ concat] map_cong) (simp_all add: b)
  ultimately show ?thesis using assms by (simp add: zudp_init_def zudp_loop_lists)
qed

theorem zudp_skips_last_slot_witness:
  "\<forall>last'. zudp_init (\<lambda>_. []) (\<lparr>udp_mask = 1, udp_log = 1, udp_hash = [\<lparr>slot_count = 0, slot_head = []\<rparr>, last']\<rparr>)
     = (0, [''udp_table mask:0x1 log:0x1'' @ nl])"
proof
  fix last'
  have "fmt_x 1 = ''1''" by code_simp
  with zudp_skips_last_slot [of "\<lparr>udp_mask = 1, udp_log = 1, udp_hash = [\<lparr>slot_count = 0, slot_head = []\<rparr>, last']\<rparr>" "\<lambda>_. []"]
  show "zudp_init (\<lambda>_. []) (\<lparr>udp_mask = 1, udp_log = 1, udp_hash = [\<lparr>slot_count = 0, slot_head = []\<rparr>, last']\<rparr>)
     = (0, [''udp_table mask:0x1 log:0x1'' @ nl])"
    by (simp add: zudp_init_def slot_lines_def)
qed

section \<open>Deferred work\<close>

text \<open>
  A module of the two: not loaded, loaded, or unloaded, its code gone.  The work is not yet queued,
  waiting, in the \<open>i\<close>th round of its handler, or finished.  \<open>log\<close> counts the lines printed.
\<close>

datatype module_state = NotLoaded | Loaded | Unloaded

datatype work_state = NoWork | Pending | Running nat | Finished

record wq =
  mod_state :: module_state
  work :: work_state
  log_lines :: nat

text \<open>
  \<open>schedule_work\<close> and \<open>queue_work\<close> queue the work; the handler does three rounds.  \<open>drains\<close> says that
  unloading destroys the queue, which waits for its work first: so in \<open>work_queue_b\<close>, not in
  \<open>work_queue_a\<close>, whose work is on the queue of the system.
\<close>

inductive wq_step :: "bool \<Rightarrow> wq \<Rightarrow> wq \<Rightarrow> bool" for drains where
  init: "mod_state s = NotLoaded \<Longrightarrow> wq_step drains s (s\<lparr>mod_state := Loaded, work := Pending\<rparr>)"
| begin_work: "work s = Pending \<Longrightarrow> wq_step drains s (s\<lparr>work := Running 0\<rparr>)"
| round: "work s = Running i \<Longrightarrow> i < 3 \<Longrightarrow> wq_step drains s (s\<lparr>work := Running (Suc i), log_lines := Suc (log_lines s)\<rparr>)"
| finish: "work s = Running i \<Longrightarrow> \<not> i < 3 \<Longrightarrow> wq_step drains s (s\<lparr>work := Finished\<rparr>)"
| exit: "mod_state s = Loaded \<Longrightarrow> drains \<longrightarrow> work s = Finished \<Longrightarrow> wq_step drains s (s\<lparr>mod_state := Unloaded\<rparr>)"

inductive_cases wq_stepE: "wq_step drains s s'"

inductive wq_reachable :: "bool \<Rightarrow> wq \<Rightarrow> bool" for drains where
  start: "wq_reachable drains \<lparr>mod_state = NotLoaded, work = NoWork, log_lines = 0\<rparr>"
| step: "wq_reachable drains s \<Longrightarrow> wq_step drains s s' \<Longrightarrow> wq_reachable drains s'"

definition wq_inv :: "wq \<Rightarrow> bool" where
  "wq_inv s \<longleftrightarrow> (mod_state s = NotLoaded \<longleftrightarrow> work s = NoWork) \<and> (mod_state s = Unloaded \<longrightarrow> work s = Finished)
     \<and> (case work s of NoWork \<Rightarrow> log_lines s = 0 | Pending \<Rightarrow> log_lines s = 0 | Running i \<Rightarrow> i \<le> 3 \<and> log_lines s = i | Finished \<Rightarrow> log_lines s = 3)"

lemma wq_inv_kept: "wq_inv s \<Longrightarrow> wq_step True s s' \<Longrightarrow> wq_inv s'"
  by (erule wq_stepE) (auto simp: wq_inv_def split: work_state.splits)

lemma wq_inv_reachable: "wq_reachable True s \<Longrightarrow> wq_inv s"
  by (induction rule: wq_reachable.induct) (simp add: wq_inv_def, blast intro: wq_inv_kept)

text \<open>The work that is left, as a number of steps.\<close>

fun work_left :: "work_state \<Rightarrow> nat" where
  "work_left NoWork = 0"
| "work_left Pending = 5"
| "work_left (Running i) = Suc (3 - i)"
| "work_left Finished = 0"

text \<open>
  The handler of \<open>work_queue_b\<close> never runs in an unloaded module, because destroying the queue waits
  for it, and it has printed its three lines by then; the handler of \<open>work_queue_a\<close> can be left running
  after its code is gone.
\<close>

theorem work_outlives_module_a:
  "(\<forall>s. wq_reachable True s \<longrightarrow> mod_state s = Unloaded \<longrightarrow> work s = Finished \<and> log_lines s = 3)
   \<and> (\<exists>s. wq_reachable False s \<and> mod_state s = Unloaded \<and> work s = Running 1)"
proof
  show "\<forall>s. wq_reachable True s \<longrightarrow> mod_state s = Unloaded \<longrightarrow> work s = Finished \<and> log_lines s = 3"
  proof (intro allI impI)
    fix s assume "wq_reachable True s" "mod_state s = Unloaded"
    with wq_inv_reachable [of s] show "work s = Finished \<and> log_lines s = 3" by (auto simp: wq_inv_def)
  qed
next
  let ?s = "\<lambda>m w n. \<lparr>mod_state = m, work = w, log_lines = n\<rparr>"
  have "wq_reachable False (?s Loaded Pending 0)"
    using wq_reachable.step [OF wq_reachable.start wq_step.init] by simp
  from wq_reachable.step [OF this wq_step.begin_work] have "wq_reachable False (?s Loaded (Running 0) 0)" by simp
  from wq_reachable.step [OF this wq_step.round [where i = 0]] have "wq_reachable False (?s Loaded (Running 1) 1)" by simp
  from wq_reachable.step [OF this wq_step.exit] have "wq_reachable False (?s Unloaded (Running 1) 1)" by simp
  then show "\<exists>s. wq_reachable False s \<and> mod_state s = Unloaded \<and> work s = Running 1" by force
qed

lemma work_progress:
  assumes "work_left (work s) = Suc n"
  shows "\<exists>s'. wq_step drains s s' \<and> work_left (work s') = n \<and> mod_state s' = mod_state s"
proof (cases "work s")
  case Pending
  with assms show ?thesis by (intro exI [of _ "s\<lparr>work := Running 0\<rparr>"]) (auto intro: wq_step.begin_work)
next
  case (Running i)
  show ?thesis
  proof (cases "i < 3")
    case True
    with Running assms show ?thesis
      by (intro exI [of _ "s\<lparr>work := Running (Suc i), log_lines := Suc (log_lines s)\<rparr>"]) (auto intro: wq_step.round)
  next
    case False
    with Running assms show ?thesis by (intro exI [of _ "s\<lparr>work := Finished\<rparr>"]) (auto intro: wq_step.finish)
  qed
qed (use assms in simp_all)

lemma work_ends:
  "work_left (work s) = n \<Longrightarrow> \<exists>s'. (wq_step drains ^^ n) s s' \<and> work_left (work s') = 0 \<and> mod_state s' = mod_state s"
proof (induction n arbitrary: s)
  case (Suc n)
  then obtain s1 where "wq_step drains s s1" "work_left (work s1) = n" "mod_state s1 = mod_state s" using work_progress by blast
  with Suc.IH [of s1] show ?case by (metis relpowp_Suc_I2)
qed auto

text \<open>
  C25: Unloading \<open>work_queue_b\<close> does not wait for ever: from every state of the loaded module, at most five
  steps of the handler lead to one in which it can be unloaded.
\<close>

theorem work_queue_b_unloads:
  assumes "wq_reachable True s" "mod_state s = Loaded"
  shows "\<exists>n s'. n \<le> 5 \<and> (wq_step True ^^ n) s s' \<and> mod_state s' = Loaded \<and> work s' = Finished
    \<and> wq_step True s' (s'\<lparr>mod_state := Unloaded\<rparr>)"
proof -
  obtain s' where s': "(wq_step True ^^ work_left (work s)) s s'" "work_left (work s') = 0" "mod_state s' = Loaded"
    using work_ends [of s, OF refl] assms(2) by metis
  have "(wq_step True ^^ n) a b \<Longrightarrow> wq_reachable True a \<Longrightarrow> wq_reachable True b" for n a b
    by (induction n arbitrary: b) (auto intro: wq_reachable.step)
  then have "wq_inv s'" using s'(1) assms(1) wq_inv_reachable by blast
  then have fin: "work s' = Finished" using s'(2,3) by (cases "work s'") (simp_all add: wq_inv_def)
  have "work_left (work s) \<le> 5" by (cases "work s") simp_all
  moreover have "wq_step True s' (s'\<lparr>mod_state := Unloaded\<rparr>)" using s'(3) fin by (intro wq_step.exit) simp_all
  ultimately show ?thesis using s' fin by blast
qed

theorem work_queue_b_unloads_witness:
  "\<exists>n s'. n \<le> 5 \<and> (wq_step True ^^ n) \<lparr>mod_state = Loaded, work = Pending, log_lines = 0\<rparr> s' \<and> mod_state s' = Loaded \<and> work s' = Finished
    \<and> wq_step True s' (s'\<lparr>mod_state := Unloaded\<rparr>)"
  using work_queue_b_unloads [OF wq_reachable.step [OF wq_reachable.start wq_step.init]] by simp

end
