(* ===== verification/Demos.thy ===== *)
theory Demos
  imports ZpageTest Procfs Posix
begin

text \<open>
  The programs that other tools are pointed at: \<open>src/kernel/procfs/mem_test.c\<close> (its variable is
  looked at through \<open>/proc/zproc/physvalue\<close> of \<open>zproc.c\<close>), \<open>src/linux/memory/mmap/mmap_test.c\<close>
  (its memory use is watched while it fills a mapping), \<open>src/linux/gdb_test\<close>,
  \<open>src/script/perf/start\<close> and \<open>src/virtual/os/privileged/testcr3.c\<close>.
\<close>

section \<open>\<open>mem_test.c\<close>\<close>

text \<open>What is printed before \<open>getchar\<close>, and the memory then; \<open>a\<close> is the address of \<open>tmp\<close>.\<close>

definition mem_test_main :: "zmm \<Rightarrow> int \<Rightarrow> u64 \<Rightarrow> physmem \<Rightarrow> (string \<times> physmem) option" where
  "mem_test_main mm pid a phys = do {
     phys \<leftarrow> store_virt mm a (le_bytes 8 0x12345678) phys;
     Some (''Pid is:'' @ fmt_d pid @ nl @ ''tmp address:'' @ fmt_p a @ nl, phys)
   }"

text \<open>The pages that \<open>zproc\<close> maps, of the same memory.\<close>

definition pages_of :: "physmem \<Rightarrow> nat \<Rightarrow> (nat \<Rightarrow> byte) option" where
  "pages_of phys n = Some (\<lambda>i. phys (zkmap n + i))"

section \<open>\<open>mmap_test.c\<close>\<close>

definition LARGELEN :: nat where "LARGELEN = 20 * 1024 * 1024"

text \<open>
  The loop \<open>for (; i < n; i++) lptr[i] = i%256\<close> with \<open>k\<close> rounds to go; a store outside the block is
  \<open>None\<close>.
\<close>

fun touch_loop :: "nat \<Rightarrow> nat \<Rightarrow> bytes \<Rightarrow> bytes option" where
  "touch_loop i 0 lptr = Some lptr"
| "touch_loop i (Suc k) lptr =
     (if i < length lptr then touch_loop (Suc i) k (lptr[i := of_nat (i mod 256)]) else None)"

definition mmap_line :: "string \<Rightarrow> u64 \<Rightarrow> u64 \<Rightarrow> user_os \<Rightarrow> unit uprog" where
  "mmap_line s p lp os = do {
     pid \<leftarrow> ucall_rv os Getpid;
     _ \<leftarrow> call os (Out (s @ '' mmap pid:'' @ fmt_d pid @ '' ptr:'' @ fmt_p p @ '' lptr:'' @ fmt_p lp @ nl));
     _ \<leftarrow> call os Getchar;
     State_Monad.return ()
   }"

text \<open>\<open>p\<close> is the address of the array on the stack; the result is the exit code and the mapped block.\<close>

definition mmap_test_main :: "u64 \<Rightarrow> user_os \<Rightarrow> (int \<times> bytes) option uprog" where
  "mmap_test_main p os = do {
     l \<leftarrow> ucall_rv os (Mmap LARGELEN);
     if l = - 1 then do { _ \<leftarrow> call os (Perror ''mmap''); State_Monad.return (Some (1, [])) }
     else do {
       _ \<leftarrow> mmap_line ''before use'' p (of_int l) os;
       case touch_loop 0 (LARGELEN div 2) (replicate LARGELEN 0) of
         None \<Rightarrow> State_Monad.return None
       | Some half \<Rightarrow> do {
           _ \<leftarrow> mmap_line (''after use 0x'' @ fmt_x (LARGELEN div 2)) p (of_int l) os;
           case touch_loop 0 LARGELEN half of
             None \<Rightarrow> State_Monad.return None
           | Some whole \<Rightarrow> do {
               _ \<leftarrow> mmap_line (''after use 0x'' @ fmt_x LARGELEN) p (of_int l) os;
               State_Monad.return (Some (0, whole))
             }
         }
     }
   }"

section \<open>\<open>gdb_test\<close>\<close>

definition testfun :: "int \<Rightarrow> int \<Rightarrow> int" where
  "testfun a b = (let c = c_int (a + b) in if 10 < a then c_int (c - 10) else c)"

definition gdb_bar_main :: "int \<Rightarrow> string \<times> int" where
  "gdb_bar_main argc = (let a = argc; b = c_int (a + 5); c = testfun a b
     in (''testfun ret:'' @ fmt_d c @ nl, 0))"

definition gdb_foo_main :: "int \<Rightarrow> string \<times> int" where
  "gdb_foo_main argc = (let a = argc; b = c_int (a + 5) in (''a:'' @ fmt_d a @ '' b:'' @ fmt_d b @ nl, 0))"

section \<open>\<open>script/perf/start\<close>\<close>

text \<open>
  What a profiler sees of \<open>foo.c\<close>: the rounds of the loop in \<open>longa\<close>, counted by the caller
  of \<open>longa\<close>.
\<close>

record profile =
  in_foo1 :: nat
  in_foo2 :: nat

fun longa_loop :: "(profile \<Rightarrow> profile) \<Rightarrow> nat \<Rightarrow> profile \<Rightarrow> profile" where
  "longa_loop tick 0 p = p"
| "longa_loop tick (Suc k) p = longa_loop tick k (tick p)"

definition longa :: "(profile \<Rightarrow> profile) \<Rightarrow> profile \<Rightarrow> profile" where
  "longa tick = longa_loop tick 1000000"

definition foo1 :: "profile \<Rightarrow> profile" where
  "foo1 = longa (in_foo1_update Suc) ^^ 100"

definition foo2 :: "profile \<Rightarrow> profile" where
  "foo2 = longa (in_foo2_update Suc) ^^ 10"

definition perf_foo_main :: "profile \<Rightarrow> profile \<times> int" where
  "perf_foo_main p = (foo2 (foo1 p), 0)"

text \<open>\<open>bar.c\<close> counts for ever.\<close>

partial_function (option) perf_bar_loop :: "int \<Rightarrow> int option" where
  "perf_bar_loop i = perf_bar_loop (c_int (i + 1))"

section \<open>\<open>testcr3.c\<close>\<close>

text \<open>
  \<open>mov cr3\<close> is \<open>None\<close> where the processor refuses it.  The \<open>%x\<close> shows the low 32 bits of the
  \<open>unsigned long\<close>.
\<close>

definition testcr3_main :: "u64 option \<Rightarrow> (string \<times> int) option" where
  "testcr3_main cr3 = do { v \<leftarrow> cr3; Some (''cr3:0x'' @ fmt_x (unat v mod 2 ^ 32) @ nl, 0) }"

section \<open>Lemmas\<close>

lemma touch_loop_stores:
  "i + k \<le> length m \<Longrightarrow>
   touch_loop i k m = Some (take i m @ map (\<lambda>j. of_nat (j mod 256)) [i..<i + k] @ drop (i + k) m)"
proof (induction k arbitrary: i m)
  case (Suc k)
  then have "touch_loop (Suc i) k (m[i := of_nat (i mod 256)]) =
      Some (take (Suc i) (m[i := of_nat (i mod 256)]) @ map (\<lambda>j. of_nat (j mod 256)) [Suc i..<Suc i + k] @
        drop (Suc i + k) (m[i := of_nat (i mod 256)]))"
    by (intro Suc.IH) simp
  moreover have "take (Suc i) (m[i := of_nat (i mod 256)]) = take i m @ [of_nat (i mod 256)]"
    using Suc.prems by (simp add: take_Suc_conv_app_nth)
  moreover have "[i..<i + Suc k] = i # [Suc i..<Suc i + k]" by (simp add: upt_rec)
  ultimately show ?case using Suc.prems by (simp del: upt_Suc)
qed simp

lemma touch_loop_outside: "length m < i + k \<Longrightarrow> 0 < k \<Longrightarrow> touch_loop i k m = None"
  by (induction k arbitrary: i m) auto

lemma longa_loop_ticks: "longa_loop tick k = tick ^^ k"
  by (induction k) (simp_all add: fun_eq_iff funpow_swap1)

lemma foo1_ticks: "foo1 p = p\<lparr>in_foo1 := in_foo1 p + 100 * 1000000\<rparr>"
proof -
  have "(in_foo1_update Suc ^^ n) p = p\<lparr>in_foo1 := in_foo1 p + n\<rparr>" for n and p :: profile
    by (induction n) simp_all
  then show ?thesis by (simp add: foo1_def longa_def longa_loop_ticks funpow_mult del: funpow.simps)
qed

lemma foo2_ticks: "foo2 p = p\<lparr>in_foo2 := in_foo2 p + 10 * 1000000\<rparr>"
proof -
  have "(in_foo2_update Suc ^^ n) p = p\<lparr>in_foo2 := in_foo2 p + n\<rparr>" for n and p :: profile
    by (induction n) simp_all
  then show ?thesis by (simp add: foo2_def longa_def longa_loop_ticks funpow_mult del: funpow.simps)
qed

lemma gdb_bar_prints:
  "0 \<le> n \<Longrightarrow> n < 2 ^ 30 - 5 \<Longrightarrow>
   gdb_bar_main n = (''testfun ret:'' @ fmt_d (if n \<le> 10 then 2 * n + 5 else 2 * n - 5) @ nl, 0)"
  by (simp add: gdb_bar_main_def testfun_def Let_def)

text \<open>The profile: the first function takes ten times what the second does.\<close>

lemma perf_profile:
  "perf_foo_main \<lparr>in_foo1 = 0, in_foo2 = 0\<rparr> = (\<lparr>in_foo1 = 100000000, in_foo2 = 10000000\<rparr>, 0)"
  by (simp add: perf_foo_main_def foo1_ticks foo2_ticks)

lemma perf_bar_never_ends: "perf_bar_loop i = None"
proof -
  have "\<And>i y. perf_bar_loop i = Some y \<Longrightarrow> False"
    by (rule perf_bar_loop.raw_induct [of "\<lambda>_ _. False"]) assumption
  then show ?thesis by (cases "perf_bar_loop i") auto
qed

section \<open>Properties\<close>

text \<open>
  C33: \<open>mem_test\<close> and \<open>zproc\<close>: when \<open>mem_test\<close> waits, writing the physical address of its variable to
  \<open>physvalue\<close> and reading the file shows the number that \<open>mem_test\<close> has stored.
\<close>

theorem physvalue_shows_variable_of_mem_test:
  assumes "on_page mm a 8 page" "zkmap page + page_offset a = p" "p < 2 ^ 52"
    and "ks (fmt_x p @ nl) 16 = Some (int p)"
  shows "\<exists>phys1. mem_test_main mm pid a phys =
      Some (''Pid is:'' @ fmt_d pid @ nl @ ''tmp address:'' @ fmt_p a @ nl, phys1)
    \<and> phys_value_show (pages_of phys1) (snd (phys_value_write full_copy_in ks stack old (of_cstr (fmt_x p @ nl)))) =
        ''0x'' @ fmt_x p @ '':0x'' @ fmt_x 0x12345678 @ nl"
proof -
  let ?phys1 = "\<lambda>x. if p \<le> x \<and> x < p + 8 then le_bytes 8 0x12345678 ! (x - p) else phys x"
  have store: "store_virt mm a (le_bytes 8 0x12345678) phys = Some ?phys1"
    using store_virt_page [of mm a "le_bytes 8 0x12345678" page phys] assms(1) unfolding assms(2) by simp
  have "length (fmt_x p) \<le> 13" using length_fmt_x [of p 13] assms(3) by simp
  then have "snd (phys_value_write full_copy_in ks stack old (of_cstr (fmt_x p @ nl))) = int p"
    using phys.write_short_text [of "fmt_x p @ nl" ks stack old] assms(4) by (simp add: nl_def)
  moreover have "phys_value_show (pages_of ?phys1) (int p) = ''0x'' @ fmt_x p @ '':0x'' @ fmt_x 0x12345678 @ nl"
  proof -
    have off: "page_offset a = p mod 4096" "page_offset a \<le> 4088"
      using assms(1,2) by (auto simp: zkmap_def on_page_def unat_page_offset)
    have cp: "c_ulong (int p) = p" using assms(3) by simp
    have "map ?phys1 [p..<p + 8] = le_bytes 8 0x12345678"
      by (rule nth_equalityI) simp_all
    then have le: "le_nat (map ?phys1 [p..<p + 8]) = 0x12345678"
      by (simp only: le_nat_le_bytes) simp
    show ?thesis
      using phys_value_shows_word [of "int p" "pages_of ?phys1" "\<lambda>i. ?phys1 (zkmap (p div 4096) + i)" ?phys1] off le
      unfolding cp by (simp add: pages_of_def zkmap_def mult.commute)
  qed
  ultimately show ?thesis
    by (intro exI [of _ ?phys1]) (simp add: mem_test_main_def store)
qed

theorem physvalue_shows_variable_of_mem_test_witness:
  "phys_value_show (pages_of (snd (the (mem_test_main (sample_mm 0) 7 256 (\<lambda>_. 0)))))
     (snd (phys_value_write full_copy_in (\<lambda>_ _. Some (int 20736)) [] 0 (of_cstr (fmt_x 20736 @ nl)))) =
   ''0x'' @ fmt_x 20736 @ '':0x'' @ fmt_x 0x12345678 @ nl"
proof -
  have "page_offset 256 = 256" by (simp add: unat_page_offset)
  then have at: "on_page (sample_mm 0) 256 8 5" "zkmap 5 + page_offset 256 = 20736"
    by (simp_all add: on_page_def sample_walk zkmap_def)
  have "20736 < (2 :: nat) ^ 52" by simp
  then obtain phys1 where "mem_test_main (sample_mm 0) 7 256 (\<lambda>_. 0) =
      Some (''Pid is:'' @ fmt_d 7 @ nl @ ''tmp address:'' @ fmt_p 256 @ nl, phys1)"
    "phys_value_show (pages_of phys1)
      (snd (phys_value_write full_copy_in (\<lambda>_ _. Some (int 20736)) [] 0 (of_cstr (fmt_x 20736 @ nl)))) =
     ''0x'' @ fmt_x 20736 @ '':0x'' @ fmt_x 0x12345678 @ nl"
    using physvalue_shows_variable_of_mem_test [OF at, where ks = "\<lambda>_ _. Some (int 20736)" and pid = 7
        and phys = "\<lambda>_. 0" and stack = "[]" and old = 0] by blast
  then show ?thesis by (simp only: option.sel snd_conv)
qed

text \<open>
  \<open>mmap_test\<close> stays inside its mapping: when the mapping succeeds it ends with 0, the block then
  holds in each byte the low byte of its index; no more than half of it has been written when the
  second line is printed.  Otherwise it ends with 1.
\<close>

theorem mmap_test_fills_block:
  "fst (run_state (mmap_test_main p os) h) =
     (if rv (os h (Mmap LARGELEN)) = - 1 then Some (1, [])
      else Some (0, map (\<lambda>j. of_nat (j mod 256)) [0..<LARGELEN]))
   \<and> touch_loop 0 (LARGELEN div 2) (replicate LARGELEN 0) =
      Some (map (\<lambda>j. of_nat (j mod 256)) [0..<LARGELEN div 2] @ replicate (LARGELEN - LARGELEN div 2) 0)"
proof -
  have half: "touch_loop 0 (LARGELEN div 2) (replicate LARGELEN 0) =
      Some (map (\<lambda>j. of_nat (j mod 256)) [0..<LARGELEN div 2] @ replicate (LARGELEN - LARGELEN div 2) 0)"
    (is "_ = Some ?half")
    using touch_loop_stores [of 0 "LARGELEN div 2" "replicate LARGELEN 0"] by simp
  have "length ?half = LARGELEN" by simp
  then have "touch_loop 0 LARGELEN ?half = Some (map (\<lambda>j. of_nat (j mod 256)) [0..<LARGELEN])"
    using touch_loop_stores [of 0 LARGELEN ?half] by simp
  with half show ?thesis
    by (simp add: mmap_test_main_def mmap_line_def)
qed

end
